(* ===== verification/Myelin_Base.thy ===== *)
theory Myelin_Base
  imports Main "HOL-Library.Word" "HOL-Library.List_Lexorder" "HOL-Library.Char_ord"
begin

text \<open>
  The prelude of the development: the vocabulary that every component theory uses to
  translate Rust. Fixed-width integers are words, byte strings are lists of 8-bit words,
  \<open>Result\<close> is a sum with the error on the left, the \<open>?\<close> operator is \<open>res_bind\<close>,
  an early-returning \<open>for\<close> loop is \<open>fold_res\<close>, a \<open>BTreeMap\<close> is a list of bindings
  with strictly increasing keys, and the checked and saturating operations of the
  integer types are written out with their overflow conditions.
\<close>

section \<open>Collections of facts shared by the component proofs\<close>

named_theorems res_simps \<open>unfolding of result-valued control flow\<close>
named_theorems u_arith \<open>wrap-around, checked and saturating arithmetic read as numbers\<close>
named_theorems bt_simps \<open>lookup after an update of an ordered map\<close>
named_theorems le_simps \<open>little-endian encodings\<close>

section \<open>Integers and byte strings\<close>

type_synonym u8 = "8 word"
type_synonym u16 = "16 word"
type_synonym u32 = "32 word"
type_synonym u64 = "64 word"
type_synonym bytes = "8 word list"
type_synonym hash32 = bytes

text \<open>\<open>checked_add\<close>, \<open>checked_sub\<close>, \<open>checked_mul\<close>: \<open>None\<close> on overflow.\<close>

definition checked_add :: "'a::len word \<Rightarrow> 'a word \<Rightarrow> 'a word option" where
  "checked_add a b = (if unat a + unat b < 2 ^ LENGTH('a) then Some (a + b) else None)"

definition checked_sub :: "'a::len word \<Rightarrow> 'a word \<Rightarrow> 'a word option" where
  "checked_sub a b = (if b \<le> a then Some (a - b) else None)"

definition checked_mul :: "'a::len word \<Rightarrow> 'a word \<Rightarrow> 'a word option" where
  "checked_mul a b = (if unat a * unat b < 2 ^ LENGTH('a) then Some (a * b) else None)"

text \<open>\<open>saturating_add\<close>, \<open>saturating_sub\<close>, \<open>saturating_mul\<close>: clamped to the range.\<close>

definition saturating_add :: "'a::len word \<Rightarrow> 'a word \<Rightarrow> 'a word" where
  "saturating_add a b = (if unat a + unat b < 2 ^ LENGTH('a) then a + b else - 1)"

definition saturating_sub :: "'a::len word \<Rightarrow> 'a word \<Rightarrow> 'a word" where
  "saturating_sub a b = (if b \<le> a then a - b else 0)"

definition saturating_mul :: "'a::len word \<Rightarrow> 'a word \<Rightarrow> 'a word" where
  "saturating_mul a b = (if unat a * unat b < 2 ^ LENGTH('a) then a * b else - 1)"

lemma unat_add_exact [u_arith]:
  "unat (a::'a::len word) + unat b < 2 ^ LENGTH('a) \<Longrightarrow> unat (a + b) = unat a + unat b"
  by (simp add: unat_word_ariths)

lemma unat_mult_exact [u_arith]:
  "unat (a::'a::len word) * unat b < 2 ^ LENGTH('a) \<Longrightarrow> unat (a * b) = unat a * unat b"
  by (simp add: unat_word_ariths)

lemma unat_sub_exact [u_arith]: "b \<le> a \<Longrightarrow> unat (a - b) = unat a - unat (b::'a::len word)"
  by (rule unat_sub)

lemma checked_add_eq_Some [u_arith]:
  "checked_add a b = Some c \<longleftrightarrow> unat (c::'a::len word) = unat a + unat b"
proof
  assume "checked_add a b = Some c"
  then show "unat c = unat a + unat b"
    by (auto simp: checked_add_def unat_add_exact split: if_splits)
next
  assume *: "unat c = unat a + unat b"
  have "unat c < 2 ^ LENGTH('a)" by (rule unsigned_less)
  with * have "unat a + unat b < 2 ^ LENGTH('a)" by simp
  moreover from this * have "unat (a + b) = unat c" by (simp add: unat_add_exact)
  then have "a + b = c" by (simp add: word_unat_eq_iff)
  ultimately show "checked_add a b = Some c" by (simp add: checked_add_def)
qed

lemma checked_add_eq_None [u_arith]:
  "checked_add a b = None \<longleftrightarrow> 2 ^ LENGTH('a) \<le> unat (a::'a::len word) + unat b"
  by (auto simp: checked_add_def not_less)

lemma checked_sub_eq_Some [u_arith]:
  "checked_sub a b = Some c \<longleftrightarrow> unat (c::'a::len word) + unat b = unat a"
proof
  assume "checked_sub a b = Some c"
  then show "unat c + unat b = unat a"
    by (auto simp: checked_sub_def unat_sub word_le_nat_alt split: if_splits)
next
  assume *: "unat c + unat b = unat a"
  then have le: "b \<le> a" by (simp add: word_le_nat_alt)
  with * have "unat (a - b) = unat c" by (simp add: unat_sub)
  then have "a - b = c" by (simp add: word_unat_eq_iff)
  with le show "checked_sub a b = Some c" by (simp add: checked_sub_def)
qed

lemma checked_mul_eq_Some [u_arith]:
  "checked_mul a b = Some c \<longleftrightarrow> unat (c::'a::len word) = unat a * unat b"
proof
  assume "checked_mul a b = Some c"
  then show "unat c = unat a * unat b"
    by (auto simp: checked_mul_def unat_mult_exact split: if_splits)
next
  assume *: "unat c = unat a * unat b"
  have "unat c < 2 ^ LENGTH('a)" by (rule unsigned_less)
  with * have "unat a * unat b < 2 ^ LENGTH('a)" by simp
  moreover from this * have "unat (a * b) = unat c" by (simp add: unat_mult_exact)
  then have "a * b = c" by (simp add: word_unat_eq_iff)
  ultimately show "checked_mul a b = Some c" by (simp add: checked_mul_def)
qed

lemma checked_mul_eq_None [u_arith]:
  "checked_mul a b = None \<longleftrightarrow> 2 ^ LENGTH('a) \<le> unat (a::'a::len word) * unat b"
  by (auto simp: checked_mul_def not_less)

lemma unat_minus_one [u_arith]: "unat (- 1 :: 'a::len word) = 2 ^ LENGTH('a) - 1"
  by (simp add: unsigned_minus_1_eq_mask mask_eq_exp_minus_1)

lemma unat_saturating_add [u_arith]:
  "unat (saturating_add a b) = min (unat a + unat b) (2 ^ LENGTH('a) - 1)"
  for a b :: "'a::len word"
  by (auto simp: saturating_add_def unat_add_exact unat_minus_one min_def)

lemma unat_saturating_sub [u_arith]:
  "unat (saturating_sub a b) = unat a - unat (b::'a::len word)"
  by (auto simp: saturating_sub_def unat_sub word_le_nat_alt)

lemma unat_saturating_mul [u_arith]:
  "unat (saturating_mul a b) = min (unat a * unat b) (2 ^ LENGTH('a) - 1)"
  for a b :: "'a::len word"
proof (cases "unat a * unat b < 2 ^ LENGTH('a)")
  case True
  then show ?thesis by (simp add: saturating_mul_def unat_mult_exact)
next
  case False
  then have "2 ^ LENGTH('a) - 1 \<le> unat a * unat b" by linarith
  with False show ?thesis by (simp add: saturating_mul_def unat_minus_one min_absorb2)
qed

lemma word_less_nat [u_arith]: "a < b \<longleftrightarrow> unat a < unat (b::'a::len word)"
  by (rule word_less_nat_alt)

lemma word_le_nat [u_arith]: "a \<le> b \<longleftrightarrow> unat a \<le> unat (b::'a::len word)"
  by (rule word_le_nat_alt)

text \<open>A \<open>usize\<close> is a natural number; \<open>as u32\<close> and \<open>as u64\<close> truncate it.\<close>

definition as_u32 :: "nat \<Rightarrow> u32" where "as_u32 n = word_of_nat n"
definition as_u64 :: "nat \<Rightarrow> u64" where "as_u64 n = word_of_nat n"

lemma unat_as_u32 [u_arith]: "n < 2 ^ 32 \<Longrightarrow> unat (as_u32 n) = n"
  by (simp add: as_u32_def unat_of_nat take_bit_nat_eq_self)

lemma unat_as_u64 [u_arith]: "n < 2 ^ 64 \<Longrightarrow> unat (as_u64 n) = n"
  by (simp add: as_u64_def unat_of_nat take_bit_nat_eq_self)

lemma as_u32_inj: "as_u32 m = as_u32 n \<Longrightarrow> m < 2 ^ 32 \<Longrightarrow> n < 2 ^ 32 \<Longrightarrow> m = n"
  by (metis unat_as_u32)

lemma as_u64_inj: "as_u64 m = as_u64 n \<Longrightarrow> m < 2 ^ 64 \<Longrightarrow> n < 2 ^ 64 \<Longrightarrow> m = n"
  by (metis unat_as_u64)

section \<open>Results and early returns\<close>

abbreviation Ok :: "'a \<Rightarrow> 'e + 'a" where "Ok \<equiv> Inr"
abbreviation Err :: "'e \<Rightarrow> 'e + 'a" where "Err \<equiv> Inl"

definition res_bind :: "'e + 'a \<Rightarrow> ('a \<Rightarrow> 'e + 'b) \<Rightarrow> 'e + 'b" where
  "res_bind r f = (case r of Inl e \<Rightarrow> Inl e | Inr x \<Rightarrow> f x)"

definition ok_or :: "'e \<Rightarrow> 'a option \<Rightarrow> 'e + 'a" where
  "ok_or e x = (case x of None \<Rightarrow> Inl e | Some y \<Rightarrow> Inr y)"

definition map_err :: "('e \<Rightarrow> 'f) \<Rightarrow> 'e + 'a \<Rightarrow> 'f + 'a" where
  "map_err f r = (case r of Inl e \<Rightarrow> Inl (f e) | Inr x \<Rightarrow> Inr x)"

lemma res_bind_simps [simp]:
  "res_bind (Inl e) f = Inl e" "res_bind (Inr x) f = f x"
  by (simp_all add: res_bind_def)

lemma ok_or_simps [simp]: "ok_or e None = Inl e" "ok_or e (Some x) = Inr x"
  by (simp_all add: ok_or_def)

lemma map_err_simps [simp]: "map_err f (Inl e) = Inl (f e)" "map_err f (Inr x) = Inr x"
  by (simp_all add: map_err_def)

lemma res_bind_eq_Ok [res_simps]: "res_bind r f = Inr y \<longleftrightarrow> (\<exists>x. r = Inr x \<and> f x = Inr y)"
  by (cases r) auto

lemma res_bind_eq_Err [res_simps]:
  "res_bind r f = Inl e \<longleftrightarrow> r = Inl e \<or> (\<exists>x. r = Inr x \<and> f x = Inl e)"
  by (cases r) auto

lemma ok_or_eq_Ok [res_simps]: "ok_or e x = Inr y \<longleftrightarrow> x = Some y"
  by (cases x) auto

lemma ok_or_eq_Err [res_simps]: "ok_or e x = Inl f \<longleftrightarrow> x = None \<and> e = f"
  by (cases x) auto

lemma map_err_eq_Ok [res_simps]: "map_err f r = Inr y \<longleftrightarrow> r = Inr y"
  by (cases r) auto

lemma map_err_eq_Err [res_simps]: "map_err f r = Inl y \<longleftrightarrow> (\<exists>e. r = Inl e \<and> y = f e)"
  by (cases r) auto

lemma res_cong [fundef_cong]:
  "r = r' \<Longrightarrow> (\<And>x. r' = Inr x \<Longrightarrow> f x = g x) \<Longrightarrow> res_bind r f = res_bind r' g"
  by (cases r') auto

text \<open>A \<open>for\<close> loop whose body may return early, and \<open>collect::<Result<Vec<_>>>\<close>.\<close>

fun fold_res :: "('s \<Rightarrow> 'x \<Rightarrow> 'e + 's) \<Rightarrow> 's \<Rightarrow> 'x list \<Rightarrow> 'e + 's" where
  "fold_res f s [] = Inr s"
| "fold_res f s (x # xs) = res_bind (f s x) (\<lambda>s'. fold_res f s' xs)"

fun map_res :: "('x \<Rightarrow> 'e + 'y) \<Rightarrow> 'x list \<Rightarrow> 'e + 'y list" where
  "map_res f [] = Inr []"
| "map_res f (x # xs) = res_bind (f x) (\<lambda>y. res_bind (map_res f xs) (\<lambda>ys. Inr (y # ys)))"

lemma fold_res_append:
  "fold_res f s (xs @ ys) = res_bind (fold_res f s xs) (\<lambda>s'. fold_res f s' ys)"
proof (induction xs arbitrary: s)
  case (Cons x xs)
  then show ?case by (cases "f s x") simp_all
qed simp

lemma res_bind_Ok [simp]: "res_bind r Inr = r"
  by (cases r) simp_all

lemma fold_res_snoc: "fold_res f s (xs @ [x]) = res_bind (fold_res f s xs) (\<lambda>t. f t x)"
  by (simp add: fold_res_append)

lemma fold_res_enumerate_snoc:
  "fold_res f s (enumerate 0 (xs @ [x])) = res_bind (fold_res f s (enumerate 0 xs)) (\<lambda>t. f t (length xs, x))"
  by (simp add: enumerate_append_eq fold_res_snoc)

lemma fold_res_invariant:
  assumes "fold_res f s xs = Inr t" and "P s"
    and "\<And>s x s'. P s \<Longrightarrow> x \<in> set xs \<Longrightarrow> f s x = Inr s' \<Longrightarrow> P s'"
  shows "P t"
  using assms
proof (induction xs arbitrary: s)
  case (Cons x xs)
  from Cons.prems(1) obtain s' where s': "f s x = Inr s'" and rest: "fold_res f s' xs = Inr t"
    by (auto simp: res_simps)
  from Cons.prems s' have "P s'" by auto
  with rest Cons.prems(3) show ?case by (intro Cons.IH[of s']) auto
qed simp

lemma fold_res_total:
  assumes "P s" and "\<And>s x. P s \<Longrightarrow> x \<in> set xs \<Longrightarrow> \<exists>s'. f s x = Inr s' \<and> P s'"
  shows "\<exists>t. fold_res f s xs = Inr t \<and> P t"
  using assms
proof (induction xs arbitrary: s)
  case (Cons x xs)
  from Cons.prems obtain s' where s': "f s x = Inr s'" "P s'" by fastforce
  with Cons.prems(2) have "\<exists>t. fold_res f s' xs = Inr t \<and> P t" by (intro Cons.IH) auto
  with s' show ?case by auto
qed simp

lemma map_res_eq_Ok: "map_res f xs = Inr ys \<longleftrightarrow> list_all2 (\<lambda>x y. f x = Inr y) xs ys"
  by (induction xs arbitrary: ys) (auto simp: res_simps list_all2_Cons1)

lemma map_res_length: "map_res f xs = Inr ys \<Longrightarrow> length ys = length xs"
  by (auto simp: map_res_eq_Ok dest: list_all2_lengthD)

lemma map_res_map_Ok: "(\<And>x. x \<in> set xs \<Longrightarrow> f x = Inr (g x)) \<Longrightarrow> map_res f xs = Inr (map g xs)"
  by (induction xs) auto

text \<open>
  \<open>res_iff A Q r\<close>: the computation succeeds exactly when \<open>A\<close> holds, and its value then satisfies
  \<open>Q\<close>. The rules compose such exact specifications along \<open>?\<close> and along early-return loops.
\<close>

definition res_iff :: "bool \<Rightarrow> ('a \<Rightarrow> bool) \<Rightarrow> 'e + 'a \<Rightarrow> bool" where
  "res_iff A Q r = (case r of Inl _ \<Rightarrow> \<not> A | Inr x \<Rightarrow> A \<and> Q x)"

lemma res_iff_simps [simp]:
  "res_iff A Q (Inl e) \<longleftrightarrow> \<not> A" "res_iff A Q (Inr x) \<longleftrightarrow> A \<and> Q x"
  by (simp_all add: res_iff_def)

lemma res_iff_bind:
  assumes "res_iff A Q r" and "\<And>x. A \<Longrightarrow> Q x \<Longrightarrow> res_iff B S (f x)"
  shows "res_iff (A \<and> B) S (res_bind r f)"
proof (cases r)
  case (Inr x)
  then have "res_iff B S (f x)" "A" using assms by auto
  then show ?thesis using Inr by (cases "f x") auto
qed (use assms in auto)

lemma res_iff_OkD: "res_iff A Q r \<Longrightarrow> r = Inr x \<Longrightarrow> A \<and> Q x"
  by simp

lemma res_iff_ex: "res_iff A Q r \<Longrightarrow> (\<exists>x. r = Inr x) \<longleftrightarrow> A"
  by (cases r) auto

lemma res_iff_total: "res_iff A Q r \<Longrightarrow> A \<Longrightarrow> \<exists>x. r = Inr x \<and> Q x"
  by (cases r) auto

lemma res_iff_cong: "res_iff A Q r \<Longrightarrow> A = B \<Longrightarrow> (\<And>x. A \<Longrightarrow> Q x \<Longrightarrow> S x) \<Longrightarrow> res_iff B S r"
  by (cases r) auto

section \<open>Ordered and insertion-ordered maps\<close>

text \<open>
  \<open>BTreeMap\<close> is the list of its bindings in key order, which is also its iteration
  order. \<open>IndexMap\<close> (used by the mempool) keeps insertion order: \<open>insert\<close> of a present
  key keeps its place, \<open>shift_remove\<close> keeps the order of the rest.
\<close>

type_synonym ('k, 'v) btree = "('k \<times> 'v) list"
type_synonym ('k, 'v) indexmap = "('k \<times> 'v) list"

definition bt_wf :: "('k::linorder, 'v) btree \<Rightarrow> bool" where
  "bt_wf m = sorted_wrt (<) (map fst m)"

definition bt_get :: "('k, 'v) btree \<Rightarrow> 'k \<Rightarrow> 'v option" where
  "bt_get m k = map_of m k"

fun bt_insert :: "'k::linorder \<Rightarrow> 'v \<Rightarrow> ('k, 'v) btree \<Rightarrow> ('k, 'v) btree" where
  "bt_insert k v [] = [(k, v)]"
| "bt_insert k v (e # m) =
     (if fst e < k then e # bt_insert k v m
      else if fst e = k then (k, v) # m else (k, v) # e # m)"

definition bt_remove :: "'k \<Rightarrow> ('k, 'v) btree \<Rightarrow> ('k, 'v) btree" where
  "bt_remove k m = filter (\<lambda>e. fst e \<noteq> k) m"

definition bt_values :: "('k, 'v) btree \<Rightarrow> 'v list" where
  "bt_values m = map snd m"

definition ix_wf :: "('k, 'v) indexmap \<Rightarrow> bool" where
  "ix_wf m = distinct (map fst m)"

fun ix_insert :: "'k \<Rightarrow> 'v \<Rightarrow> ('k, 'v) indexmap \<Rightarrow> ('k, 'v) indexmap" where
  "ix_insert k v [] = [(k, v)]"
| "ix_insert k v (e # m) = (if fst e = k then (k, v) # m else e # ix_insert k v m)"

lemma bt_get_insert [bt_simps]: "bt_get (bt_insert k v m) = (bt_get m)(k \<mapsto> v)"
  by (induction m) (auto simp: bt_get_def fun_eq_iff)

lemma map_of_filter_key: "map_of (filter (\<lambda>e. fst e \<noteq> k) m) = (map_of m)(k := None)"
  by (induction m) (auto simp: fun_eq_iff)

lemma bt_get_remove [bt_simps]: "bt_get (bt_remove k m) = (bt_get m)(k := None)"
  by (simp add: bt_get_def bt_remove_def map_of_filter_key fun_eq_iff)

lemma bt_get_empty [bt_simps]: "bt_get [] = (\<lambda>_. None)"
  by (simp add: bt_get_def fun_eq_iff)

lemma set_bt_insert: "fst ` set (bt_insert k v m) = insert k (fst ` set m)"
  by (induction m) (auto simp: image_iff)

lemma bt_wf_Nil [simp]: "bt_wf []"
  by (simp add: bt_wf_def)

lemma bt_wf_insert [intro]: "bt_wf m \<Longrightarrow> bt_wf (bt_insert k v m)"
proof (induction m)
  case (Cons e m)
  have "x \<in> fst ` set (bt_insert k v m) \<Longrightarrow> x = k \<or> x \<in> fst ` set m" for x
    by (simp add: set_bt_insert)
  with Cons show ?case
    by (fastforce simp: bt_wf_def set_bt_insert[simplified image_set])
qed (simp add: bt_wf_def)

lemma bt_wf_remove [intro]: "bt_wf m \<Longrightarrow> bt_wf (bt_remove k m)"
  by (induction m) (auto simp: bt_wf_def bt_remove_def)

lemma bt_wf_distinct: "bt_wf m \<Longrightarrow> distinct (map fst m)"
  by (simp add: bt_wf_def strict_sorted_iff)

lemma bt_get_eq_Some: "bt_wf m \<Longrightarrow> bt_get m k = Some v \<longleftrightarrow> (k, v) \<in> set m"
  by (simp add: bt_get_def bt_wf_distinct map_of_eq_Some_iff)

lemma dom_bt_get: "dom (bt_get m) = fst ` set m"
  by (simp add: bt_get_def[abs_def] dom_map_of_conv_image_fst)

lemma finite_dom_bt_get [simp]: "finite (dom (bt_get m))"
  by (simp add: dom_bt_get)

lemma ix_get_insert [bt_simps]: "map_of (ix_insert k v m) = (map_of m)(k \<mapsto> v)"
  by (induction m) (auto simp: fun_eq_iff)

lemma set_ix_insert: "fst ` set (ix_insert k v m) = insert k (fst ` set m)"
  by (induction m) auto

lemma ix_wf_insert [intro]: "ix_wf m \<Longrightarrow> ix_wf (ix_insert k v m)"
proof (induction m)
  case (Cons e m)
  have "fst e \<in> fst ` set (ix_insert k v m) \<longleftrightarrow> fst e = k \<or> fst e \<in> fst ` set m"
    by (simp add: set_ix_insert)
  with Cons show ?case by (auto simp: ix_wf_def)
qed (simp add: ix_wf_def)

lemma ix_wf_remove [intro]: "ix_wf m \<Longrightarrow> ix_wf (bt_remove k m)"
  by (induction m) (auto simp: ix_wf_def bt_remove_def)

text \<open>The total of a measure over the bindings of a finite map.\<close>

definition map_total :: "('k \<Rightarrow> 'v \<Rightarrow> nat) \<Rightarrow> ('k \<rightharpoonup> 'v) \<Rightarrow> nat" where
  "map_total f g = (\<Sum>k\<in>dom g. f k (the (g k)))"

text \<open>
  The interface of a key-value store: what the clients of \<open>BTreeMap\<close> and \<open>IndexMap\<close>
  rely on. The accounting lemmas are proved once, here.
\<close>

locale kv_store =
  fixes get :: "'m \<Rightarrow> 'k \<Rightarrow> 'v option"
    and ins :: "'k \<Rightarrow> 'v \<Rightarrow> 'm \<Rightarrow> 'm"
    and del :: "'k \<Rightarrow> 'm \<Rightarrow> 'm"
    and inv :: "'m \<Rightarrow> bool"
  assumes get_ins: "inv m \<Longrightarrow> get (ins k v m) = (get m)(k \<mapsto> v)"
    and get_del: "inv m \<Longrightarrow> get (del k m) = (get m)(k := None)"
    and inv_ins: "inv m \<Longrightarrow> inv (ins k v m)"
    and inv_del: "inv m \<Longrightarrow> inv (del k m)"
    and finite_get: "inv m \<Longrightarrow> finite (dom (get m))"
begin

lemma total_ins_new:
  assumes "inv m" "get m k = None"
  shows "map_total f (get (ins k v m)) = f k v + map_total f (get m)"
proof -
  have "(\<Sum>j\<in>dom (get m). f j (the (((get m)(k \<mapsto> v)) j))) = (\<Sum>j\<in>dom (get m). f j (the (get m j)))"
    using assms(2) by (intro sum.cong) auto
  with assms show ?thesis
    by (simp add: get_ins map_total_def finite_get domIff)
qed

lemma total_del:
  assumes "inv m" "get m k = Some v"
  shows "map_total f (get m) = f k v + map_total f (get (del k m))"
proof -
  have "(\<Sum>j\<in>dom (get m) - {k}. f j (the (get m j)))
      = (\<Sum>j\<in>dom (get m) - {k}. f j (the (((get m)(k := None)) j)))"
    by (intro sum.cong) auto
  moreover have "k \<in> dom (get m)" using assms(2) by auto
  ultimately show ?thesis using assms
    by (simp add: get_del map_total_def finite_get sum.remove[of _ k])
qed

lemma dels_get: "inv m \<Longrightarrow> inv (fold del ks m) \<and> get (fold del ks m) = (\<lambda>k. if k \<in> set ks then None else get m k)"
proof (induction ks arbitrary: m)
  case (Cons k ks)
  then show ?case by (auto simp: inv_del get_del fun_eq_iff)
qed simp

lemma inss_get:
  "inv m \<Longrightarrow> distinct (map fst kvs) \<Longrightarrow>
   inv (fold (\<lambda>(k, v). ins k v) kvs m) \<and>
   get (fold (\<lambda>(k, v). ins k v) kvs m) = get m ++ map_of kvs"
proof (induction kvs arbitrary: m)
  case (Cons e kvs)
  obtain k v where e: "e = (k, v)" by (cases e)
  from Cons.prems(2) have "map_of kvs k = None" by (auto simp: e map_of_eq_None_iff)
  with Cons.IH[of "ins k v m"] Cons.prems show ?case
    by (auto simp: e inv_ins get_ins fun_eq_iff map_add_def split: option.splits)
qed simp

lemma total_dels:
  "inv m \<Longrightarrow> distinct ks \<Longrightarrow> (\<And>k. k \<in> set ks \<Longrightarrow> get m k = Some (h k)) \<Longrightarrow>
   map_total f (get m) = (\<Sum>k\<leftarrow>ks. f k (h k)) + map_total f (get (fold del ks m))"
proof (induction ks arbitrary: m)
  case (Cons k ks)
  have "map_total f (get (del k m)) = (\<Sum>k\<leftarrow>ks. f k (h k)) + map_total f (get (fold del ks (del k m)))"
    using Cons.prems by (intro Cons.IH) (auto simp: inv_del get_del)
  with Cons.prems total_del[of m k "h k" f] show ?case by simp
qed simp

lemma total_inss:
  "inv m \<Longrightarrow> distinct (map fst kvs) \<Longrightarrow> (\<And>k. k \<in> fst ` set kvs \<Longrightarrow> get m k = None) \<Longrightarrow>
   map_total f (get (fold (\<lambda>(k, v). ins k v) kvs m))
   = (\<Sum>(k, v)\<leftarrow>kvs. f k v) + map_total f (get m)"
proof (induction kvs arbitrary: m)
  case (Cons e kvs)
  obtain k v where e: "e = (k, v)" by (cases e)
  have "map_total f (get (fold (\<lambda>(k, v). ins k v) kvs (ins k v m)))
      = (\<Sum>(k, v)\<leftarrow>kvs. f k v) + map_total f (get (ins k v m))"
    using Cons.prems by (intro Cons.IH) (auto simp: e inv_ins get_ins image_iff)
  with Cons.prems show ?case by (simp add: e total_ins_new)
qed simp

end

interpretation btree: kv_store "bt_get :: ('k::linorder, 'v) btree \<Rightarrow> _" bt_insert bt_remove bt_wf
  by unfold_locales (auto simp: bt_simps)

interpretation indexmap: kv_store "map_of :: ('k, 'v) indexmap \<Rightarrow> _" ix_insert bt_remove ix_wf
  by unfold_locales (auto simp: bt_simps bt_remove_def map_of_filter_key finite_dom_map_of
      intro: ix_wf_remove[unfolded bt_remove_def])

section \<open>Little-endian encodings\<close>

fun le_nat :: "nat \<Rightarrow> nat \<Rightarrow> bytes" where
  "le_nat 0 x = []"
| "le_nat (Suc n) x = word_of_nat (x mod 256) # le_nat n (x div 256)"

fun nat_of_le :: "bytes \<Rightarrow> nat" where
  "nat_of_le [] = 0"
| "nat_of_le (b # bs) = unat b + 256 * nat_of_le bs"

definition u32_le :: "u32 \<Rightarrow> bytes" where "u32_le w = le_nat 4 (unat w)"
definition u64_le :: "u64 \<Rightarrow> bytes" where "u64_le w = le_nat 8 (unat w)"
definition u32_of_le :: "bytes \<Rightarrow> u32" where "u32_of_le bs = word_of_nat (nat_of_le bs)"
definition u64_of_le :: "bytes \<Rightarrow> u64" where "u64_of_le bs = word_of_nat (nat_of_le bs)"

lemma length_le_nat [simp, le_simps]: "length (le_nat n x) = n"
  by (induction n arbitrary: x) auto

lemma unat_byte_of_nat: "unat (word_of_nat (x mod 256) :: 8 word) = x mod 256"
  by (simp add: unat_of_nat take_bit_eq_mod)

lemma nat_of_le_le_nat [simp, le_simps]: "nat_of_le (le_nat n x) = x mod 256 ^ n"
  by (induction n arbitrary: x) (simp_all add: unat_byte_of_nat mod_mult2_eq)

lemma nat_of_le_bound: "nat_of_le bs < 256 ^ length bs"
proof (induction bs)
  case (Cons b bs)
  have "unat b < 256" using unsigned_less[of b, where 'a = nat] by simp
  with Cons show ?case by simp
qed simp

lemma le_nat_nat_of_le [simp, le_simps]: "le_nat (length bs) (nat_of_le bs) = bs"
proof (induction bs)
  case (Cons b bs)
  have "unat b < 256" using unsigned_less[of b, where 'a = nat] by simp
  then have "(unat b + 256 * nat_of_le bs) mod 256 = unat b"
    and "(unat b + 256 * nat_of_le bs) div 256 = nat_of_le bs" by simp_all
  with Cons show ?case by simp
qed simp

lemma length_u32_le [simp, le_simps]: "length (u32_le w) = 4"
  by (simp add: u32_le_def)

lemma length_u64_le [simp, le_simps]: "length (u64_le w) = 8"
  by (simp add: u64_le_def)

lemma u32_of_le_u32_le [simp, le_simps]: "u32_of_le (u32_le w) = w"
proof -
  have "unat w < 2 ^ 32" using unsigned_less[of w, where 'a = nat] by simp
  then show ?thesis by (simp add: u32_of_le_def u32_le_def)
qed

lemma u64_of_le_u64_le [simp, le_simps]: "u64_of_le (u64_le w) = w"
proof -
  have "unat w < 2 ^ 64" using unsigned_less[of w, where 'a = nat] by simp
  then show ?thesis by (simp add: u64_of_le_def u64_le_def)
qed

lemma u32_le_u32_of_le [le_simps]: "length bs = 4 \<Longrightarrow> u32_le (u32_of_le bs) = bs"
proof -
  assume len: "length bs = 4"
  then have "nat_of_le bs < 2 ^ 32" using nat_of_le_bound[of bs] by simp
  then have "unat (word_of_nat (nat_of_le bs) :: u32) = nat_of_le bs"
    by (simp add: unat_of_nat take_bit_nat_eq_self)
  with len show ?thesis using le_nat_nat_of_le[of bs] by (simp add: u32_le_def u32_of_le_def)
qed

lemma u64_le_u64_of_le [le_simps]: "length bs = 8 \<Longrightarrow> u64_le (u64_of_le bs) = bs"
proof -
  assume len: "length bs = 8"
  then have "nat_of_le bs < 2 ^ 64" using nat_of_le_bound[of bs] by simp
  then have "unat (word_of_nat (nat_of_le bs) :: u64) = nat_of_le bs"
    by (simp add: unat_of_nat take_bit_nat_eq_self)
  with len show ?thesis using le_nat_nat_of_le[of bs] by (simp add: u64_le_def u64_of_le_def)
qed

text \<open>A Rust \<open>str\<close> is its UTF-8 bytes; the identifiers of the model are byte strings of \<open>char\<close>.\<close>

definition str_bytes :: "string \<Rightarrow> bytes" where
  "str_bytes s = map of_char s"

lemma length_str_bytes [simp]: "length (str_bytes s) = length s"
  by (simp add: str_bytes_def)

lemma inj_of_char_byte: "inj (of_char :: char \<Rightarrow> 8 word)"
proof (rule injI)
  fix c d :: char
  assume eq: "(of_char c :: 8 word) = of_char d"
  have "unat (of_char c :: 8 word) = (of_char c :: nat)" for c
    by (simp add: of_char_def)
  with eq have "(of_char c :: nat) = of_char d" by metis
  then show "c = d" by (simp add: of_char_eq_iff)
qed

lemma str_bytes_inj [simp]: "str_bytes s = str_bytes t \<longleftrightarrow> s = t"
  by (simp add: str_bytes_def inj_map_eq_map[OF inj_of_char_byte])

end
