(* ===== verification/Codec.thy ===== *)
theory Codec
  imports Myelin_Base
begin

text \<open>
  Two interfaces of byte encodings. A \<open>prefix_code\<close> is an encoding none of whose
  codewords is a proper prefix of another: what every hashed preimage of the repository
  needs in order to determine the value it commits to, since its fields are written one
  after the other. A \<open>strict_codec\<close> is an encoder with a partial decoder: decoding gives
  back what was encoded. The fixed-width and the length-prefixed encodings that all
  the formats are built from are interpreted here.
\<close>

section \<open>Prefix codes\<close>

locale prefix_code =
  fixes enc :: "'a \<Rightarrow> bytes" and okv :: "'a \<Rightarrow> bool"
  assumes prefix_inj: "okv x \<Longrightarrow> okv y \<Longrightarrow> enc x @ r = enc y @ s \<Longrightarrow> x = y \<and> r = s"
begin

lemma enc_inj: "okv x \<Longrightarrow> okv y \<Longrightarrow> enc x = enc y \<Longrightarrow> x = y"
  using prefix_inj[of x y "[]" "[]"] by simp

lemma concat_inj:
  "length xs = length ys \<Longrightarrow> \<forall>x\<in>set xs. okv x \<Longrightarrow> \<forall>y\<in>set ys. okv y \<Longrightarrow>
   concat (map enc xs) @ r = concat (map enc ys) @ s \<Longrightarrow> xs = ys \<and> r = s"
proof (induction xs ys rule: list_induct2)
  case (Cons x xs y ys)
  from Cons.prems have "enc x @ (concat (map enc xs) @ r) = enc y @ (concat (map enc ys) @ s)"
    by simp
  with Cons.prems have "x = y \<and> concat (map enc xs) @ r = concat (map enc ys) @ s"
    by (intro prefix_inj) auto
  with Cons show ?case by auto
qed simp

end

text \<open>A fixed-width injective encoding is a prefix code.\<close>

lemma fixed_width_prefix_code:
  assumes "\<And>x. okv x \<Longrightarrow> length (enc x) = n"
    and "\<And>x y. okv x \<Longrightarrow> okv y \<Longrightarrow> enc x = enc y \<Longrightarrow> x = y"
  shows "prefix_code enc okv"
proof
  fix x y r s
  assume okv: "okv x" "okv y" and eq: "enc x @ r = enc y @ s"
  from okv assms(1) have "length (enc x) = length (enc y)" by simp
  with eq have "enc x = enc y" "r = s" by (auto simp: append_eq_append_conv)
  with okv assms(2) show "x = y \<and> r = s" by blast
qed

text \<open>A vector behind its \<open>u32\<close> or \<open>u64\<close> count.\<close>

definition count32_list :: "('a \<Rightarrow> bytes) \<Rightarrow> 'a list \<Rightarrow> bytes" where
  "count32_list enc xs = u32_le (as_u32 (length xs)) @ concat (map enc xs)"

definition count64_list :: "('a \<Rightarrow> bytes) \<Rightarrow> 'a list \<Rightarrow> bytes" where
  "count64_list enc xs = u64_le (as_u64 (length xs)) @ concat (map enc xs)"

text \<open>A byte string behind its \<open>u32\<close> or \<open>u64\<close> length.\<close>

definition len32_bytes :: "bytes \<Rightarrow> bytes" where
  "len32_bytes bs = u32_le (as_u32 (length bs)) @ bs"

definition len64_bytes :: "bytes \<Rightarrow> bytes" where
  "len64_bytes bs = u64_le (as_u64 (length bs)) @ bs"

definition short32 :: "'a list \<Rightarrow> bool" where "short32 xs = (length xs < 2 ^ 32)"
definition short64 :: "'a list \<Rightarrow> bool" where "short64 xs = (length xs < 2 ^ 64)"

lemma u32_le_inj [simp]: "u32_le a = u32_le b \<longleftrightarrow> a = b"
  by (metis u32_of_le_u32_le)

lemma u64_le_inj [simp]: "u64_le a = u64_le b \<longleftrightarrow> a = b"
  by (metis u64_of_le_u64_le)

interpretation u8_code: prefix_code "\<lambda>b::u8. [b]" "\<lambda>_. True"
  by (rule fixed_width_prefix_code[where n = 1]) auto

interpretation u32_code: prefix_code u32_le "\<lambda>_. True"
  by (rule fixed_width_prefix_code[where n = 4]) auto

interpretation u64_code: prefix_code u64_le "\<lambda>_. True"
  by (rule fixed_width_prefix_code[where n = 8]) auto

interpretation hash_code: prefix_code "\<lambda>h::bytes. h" "\<lambda>h. length h = 32"
  by (rule fixed_width_prefix_code[where n = 32]) auto

context prefix_code
begin

lemma count32_list_prefix:
  "prefix_code (count32_list enc) (\<lambda>xs. short32 xs \<and> (\<forall>x\<in>set xs. okv x))"
proof
  fix xs ys r s
  assume okv: "short32 xs \<and> (\<forall>x\<in>set xs. okv x)" "short32 ys \<and> (\<forall>y\<in>set ys. okv y)"
    and eq: "count32_list enc xs @ r = count32_list enc ys @ s"
  from eq have "as_u32 (length xs) = as_u32 (length ys)
      \<and> concat (map enc xs) @ r = concat (map enc ys) @ s"
    by (auto simp: count32_list_def dest!: u32_code.prefix_inj[OF TrueI TrueI])
  with okv concat_inj show "xs = ys \<and> r = s"
    unfolding short32_def by (metis as_u32_inj)
qed

lemma count64_list_prefix:
  "prefix_code (count64_list enc) (\<lambda>xs. short64 xs \<and> (\<forall>x\<in>set xs. okv x))"
proof
  fix xs ys r s
  assume okv: "short64 xs \<and> (\<forall>x\<in>set xs. okv x)" "short64 ys \<and> (\<forall>y\<in>set ys. okv y)"
    and eq: "count64_list enc xs @ r = count64_list enc ys @ s"
  from eq have "as_u64 (length xs) = as_u64 (length ys)
      \<and> concat (map enc xs) @ r = concat (map enc ys) @ s"
    by (auto simp: count64_list_def dest!: u64_code.prefix_inj[OF TrueI TrueI])
  with okv concat_inj show "xs = ys \<and> r = s"
    unfolding short64_def by (metis as_u64_inj)
qed

end

lemma len32_bytes_alt: "len32_bytes = count32_list (\<lambda>b. [b])"
  by (simp add: len32_bytes_def count32_list_def fun_eq_iff)

lemma len64_bytes_alt: "len64_bytes = count64_list (\<lambda>b. [b])"
  by (simp add: len64_bytes_def count64_list_def fun_eq_iff)

lemma len32_bytes_not_Nil [simp]: "len32_bytes bs \<noteq> []"
proof
  assume "len32_bytes bs = []"
  then have "length (len32_bytes bs) = 0" by simp
  then show False by (simp add: len32_bytes_def)
qed

interpretation len32_code: prefix_code len32_bytes short32
  using u8_code.count32_list_prefix by (simp add: len32_bytes_alt)

interpretation len64_code: prefix_code len64_bytes short64
  using u8_code.count64_list_prefix by (simp add: len64_bytes_alt)

section \<open>Encoders with a decoder\<close>

locale strict_codec =
  fixes encode :: "'a \<Rightarrow> bytes" and decode :: "bytes \<Rightarrow> 'e + 'a" and valid :: "'a \<Rightarrow> bool"
  assumes decode_encode: "valid x \<Longrightarrow> decode (encode x) = Ok x"
begin

lemma encode_inj: "valid x \<Longrightarrow> valid y \<Longrightarrow> encode x = encode y \<Longrightarrow> x = y"
  by (metis decode_encode sum.inject(2))

lemma decode_unique: "valid x \<Longrightarrow> decode (encode x) = Ok y \<Longrightarrow> y = x"
  by (simp add: decode_encode)

lemma map_decode_encode:
  "\<forall>x\<in>set xs. valid x \<Longrightarrow> map_res decode (map encode xs) = Ok xs"
  by (induction xs) (auto simp: decode_encode)

end

text \<open>A canonical codec accepts no byte string but the encodings of valid values.\<close>

locale canonical_codec = strict_codec +
  assumes encode_decode: "decode bs = Ok x \<Longrightarrow> valid x \<and> encode x = bs"
begin

lemma decode_iff: "decode bs = Ok x \<longleftrightarrow> valid x \<and> bs = encode x"
  using decode_encode encode_decode by auto

lemma decode_inj: "decode bs = Ok x \<Longrightarrow> decode cs = Ok x \<Longrightarrow> bs = cs"
  by (simp add: decode_iff)

lemma map_decode_iff: "map_res decode bss = Ok xs \<longleftrightarrow> (\<forall>x\<in>set xs. valid x) \<and> bss = map encode xs"
proof (induction bss arbitrary: xs)
  case (Cons b bss)
  then show ?case by (cases xs) (auto simp: res_simps decode_iff)
qed auto

end

end
