(* ===== verification/Molecule.thy ===== *)
theory Molecule
  imports Codec
begin

text \<open>
  The generic part of the Molecule wire format, as written by hand in
  \<open>exec/src/serialization/molecule_compat.rs\<close> (and again for the scheduler in
  \<open>exec/src/celltx/types.rs\<close>): packed numbers, tables with an offset header, dynamic
  vectors, fixed-size vectors, byte strings and optional byte strings. Error values keep
  the variant, the type name and the fixed text of the reason; the numbers interpolated
  into the reason are dropped.
\<close>

section \<open>Errors and primitive decoders\<close>

datatype molecule_error =
    InvalidFormat string string
  | SchemaMismatch string
  | ValidationFailed string

definition invalid :: "string \<Rightarrow> string \<Rightarrow> molecule_error + 'a" where
  "invalid ty reason = Err (InvalidFormat ty reason)"

abbreviation NUMBER_SIZE :: nat where "NUMBER_SIZE \<equiv> 4"

definition pack_number :: "nat \<Rightarrow> bytes" where
  "pack_number n = u32_le (as_u32 n)"

definition unpack_number :: "bytes \<Rightarrow> string \<Rightarrow> molecule_error + nat" where
  "unpack_number bs ty =
     (if length bs < NUMBER_SIZE then invalid ty ''expected at least 4 bytes for number''
      else Ok (unat (u32_of_le (take 4 bs))))"

definition decode_u32 :: "bytes \<Rightarrow> string \<Rightarrow> molecule_error + u32" where
  "decode_u32 bs ty = (if length bs \<noteq> 4 then invalid ty ''expected 4 bytes'' else Ok (u32_of_le bs))"

definition decode_u64 :: "bytes \<Rightarrow> string \<Rightarrow> molecule_error + u64" where
  "decode_u64 bs ty = (if length bs \<noteq> 8 then invalid ty ''expected 8 bytes'' else Ok (u64_of_le bs))"

definition decode_byte :: "bytes \<Rightarrow> string \<Rightarrow> molecule_error + u8" where
  "decode_byte bs ty = (if length bs \<noteq> 1 then invalid ty ''expected 1 byte'' else Ok (hd bs))"

definition decode_array_32 :: "bytes \<Rightarrow> string \<Rightarrow> molecule_error + bytes" where
  "decode_array_32 bs ty = (if length bs \<noteq> 32 then invalid ty ''expected 32 bytes'' else Ok bs)"

section \<open>Slices\<close>

text \<open>\<open>&bytes[a..b]\<close>, \<open>chunks_exact\<close> and \<open>windows(2)\<close>.\<close>

definition slice :: "nat \<Rightarrow> nat \<Rightarrow> 'a list \<Rightarrow> 'a list" where
  "slice a b xs = take (b - a) (drop a xs)"

function chunks_exact :: "nat \<Rightarrow> 'a list \<Rightarrow> 'a list list" where
  "chunks_exact n xs =
     (if n = 0 \<or> length xs < n then [] else take n xs # chunks_exact n (drop n xs))"
  by pat_completeness auto
termination
  by (relation "measure (\<lambda>(n, xs). length xs)") auto

declare chunks_exact.simps [simp del]

definition windows2 :: "'a list \<Rightarrow> ('a \<times> 'a) list" where
  "windows2 xs = zip xs (tl xs)"

section \<open>Tables\<close>

fun encode_offsets :: "nat \<Rightarrow> bytes list \<Rightarrow> bytes" where
  "encode_offsets offset [] = []"
| "encode_offsets offset (f # fs) = pack_number offset @ encode_offsets (offset + length f) fs"

definition encode_table :: "bytes list \<Rightarrow> bytes" where
  "encode_table fs =
     (let header_size = NUMBER_SIZE * (length fs + 1);
          total_size = header_size + (\<Sum>f\<leftarrow>fs. length f)
      in pack_number total_size @ encode_offsets header_size fs @ concat fs)"

text \<open>
  The last part of \<open>decode_table\<close> and of \<open>decode_dynvec\<close>: read the offsets up to the
  first one, append the total size, check that they increase and stay inside, and cut.
\<close>

definition read_items ::
  "bytes \<Rightarrow> nat \<Rightarrow> nat \<Rightarrow> string \<Rightarrow> molecule_error + bytes list" where
  "read_items bs first_offset total_size ty =
     res_bind (map_res (\<lambda>chunk. unpack_number chunk ty)
                 (chunks_exact NUMBER_SIZE (slice NUMBER_SIZE first_offset bs)))
       (\<lambda>read. let offsets = read @ [total_size] in
          if list_ex (\<lambda>(a, b). b < a) (windows2 offsets)
          then invalid ty ''offsets are not monotonic''
          else if list_ex (\<lambda>off. off < first_offset \<or> total_size < off) offsets
          then invalid ty ''offset is outside payload''
          else Ok (map (\<lambda>(a, b). slice a b bs) (windows2 offsets)))"

definition bad_first_offset :: "nat \<Rightarrow> bytes \<Rightarrow> bool" where
  "bad_first_offset first_offset bs =
     (first_offset mod NUMBER_SIZE \<noteq> 0 \<or> first_offset < NUMBER_SIZE * 2 \<or> length bs < first_offset)"

definition decode_table :: "bytes \<Rightarrow> nat \<Rightarrow> string \<Rightarrow> molecule_error + bytes list" where
  "decode_table bs expected_fields ty =
     (if length bs < NUMBER_SIZE * 2 then invalid ty ''table header is too short''
      else res_bind (unpack_number bs ty) (\<lambda>total_size.
        if total_size \<noteq> length bs then invalid ty ''total size mismatch''
        else res_bind (unpack_number (drop NUMBER_SIZE bs) ty) (\<lambda>first_offset.
          if bad_first_offset first_offset bs then invalid ty ''invalid first field offset''
          else if first_offset div NUMBER_SIZE - 1 \<noteq> expected_fields then Err (SchemaMismatch ty)
          else read_items bs first_offset total_size ty)))"

section \<open>Vectors, byte strings and options\<close>

definition encode_dynvec :: "bytes list \<Rightarrow> bytes" where
  "encode_dynvec items = (if items = [] then pack_number NUMBER_SIZE else encode_table items)"

definition decode_dynvec :: "bytes \<Rightarrow> string \<Rightarrow> molecule_error + bytes list" where
  "decode_dynvec bs ty =
     (if length bs < NUMBER_SIZE then invalid ty ''dynvec header is too short''
      else res_bind (unpack_number bs ty) (\<lambda>total_size.
        if total_size \<noteq> length bs then invalid ty ''total size mismatch''
        else if total_size = NUMBER_SIZE then Ok []
        else if length bs < NUMBER_SIZE * 2 then invalid ty ''non-empty dynvec missing first offset''
        else res_bind (unpack_number (drop NUMBER_SIZE bs) ty) (\<lambda>first_offset.
          if bad_first_offset first_offset bs then invalid ty ''invalid first item offset''
          else read_items bs first_offset total_size ty)))"

definition encode_bytes :: "bytes \<Rightarrow> bytes" where
  "encode_bytes bs = pack_number (length bs) @ bs"

definition decode_bytes :: "bytes \<Rightarrow> molecule_error + bytes" where
  "decode_bytes bs =
     res_bind (unpack_number bs ''Bytes'') (\<lambda>len.
       if length bs \<noteq> NUMBER_SIZE + len then invalid ''Bytes'' ''expected bytes''
       else Ok (drop NUMBER_SIZE bs))"

definition encode_bytes_opt :: "bytes option \<Rightarrow> bytes" where
  "encode_bytes_opt x = (case x of None \<Rightarrow> [] | Some bs \<Rightarrow> encode_bytes bs)"

definition decode_bytes_opt :: "bytes \<Rightarrow> molecule_error + bytes option" where
  "decode_bytes_opt bs =
     (if bs = [] then Ok None else res_bind (decode_bytes bs) (\<lambda>x. Ok (Some x)))"

definition encode_fixvec :: "('a \<Rightarrow> bytes) \<Rightarrow> 'a list \<Rightarrow> bytes" where
  "encode_fixvec enc xs = pack_number (length xs) @ concat (map enc xs)"

definition decode_fixvec ::
  "nat \<Rightarrow> (bytes \<Rightarrow> molecule_error + 'a) \<Rightarrow> string \<Rightarrow> bytes \<Rightarrow> molecule_error + 'a list" where
  "decode_fixvec width dec ty bs =
     res_bind (unpack_number bs ty) (\<lambda>count.
       if length bs \<noteq> NUMBER_SIZE + count * width then invalid ty ''expected bytes''
       else map_res dec (chunks_exact width (drop NUMBER_SIZE bs)))"

definition encode_bytes_vec :: "bytes list \<Rightarrow> bytes" where
  "encode_bytes_vec bss = encode_dynvec (map encode_bytes bss)"

definition decode_bytes_vec :: "bytes \<Rightarrow> string \<Rightarrow> molecule_error + bytes list" where
  "decode_bytes_vec bs ty = res_bind (decode_dynvec bs ty) (map_res decode_bytes)"

section \<open>Lemmas on numbers and slices\<close>

lemma length_pack_number [simp]: "length (pack_number n) = 4"
  by (simp add: pack_number_def)

lemma unpack_pack_number [simp]:
  "n < 2 ^ 32 \<Longrightarrow> unpack_number (pack_number n @ r) ty = Ok n"
  by (simp add: unpack_number_def pack_number_def unat_as_u32)

lemma unpack_number_bound: "unpack_number bs ty = Ok n \<Longrightarrow> n < 2 ^ 32"
  using unsigned_less[of "u32_of_le (take 4 bs)", where 'a = nat]
  by (auto simp: unpack_number_def invalid_def split: if_splits)

lemma pack_unpack_number: "unpack_number bs ty = Ok n \<Longrightarrow> pack_number n = take 4 bs"
  by (auto simp: unpack_number_def invalid_def pack_number_def as_u32_def u32_le_u32_of_le
      split: if_splits)

lemma chunks_exact_concat:
  "\<forall>x\<in>set xs. length x = n \<Longrightarrow> 0 < n \<Longrightarrow> chunks_exact n (concat xs) = xs"
proof (induction xs)
  case Nil
  then show ?case by (simp add: chunks_exact.simps)
next
  case (Cons x xs)
  then show ?case by (simp add: chunks_exact.simps[of n "x @ concat xs"])
qed

lemma concat_chunks_exact:
  "length xs = n * k \<Longrightarrow> 0 < n \<Longrightarrow>
     concat (chunks_exact n xs) = xs \<and> length (chunks_exact n xs) = k
     \<and> (\<forall>c\<in>set (chunks_exact n xs). length c = n)"
proof (induction k arbitrary: xs)
  case 0
  then show ?case by (simp add: chunks_exact.simps)
next
  case (Suc k)
  from Suc.prems(1) have "length (drop n xs) = n * k" by simp
  from Suc.IH[OF this Suc.prems(2)]
  have IH: "concat (chunks_exact n (drop n xs)) = drop n xs" "length (chunks_exact n (drop n xs)) = k"
    "\<forall>c\<in>set (chunks_exact n (drop n xs)). length c = n" by blast+
  from Suc.prems have "\<not> (n = 0 \<or> length xs < n)" by simp
  then have "chunks_exact n xs = take n xs # chunks_exact n (drop n xs)"
    by (subst chunks_exact.simps) (rule if_not_P)
  with IH Suc.prems show ?case by simp
qed

fun bounds :: "nat \<Rightarrow> bytes list \<Rightarrow> nat list" where
  "bounds off [] = [off]"
| "bounds off (f # fs) = off # bounds (off + length f) fs"

lemma length_bounds [simp]: "length (bounds off fs) = length fs + 1"
  by (induction fs arbitrary: off) auto

lemma hd_bounds [simp]: "hd (bounds off fs) = off"
  by (cases fs) auto

lemma bounds_not_Nil [simp]: "bounds off fs \<noteq> []"
  by (cases fs) auto

lemma last_bounds: "last (bounds off fs) = off + (\<Sum>f\<leftarrow>fs. length f)"
  by (induction fs arbitrary: off) auto

lemma bounds_snoc: "bounds off fs = butlast (bounds off fs) @ [off + (\<Sum>f\<leftarrow>fs. length f)]"
  by (metis append_butlast_last_id bounds_not_Nil last_bounds)

lemma bounds_range:
  "x \<in> set (bounds off fs) \<Longrightarrow> off \<le> x \<and> x \<le> off + (\<Sum>f\<leftarrow>fs. length f)"
  by (induction fs arbitrary: off) fastforce+

lemma windows2_Cons [simp]:
  "xs \<noteq> [] \<Longrightarrow> windows2 (x # xs) = (x, hd xs) # windows2 xs"
  by (cases xs) (auto simp: windows2_def)

lemma windows2_bounds_mono: "list_ex (\<lambda>(a, b). b < a) (windows2 (bounds off fs)) = False"
  by (induction fs arbitrary: off) (auto simp: windows2_def[of "[_]"])

lemma slices_bounds:
  "length p = off \<Longrightarrow> map (\<lambda>(a, b). slice a b (p @ concat fs)) (windows2 (bounds off fs)) = fs"
proof (induction fs arbitrary: off p)
  case Nil
  then show ?case by (simp add: windows2_def)
next
  case (Cons f fs)
  from Cons.prems have "map (\<lambda>(a, b). slice a b ((p @ f) @ concat fs))
      (windows2 (bounds (off + length f) fs)) = fs"
    by (intro Cons.IH) simp
  with Cons.prems show ?case by (simp add: slice_def)
qed

lemma encode_offsets_alt:
  "encode_offsets off fs = concat (map pack_number (butlast (bounds off fs)))"
  by (induction fs arbitrary: off) auto

definition table_size :: "bytes list \<Rightarrow> nat" where
  "table_size fs = NUMBER_SIZE * (length fs + 1) + (\<Sum>f\<leftarrow>fs. length f)"

lemma encode_table_alt:
  "encode_table fs = pack_number (table_size fs)
     @ concat (map pack_number (butlast (bounds (NUMBER_SIZE * (length fs + 1)) fs))) @ concat fs"
  by (simp add: encode_table_def table_size_def encode_offsets_alt Let_def)

lemma length_concat_pack [simp]: "length (concat (map pack_number xs)) = 4 * length xs"
  by (induction xs) auto

lemma length_encode_table [simp]: "length (encode_table fs) = table_size fs"
  by (simp add: encode_table_alt table_size_def) (simp add: length_concat)

section \<open>Round trips of the generic formats\<close>

lemma map_res_unpack_pack:
  "\<forall>x\<in>set xs. x < 2 ^ 32 \<Longrightarrow> map_res (\<lambda>c. unpack_number c ty) (map pack_number xs) = Ok xs"
proof (induction xs)
  case (Cons x xs)
  then show ?case using unpack_pack_number[of x "[]" ty] by simp
qed simp

lemma read_items_encode:
  assumes fits: "table_size fs < 2 ^ 32"
  defines "hs \<equiv> NUMBER_SIZE * (length fs + 1)"
  shows "read_items (encode_table fs) hs (table_size fs) ty = Ok fs"
proof -
  let ?os = "butlast (bounds hs fs)"
  let ?head = "pack_number (table_size fs) @ concat (map pack_number ?os)"
  have total: "table_size fs = hs + (\<Sum>f\<leftarrow>fs. length f)"
    by (simp add: table_size_def hs_def)
  have enc: "encode_table fs = ?head @ concat fs"
    by (simp add: encode_table_alt hs_def)
  have head: "length ?head = hs" by (simp add: hs_def)
  have "slice NUMBER_SIZE hs (encode_table fs) = concat (map pack_number ?os)"
    by (simp add: enc slice_def hs_def)
  then have chunks: "chunks_exact NUMBER_SIZE (slice NUMBER_SIZE hs (encode_table fs)) = map pack_number ?os"
    by (simp add: chunks_exact_concat)
  have all: "?os @ [table_size fs] = bounds hs fs"
    using bounds_snoc[of hs fs] total by simp
  have small: "\<forall>x\<in>set ?os. x < 2 ^ 32"
    using bounds_range[of _ hs fs] fits total by (fastforce dest: in_set_butlastD)
  have range: "hs \<le> off \<and> off \<le> table_size fs" if "off \<in> set (bounds hs fs)" for off
    using bounds_range[OF that] total by simp
  have inside: "list_ex (\<lambda>off. off < hs \<or> table_size fs < off) (bounds hs fs) = False"
    using range by (fastforce simp: list_ex_iff)
  show ?thesis
    unfolding read_items_def chunks map_res_unpack_pack[OF small]
    using inside head by (simp add: Let_def all windows2_bounds_mono enc slices_bounds del: append_assoc)
qed

lemma unpack_first_offset:
  assumes "fs \<noteq> []" "table_size fs < 2 ^ 32"
  shows "unpack_number (drop NUMBER_SIZE (encode_table fs)) ty = Ok (NUMBER_SIZE * (length fs + 1))"
proof -
  from assms(1) obtain f fs' where fs: "fs = f # fs'" by (cases fs) auto
  from assms(2) have "NUMBER_SIZE * (length fs + 1) < 2 ^ 32" by (simp add: table_size_def)
  then show ?thesis by (simp add: encode_table_alt fs)
qed

lemma unpack_total:
  "table_size fs < 2 ^ 32 \<Longrightarrow> unpack_number (encode_table fs) ty = Ok (table_size fs)"
  by (simp add: encode_table_alt)

lemma table_header_ok:
  "fs \<noteq> [] \<Longrightarrow> \<not> bad_first_offset (NUMBER_SIZE * (length fs + 1)) (encode_table fs)"
  by (cases fs) (simp_all add: bad_first_offset_def table_size_def)

lemma decode_table_encode:
  assumes "fs \<noteq> []" "table_size fs < 2 ^ 32"
  shows "decode_table (encode_table fs) (length fs) ty = Ok fs"
proof -
  from assms(1) have "NUMBER_SIZE * 2 \<le> table_size fs" by (cases fs) (simp_all add: table_size_def)
  with assms show ?thesis
    using table_header_ok[OF assms(1)]
    by (simp add: decode_table_def unpack_total unpack_first_offset read_items_encode[simplified])
qed

lemma decode_dynvec_encode:
  assumes "table_size fs < 2 ^ 32"
  shows "decode_dynvec (encode_dynvec fs) ty = Ok fs"
proof (cases "fs = []")
  case True
  then show ?thesis using unpack_pack_number[of 4 "[]" ty]
    by (simp add: decode_dynvec_def encode_dynvec_def)
next
  case False
  then have "NUMBER_SIZE * 2 \<le> table_size fs" by (cases fs) (simp_all add: table_size_def)
  with assms False show ?thesis
    using table_header_ok[OF False]
    by (simp add: decode_dynvec_def encode_dynvec_def unpack_total unpack_first_offset read_items_encode[simplified])
qed

lemma length_encode_dynvec: "length (encode_dynvec fs) = table_size fs"
  by (simp add: encode_dynvec_def table_size_def)

section \<open>Canonicality: a decoder accepts only what the encoder writes\<close>

lemma windows2_mono_bounds:
  assumes "xs \<noteq> []" "\<not> list_ex (\<lambda>(a, b). b < a) (windows2 xs)" "last xs \<le> length bs"
  defines "fs \<equiv> map (\<lambda>(a, b). slice a b bs) (windows2 xs)"
  shows "bounds (hd xs) fs = xs \<and> concat fs = slice (hd xs) (last xs) bs \<and> hd xs \<le> last xs"
  using assms(1-3) unfolding fs_def
proof (induction xs)
  case (Cons x xs)
  show ?case
  proof (cases "xs = []")
    case True
    then show ?thesis by (simp add: windows2_def slice_def)
  next
    case False
    let ?rest = "map (\<lambda>(a, b). slice a b bs) (windows2 xs)"
    from False Cons have IH: "bounds (hd xs) ?rest = xs" "concat ?rest = slice (hd xs) (last xs) bs"
      "hd xs \<le> last xs" by auto
    from False Cons.prems have le: "x \<le> hd xs" by auto
    from IH(3) Cons.prems(3) False le have len: "length (slice x (hd xs) bs) = hd xs - x"
      by (auto simp: slice_def)
    have "slice x (hd xs) bs @ slice (hd xs) (last xs) bs = slice x (last xs) bs"
    proof -
      have "drop (hd xs - x) (drop x bs) = drop (hd xs) bs" using le by simp
      moreover have "last xs - x = (hd xs - x) + (last xs - hd xs)" using le IH(3) by simp
      ultimately show ?thesis by (simp add: slice_def take_add)
    qed
    with False IH le len show ?thesis by simp
  qed
qed simp

lemma read_items_canonical:
  assumes "read_items bs first_offset (length bs) ty = Ok fs"
    and "unpack_number (drop NUMBER_SIZE bs) ty = Ok first_offset"
    and "\<not> bad_first_offset first_offset bs"
  shows "concat (map pack_number (butlast (bounds first_offset fs))) = slice NUMBER_SIZE first_offset bs
    \<and> concat fs = drop first_offset bs \<and> NUMBER_SIZE * (length fs + 1) = first_offset"
proof -
  let ?cs = "chunks_exact NUMBER_SIZE (slice NUMBER_SIZE first_offset bs)"
  from assms(3) obtain k where k: "first_offset = NUMBER_SIZE * (k + 2)" and le: "first_offset \<le> length bs"
  proof -
    from assms(3) have "first_offset = NUMBER_SIZE * (first_offset div 4)" "8 \<le> first_offset"
      and le: "first_offset \<le> length bs"
      by (auto simp: bad_first_offset_def)
    then have "first_offset = NUMBER_SIZE * ((first_offset div 4 - 2) + 2)" by presburger
    with le that show thesis by blast
  qed
  then have "length (slice NUMBER_SIZE first_offset bs) = NUMBER_SIZE * (k + 1)"
    by (simp add: slice_def)
  then have cs: "concat ?cs = slice NUMBER_SIZE first_offset bs" "length ?cs = k + 1"
    "\<forall>c\<in>set ?cs. length c = NUMBER_SIZE"
    using concat_chunks_exact[of "slice NUMBER_SIZE first_offset bs" NUMBER_SIZE "k + 1"] by simp_all
  from assms(1) obtain os where os: "map_res (\<lambda>c. unpack_number c ty) ?cs = Ok os"
    and mono: "\<not> list_ex (\<lambda>(a, b). b < a) (windows2 (os @ [length bs]))"
    and fs: "fs = map (\<lambda>(a, b). slice a b bs) (windows2 (os @ [length bs]))"
    unfolding read_items_def by (auto simp: res_simps Let_def invalid_def split: if_splits)
  have pack: "map pack_number os = ?cs"
    using os cs(3) unfolding map_res_eq_Ok
    by (induction rule: list_all2_induct) (auto dest: pack_unpack_number)
  have "hd os = first_offset"
  proof -
    from cs(2) obtain c cs' where c: "?cs = c # cs'" by (cases ?cs) auto
    then have "c = take NUMBER_SIZE (slice NUMBER_SIZE first_offset bs)"
      by (subst (asm) chunks_exact.simps) (simp split: if_splits)
    then have "c = take NUMBER_SIZE (drop NUMBER_SIZE bs)" using k by (simp add: slice_def min_def)
    with os c assms(2) show ?thesis
      by (auto simp: res_simps unpack_number_def invalid_def split: if_splits)
  qed
  moreover have "os \<noteq> []" using os cs(2) by (auto dest: map_res_length)
  ultimately have hd: "hd (os @ [length bs]) = first_offset" by simp
  from windows2_mono_bounds[OF _ mono, of bs] hd fs
  have b: "bounds first_offset fs = os @ [length bs]"
    and c: "concat fs = slice first_offset (length bs) bs" by simp_all
  from b have "length fs + 1 = length os + 1" by (metis length_bounds length_append_singleton Suc_eq_plus1)
  with os cs(2) have "length fs = k + 1" by (auto dest: map_res_length)
  with b c pack cs(1) k show ?thesis by (simp add: slice_def)
qed

lemma split_bytes: "NUMBER_SIZE \<le> k \<Longrightarrow> k \<le> length bs \<Longrightarrow>
   take NUMBER_SIZE bs @ slice NUMBER_SIZE k bs @ drop k bs = bs"
proof -
  assume "NUMBER_SIZE \<le> k" "k \<le> length bs"
  then have "drop NUMBER_SIZE bs = slice NUMBER_SIZE k bs @ drop k bs"
    by (metis append_take_drop_id drop_drop le_add_diff_inverse2 slice_def)
  then show ?thesis by (metis append_take_drop_id)
qed

lemma decode_table_canonical:
  assumes "decode_table bs n ty = Ok fs"
  shows "length fs = n \<and> encode_table fs = bs \<and> fs \<noteq> [] \<and> table_size fs < 2 ^ 32"
proof -
  from assms obtain first where total: "unpack_number bs ty = Ok (length bs)"
    and first: "unpack_number (drop NUMBER_SIZE bs) ty = Ok first"
    and good: "\<not> bad_first_offset first bs"
    and n: "first div NUMBER_SIZE - 1 = n"
    and items: "read_items bs first (length bs) ty = Ok fs"
    by (auto simp: decode_table_def res_simps invalid_def split: if_splits)
  from read_items_canonical[OF items first good]
  have c: "concat (map pack_number (butlast (bounds first fs))) = slice NUMBER_SIZE first bs"
    "concat fs = drop first bs" "NUMBER_SIZE * (length fs + 1) = first" by blast+
  from good have le: "NUMBER_SIZE * 2 \<le> first" "first \<le> length bs" by (auto simp: bad_first_offset_def)
  have "(\<Sum>f\<leftarrow>fs. length f) = length bs - first"
    using c(2) by (metis length_concat length_drop)
  with le c(3) have size: "table_size fs = length bs" by (simp add: table_size_def)
  have "encode_table fs = take NUMBER_SIZE bs @ slice NUMBER_SIZE first bs @ drop first bs"
    using c total by (simp add: encode_table_alt size pack_unpack_number)
  then have "encode_table fs = bs" using le by (simp add: split_bytes)
  moreover have "fs \<noteq> []" using c(3) le by auto
  moreover have "length fs = n" using n c(3) by auto
  ultimately show ?thesis using size unpack_number_bound[OF total] by simp
qed

lemma decode_dynvec_canonical:
  assumes "decode_dynvec bs ty = Ok fs"
  shows "encode_dynvec fs = bs \<and> table_size fs < 2 ^ 32"
proof (cases "length bs = NUMBER_SIZE")
  case True
  with assms have "fs = []" "unpack_number bs ty = Ok NUMBER_SIZE"
    by (auto simp: decode_dynvec_def res_simps invalid_def split: if_splits)
  with True show ?thesis by (simp add: encode_dynvec_def pack_unpack_number table_size_def)
next
  case False
  with assms obtain first where "unpack_number bs ty = Ok (length bs)"
    and "unpack_number (drop NUMBER_SIZE bs) ty = Ok first"
    and "\<not> bad_first_offset first bs" and "\<not> length bs < NUMBER_SIZE * 2"
    and "read_items bs first (length bs) ty = Ok fs"
    by (auto simp: decode_dynvec_def res_simps invalid_def split: if_splits)
  then have "decode_table bs (first div NUMBER_SIZE - 1) ty = Ok fs"
    by (simp add: decode_table_def)
  from decode_table_canonical[OF this] show ?thesis by (simp add: encode_dynvec_def)
qed

end
