(* ===== verification/Cell_Types.thy ===== *)
theory Cell_Types
  imports Codec "HOL-Library.Product_Lexorder"
begin

text \<open>
  The Cell data model of \<open>exec/src/celltx/types.rs\<close>: outpoints, scripts, outputs, inputs,
  dependencies and transactions, the \<open>since\<close> lock field, the occupied-capacity rule,
  the size and mass estimators and the resolved-cell metadata. A \<open>[u8; 32]\<close> is a byte
  list; \<open>wf_\<dots>\<close> predicates state the fixed lengths that the Rust types guarantee.
\<close>

unbundle bit_operations_syntax

section \<open>Outpoints\<close>

datatype outpoint = OutPoint (op_tx_hash: bytes) (op_index: u32)

text \<open>The derived \<open>Ord\<close> compares the transaction hash first, then the index.\<close>

instantiation outpoint :: linorder
begin

definition less_eq_outpoint :: "outpoint \<Rightarrow> outpoint \<Rightarrow> bool" where
  "less_eq_outpoint p q = ((op_tx_hash p, op_index p) \<le> (op_tx_hash q, op_index q))"

definition less_outpoint :: "outpoint \<Rightarrow> outpoint \<Rightarrow> bool" where
  "less_outpoint p q = ((op_tx_hash p, op_index p) < (op_tx_hash q, op_index q))"

instance
proof
  fix p q r :: outpoint
  show "p < q \<longleftrightarrow> p \<le> q \<and> \<not> q \<le> p"
    by (auto simp: less_eq_outpoint_def less_outpoint_def)
  show "p \<le> p" by (simp add: less_eq_outpoint_def)
  show "p \<le> q \<Longrightarrow> q \<le> r \<Longrightarrow> p \<le> r"
    unfolding less_eq_outpoint_def by (rule order_trans)
  show "p \<le> q \<Longrightarrow> q \<le> p \<Longrightarrow> p = q"
    unfolding less_eq_outpoint_def by (cases p; cases q) auto
  show "p \<le> q \<or> q \<le> p"
    unfolding less_eq_outpoint_def by (rule linear)
qed

end

definition outpoint_to_key :: "outpoint \<Rightarrow> bytes" where
  "outpoint_to_key p = op_tx_hash p @ u32_le (op_index p)"

definition outpoint_from_key :: "bytes \<Rightarrow> outpoint" where
  "outpoint_from_key key = OutPoint (take 32 key) (u32_of_le (drop 32 key))"

definition wf_outpoint :: "outpoint \<Rightarrow> bool" where
  "wf_outpoint p = (length (op_tx_hash p) = 32)"

lemma length_outpoint_to_key [simp]: "wf_outpoint p \<Longrightarrow> length (outpoint_to_key p) = 36"
  by (simp add: outpoint_to_key_def wf_outpoint_def)

lemma outpoint_from_key_to_key [simp]:
  "wf_outpoint p \<Longrightarrow> outpoint_from_key (outpoint_to_key p) = p"
  by (cases p) (simp add: outpoint_to_key_def outpoint_from_key_def wf_outpoint_def)

lemma outpoint_to_key_from_key:
  "length key = 36 \<Longrightarrow> outpoint_to_key (outpoint_from_key key) = key"
  by (simp add: outpoint_to_key_def outpoint_from_key_def u32_le_u32_of_le)

interpretation outpoint_code: prefix_code outpoint_to_key wf_outpoint
proof (rule fixed_width_prefix_code[where n = 36])
  fix p q
  assume "wf_outpoint p" "wf_outpoint q" "outpoint_to_key p = outpoint_to_key q"
  then show "p = q" by (metis outpoint_from_key_to_key)
qed simp

section \<open>Scripts, outputs and capacity\<close>

record script =
  sc_code_hash :: bytes
  sc_hash_type :: u8
  sc_args :: bytes

definition script_to_bytes :: "script \<Rightarrow> bytes" where
  "script_to_bytes s = sc_code_hash s @ [sc_hash_type s] @ sc_args s"

definition wf_script :: "script \<Rightarrow> bool" where
  "wf_script s = (length (sc_code_hash s) = 32 \<and> short32 (sc_args s))"

record cell_output =
  co_lock :: script
  co_type :: "script option"
  co_capacity :: u64

definition wf_output :: "cell_output \<Rightarrow> bool" where
  "wf_output out = (wf_script (co_lock out) \<and> pred_option wf_script (co_type out))"

datatype capacity_error = InsufficientCapacity (cap_required: u64) (cap_available: u64)

text \<open>
  The occupied size is summed as \<open>usize\<close> and converted to \<open>u64\<close>: the capacity field, the
  lock, the optional type script and the data.
\<close>

definition occupied_bytes :: "cell_output \<Rightarrow> nat \<Rightarrow> nat" where
  "occupied_bytes out data_len =
     8 + (32 + 1 + length (sc_args (co_lock out)))
     + (case co_type out of None \<Rightarrow> 0 | Some t \<Rightarrow> 32 + 1 + length (sc_args t))
     + data_len"

definition occupied_capacity :: "cell_output \<Rightarrow> nat \<Rightarrow> u64" where
  "occupied_capacity out data_len = as_u64 (occupied_bytes out data_len)"

definition verify_capacity :: "cell_output \<Rightarrow> nat \<Rightarrow> capacity_error + unit" where
  "verify_capacity out data_len =
     (let occupied = occupied_capacity out data_len in
      if co_capacity out < occupied
      then Err (InsufficientCapacity occupied (co_capacity out)) else Ok ())"

lemma unat_occupied_capacity:
  "occupied_bytes out n < 2 ^ 64 \<Longrightarrow> unat (occupied_capacity out n) = occupied_bytes out n"
  by (simp add: occupied_capacity_def unat_as_u64)

lemma verify_capacity_Ok:
  "verify_capacity out n = Ok () \<longleftrightarrow> occupied_capacity out n \<le> co_capacity out"
  by (auto simp: verify_capacity_def Let_def)

section \<open>Inputs and the since field\<close>

record cell_input =
  ci_previous_output :: outpoint
  ci_since :: u64

definition is_relative_lock :: "cell_input \<Rightarrow> bool" where
  "is_relative_lock i = ((ci_since i AND 0x8000000000000000) \<noteq> 0)"

definition is_block_number_lock :: "cell_input \<Rightarrow> bool" where
  "is_block_number_lock i = ((ci_since i AND 0x4000000000000000) \<noteq> 0)"

definition lock_value :: "cell_input \<Rightarrow> u64" where
  "lock_value i = ci_since i AND 0x3FFFFFFFFFFFFFFF"

section \<open>Dependencies and transactions\<close>

datatype dep_type = Code | DepGroup

record cell_dep =
  cd_out_point :: outpoint
  cd_dep_type :: dep_type

record cell_tx =
  tx_version :: u32
  tx_inputs :: "cell_input list"
  tx_cell_deps :: "cell_dep list"
  tx_header_deps :: "bytes list"
  tx_outputs :: "cell_output list"
  tx_outputs_data :: "bytes list"
  tx_witnesses :: "bytes list"

definition CELL_TX_VERSION :: u32 where "CELL_TX_VERSION = 0"

datatype celltx_error = OutputsDataLengthMismatch

definition celltx_new_with_header_deps ::
  "cell_input list \<Rightarrow> cell_dep list \<Rightarrow> bytes list \<Rightarrow> cell_output list \<Rightarrow> bytes list \<Rightarrow> bytes list
   \<Rightarrow> celltx_error + cell_tx" where
  "celltx_new_with_header_deps inputs cell_deps header_deps outputs outputs_data witnesses =
     (if length outputs \<noteq> length outputs_data then Err OutputsDataLengthMismatch
      else Ok \<lparr>tx_version = CELL_TX_VERSION, tx_inputs = inputs, tx_cell_deps = cell_deps,
               tx_header_deps = header_deps, tx_outputs = outputs,
               tx_outputs_data = outputs_data, tx_witnesses = witnesses\<rparr>)"

definition celltx_new ::
  "cell_input list \<Rightarrow> cell_dep list \<Rightarrow> cell_output list \<Rightarrow> bytes list \<Rightarrow> bytes list
   \<Rightarrow> celltx_error + cell_tx" where
  "celltx_new inputs cell_deps outputs outputs_data witnesses =
     celltx_new_with_header_deps inputs cell_deps [] outputs outputs_data witnesses"

definition is_coinbase :: "cell_tx \<Rightarrow> bool" where
  "is_coinbase tx = (tx_inputs tx = [])"

definition payload :: "cell_tx \<Rightarrow> bytes option" where
  "payload tx = (if \<not> is_coinbase tx then None
     else case tx_outputs_data tx of [] \<Rightarrow> None | d # _ \<Rightarrow> Some d)"

text \<open>
  What the Rust types and the constructor guarantee of a transaction: the array lengths,
  the \<open>u32\<close> counts of the wire formats, and one data item per output.
\<close>

definition wf_tx :: "cell_tx \<Rightarrow> bool" where
  "wf_tx tx =
     ((\<forall>i\<in>set (tx_inputs tx). wf_outpoint (ci_previous_output i))
      \<and> (\<forall>d\<in>set (tx_cell_deps tx). wf_outpoint (cd_out_point d))
      \<and> (\<forall>h\<in>set (tx_header_deps tx). length h = 32)
      \<and> (\<forall>out\<in>set (tx_outputs tx). wf_output out)
      \<and> (\<forall>d\<in>set (tx_outputs_data tx). short32 d)
      \<and> (\<forall>w\<in>set (tx_witnesses tx). short32 w)
      \<and> short32 (tx_inputs tx) \<and> short32 (tx_cell_deps tx) \<and> short32 (tx_header_deps tx)
      \<and> short32 (tx_outputs tx) \<and> short32 (tx_witnesses tx)
      \<and> length (tx_outputs_data tx) = length (tx_outputs tx))"

section \<open>Size and mass estimators\<close>

definition cell_tx_estimated_serialized_size :: "cell_tx \<Rightarrow> u64" where
  "cell_tx_estimated_serialized_size tx =
     2
     + 8 + as_u64 (length (tx_inputs tx)) * 44
     + 8 + as_u64 (length (tx_cell_deps tx)) * 37
     + 8 + as_u64 (length (tx_header_deps tx)) * 32
     + 8 + (\<Sum>out\<leftarrow>tx_outputs tx.
              32 + 1 + 8 + as_u64 (length (sc_args (co_lock out)))
              + (case co_type out of
                   Some t \<Rightarrow> 1 + 32 + 1 + 8 + as_u64 (length (sc_args t)) | None \<Rightarrow> 1)
              + 8)
     + 8 + (\<Sum>d\<leftarrow>tx_outputs_data tx. 8 + as_u64 (length d))
     + 8 + (\<Sum>w\<leftarrow>tx_witnesses tx. 8 + as_u64 (length w))"

definition serialized_size :: "cell_tx \<Rightarrow> nat" where
  "serialized_size tx = unat (cell_tx_estimated_serialized_size tx)"

definition CELL_ENTRY_OVERHEAD_EXCLUDING_OUTPUT_BODY :: u64 where
  "CELL_ENTRY_OVERHEAD_EXCLUDING_OUTPUT_BODY = 32 + 4 + 8 + 1"

definition TRANSIENT_BYTE_TO_MASS_FACTOR :: u64 where "TRANSIENT_BYTE_TO_MASS_FACTOR = 2"
definition MASS_PER_TX_BYTE :: u64 where "MASS_PER_TX_BYTE = 1"
definition MASS_PER_SCRIPT_PUB_KEY_BYTE :: u64 where "MASS_PER_SCRIPT_PUB_KEY_BYTE = 10"
definition MASS_PER_SIG_OP :: u64 where "MASS_PER_SIG_OP = 1000"

definition total_output_script_bytes :: "cell_tx \<Rightarrow> u64" where
  "total_output_script_bytes tx =
     (\<Sum>out\<leftarrow>tx_outputs tx.
        let script_size = 32 + 1 + as_u64 (length (sc_args (co_lock out))) in
        case co_type out of
          Some t \<Rightarrow> saturating_add script_size (32 + 1 + as_u64 (length (sc_args t)))
        | None \<Rightarrow> script_size)"

definition estimated_compute_mass :: "cell_tx \<Rightarrow> u64" where
  "estimated_compute_mass tx =
     (let size_mass = saturating_mul (as_u64 (serialized_size tx)) MASS_PER_TX_BYTE;
          script_mass = saturating_mul (total_output_script_bytes tx) MASS_PER_SCRIPT_PUB_KEY_BYTE;
          sigops_mass = saturating_mul (as_u64 (length (tx_inputs tx))) MASS_PER_SIG_OP
      in saturating_add (saturating_add size_mass script_mass) sigops_mass)"

definition estimated_transient_mass :: "cell_tx \<Rightarrow> u64" where
  "estimated_transient_mass tx =
     saturating_mul (as_u64 (serialized_size tx)) TRANSIENT_BYTE_TO_MASS_FACTOR"

definition estimated_storage_mass :: "cell_tx \<Rightarrow> u64" where
  "estimated_storage_mass tx =
     (\<Sum>(out, data)\<leftarrow>zip (tx_outputs tx) (tx_outputs_data tx).
        CELL_ENTRY_OVERHEAD_EXCLUDING_OUTPUT_BODY + occupied_capacity out (length data))"

section \<open>Resolved cells and fees\<close>

record transaction_info =
  ti_tx_hash :: bytes
  ti_block_number :: u64
  ti_block_hash :: bytes
  ti_is_cellbase :: bool

record resolved_cell_meta =
  rm_cell_output :: cell_output
  rm_out_point :: outpoint
  rm_transaction_info :: "transaction_info option"
  rm_data_bytes :: u64
  rm_mem_cell_data :: "bytes option"
  rm_mem_cell_data_hash :: "bytes option"

definition meta_is_cellbase :: "resolved_cell_meta \<Rightarrow> bool" where
  "meta_is_cellbase m =
     (case rm_transaction_info m of None \<Rightarrow> False | Some info \<Rightarrow> ti_is_cellbase info)"

definition meta_capacity :: "resolved_cell_meta \<Rightarrow> u64" where
  "meta_capacity m = co_capacity (rm_cell_output m)"

datatype cell_status = Live resolved_cell_meta | Dead u64 | Unknown

record resolved_cell_tx =
  rt_transaction :: cell_tx
  rt_resolved_inputs :: "resolved_cell_meta list"
  rt_resolved_deps :: "resolved_cell_meta list"

text \<open>\<open>Iterator::sum\<close> over \<open>u64\<close> is wrapping addition in a release build.\<close>

definition tx_input_capacity :: "resolved_cell_meta list \<Rightarrow> u64" where
  "tx_input_capacity resolved = (\<Sum>m\<leftarrow>resolved. co_capacity (rm_cell_output m))"

definition tx_output_capacity :: "cell_tx \<Rightarrow> u64" where
  "tx_output_capacity tx = (\<Sum>out\<leftarrow>tx_outputs tx. co_capacity out)"

definition tx_fee :: "cell_tx \<Rightarrow> resolved_cell_meta list \<Rightarrow> u64" where
  "tx_fee tx resolved = saturating_sub (tx_input_capacity resolved) (tx_output_capacity tx)"

definition resolved_fee :: "resolved_cell_tx \<Rightarrow> u64" where
  "resolved_fee r = tx_fee (rt_transaction r) (rt_resolved_inputs r)"

end
