(* ===== verification/Molecule_Cell.thy ===== *)
theory Molecule_Cell
  imports Molecule Cell_Types
begin

text \<open>
  The Molecule layouts of the Cell structures
  (\<open>exec/src/serialization/molecule_compat.rs\<close>): outpoints, inputs, dependencies,
  scripts, outputs, raw and full transactions, witness arguments and
  dep-group vectors. Serializers that return \<open>Ok\<close> on every path are modelled by the bytes they
  return. Every layout is shown to be a canonical codec: decoding inverts encoding, and no
  other byte string is accepted.
\<close>

named_theorems mol_iff \<open>what a successful decoding says of the bytes\<close>

section \<open>Fixed-size structures\<close>

definition serialize_outpoint_molecule :: "outpoint \<Rightarrow> bytes" where
  "serialize_outpoint_molecule p = op_tx_hash p @ u32_le (op_index p)"

definition deserialize_outpoint_molecule :: "bytes \<Rightarrow> molecule_error + outpoint" where
  "deserialize_outpoint_molecule bs =
     (if length bs \<noteq> 36 then invalid ''OutPoint'' ''expected 36 bytes''
      else res_bind (decode_array_32 (slice 0 32 bs) ''OutPoint.tx_hash'') (\<lambda>h.
           res_bind (decode_u32 (slice 32 36 bs) ''OutPoint.index'') (\<lambda>i.
           Ok (OutPoint h i))))"

definition serialize_cell_input_molecule :: "cell_input \<Rightarrow> bytes" where
  "serialize_cell_input_molecule i =
     u64_le (ci_since i) @ serialize_outpoint_molecule (ci_previous_output i)"

definition deserialize_cell_input_molecule :: "bytes \<Rightarrow> molecule_error + cell_input" where
  "deserialize_cell_input_molecule bs =
     (if length bs \<noteq> 44 then invalid ''CellInput'' ''expected 44 bytes''
      else res_bind (decode_u64 (slice 0 8 bs) ''CellInput.since'') (\<lambda>since.
           res_bind (deserialize_outpoint_molecule (slice 8 44 bs)) (\<lambda>p.
           Ok \<lparr>ci_previous_output = p, ci_since = since\<rparr>)))"

definition encode_dep_type :: "dep_type \<Rightarrow> u8" where
  "encode_dep_type d = (case d of Code \<Rightarrow> 0 | DepGroup \<Rightarrow> 1)"

definition decode_dep_type :: "u8 \<Rightarrow> molecule_error + dep_type" where
  "decode_dep_type b =
     (if b = 0 then Ok Code else if b = 1 then Ok DepGroup
      else invalid ''DepType'' ''expected 0 or 1'')"

definition serialize_cell_dep_molecule :: "cell_dep \<Rightarrow> bytes" where
  "serialize_cell_dep_molecule d =
     serialize_outpoint_molecule (cd_out_point d) @ [encode_dep_type (cd_dep_type d)]"

definition deserialize_cell_dep_molecule :: "bytes \<Rightarrow> molecule_error + cell_dep" where
  "deserialize_cell_dep_molecule bs =
     (if length bs \<noteq> 37 then invalid ''CellDep'' ''expected 37 bytes''
      else res_bind (deserialize_outpoint_molecule (slice 0 36 bs)) (\<lambda>p.
           res_bind (decode_dep_type (bs ! 36)) (\<lambda>t.
           Ok \<lparr>cd_out_point = p, cd_dep_type = t\<rparr>)))"

section \<open>Scripts and outputs\<close>

definition serialize_script_molecule :: "script \<Rightarrow> bytes" where
  "serialize_script_molecule s =
     encode_table [sc_code_hash s, [sc_hash_type s], encode_bytes (sc_args s)]"

definition deserialize_script_molecule :: "bytes \<Rightarrow> molecule_error + script" where
  "deserialize_script_molecule bs =
     res_bind (decode_table bs 3 ''Script'') (\<lambda>flds.
     res_bind (decode_array_32 (flds ! 0) ''Script.code_hash'') (\<lambda>h.
     res_bind (decode_byte (flds ! 1) ''Script.hash_type'') (\<lambda>t.
     res_bind (decode_bytes (flds ! 2)) (\<lambda>a.
     Ok \<lparr>sc_code_hash = h, sc_hash_type = t, sc_args = a\<rparr>))))"

definition encode_script_opt :: "script option \<Rightarrow> bytes" where
  "encode_script_opt s = (case s of None \<Rightarrow> [] | Some t \<Rightarrow> serialize_script_molecule t)"

definition decode_script_opt :: "bytes \<Rightarrow> molecule_error + script option" where
  "decode_script_opt bs =
     (if bs = [] then Ok None
      else res_bind (deserialize_script_molecule bs) (\<lambda>s. Ok (Some s)))"

definition serialize_cell_output_molecule :: "cell_output \<Rightarrow> bytes" where
  "serialize_cell_output_molecule out =
     encode_table [u64_le (co_capacity out), serialize_script_molecule (co_lock out),
                   encode_script_opt (co_type out)]"

definition deserialize_cell_output_molecule :: "bytes \<Rightarrow> molecule_error + cell_output" where
  "deserialize_cell_output_molecule bs =
     res_bind (decode_table bs 3 ''CellOutput'') (\<lambda>flds.
     res_bind (decode_u64 (flds ! 0) ''CellOutput.capacity'') (\<lambda>c.
     res_bind (deserialize_script_molecule (flds ! 1)) (\<lambda>l.
     res_bind (decode_script_opt (flds ! 2)) (\<lambda>t.
     Ok \<lparr>co_lock = l, co_type = t, co_capacity = c\<rparr>))))"

section \<open>Transactions\<close>

definition serialize_raw_transaction_molecule :: "cell_tx \<Rightarrow> bytes" where
  "serialize_raw_transaction_molecule tx =
     encode_table [u32_le (tx_version tx),
                   encode_fixvec serialize_cell_dep_molecule (tx_cell_deps tx),
                   encode_fixvec (\<lambda>h. h) (tx_header_deps tx),
                   encode_fixvec serialize_cell_input_molecule (tx_inputs tx),
                   encode_dynvec (map serialize_cell_output_molecule (tx_outputs tx)),
                   encode_bytes_vec (tx_outputs_data tx)]"

definition decode_dynvec_cell_outputs :: "bytes \<Rightarrow> molecule_error + cell_output list" where
  "decode_dynvec_cell_outputs bs =
     res_bind (decode_dynvec bs ''CellOutputVec'') (map_res deserialize_cell_output_molecule)"

definition deserialize_raw_transaction_molecule :: "bytes \<Rightarrow> molecule_error + cell_tx" where
  "deserialize_raw_transaction_molecule bs =
     res_bind (decode_table bs 6 ''RawTransaction'') (\<lambda>flds.
     res_bind (decode_dynvec_cell_outputs (flds ! 4)) (\<lambda>outputs.
     res_bind (decode_bytes_vec (flds ! 5) ''RawTransaction.outputs_data'') (\<lambda>outputs_data.
     if length outputs \<noteq> length outputs_data
     then Err (ValidationFailed ''RawTransaction outputs/outputs_data length mismatch'')
     else
     res_bind (decode_u32 (flds ! 0) ''RawTransaction.version'') (\<lambda>version.
     res_bind (decode_fixvec 37 deserialize_cell_dep_molecule ''CellDepVec'' (flds ! 1)) (\<lambda>deps.
     res_bind (decode_fixvec 32 (\<lambda>c. decode_array_32 c ''RawTransaction.header_deps'')
                 ''RawTransaction.header_deps'' (flds ! 2)) (\<lambda>headers.
     res_bind (decode_fixvec 44 deserialize_cell_input_molecule ''CellInputVec'' (flds ! 3)) (\<lambda>inputs.
     Ok \<lparr>tx_version = version, tx_inputs = inputs, tx_cell_deps = deps, tx_header_deps = headers,
         tx_outputs = outputs, tx_outputs_data = outputs_data, tx_witnesses = []\<rparr>)))))))"

definition serialize_transaction_molecule :: "cell_tx \<Rightarrow> bytes" where
  "serialize_transaction_molecule tx =
     encode_table [serialize_raw_transaction_molecule tx, encode_bytes_vec (tx_witnesses tx)]"

definition deserialize_transaction_molecule :: "bytes \<Rightarrow> molecule_error + cell_tx" where
  "deserialize_transaction_molecule bs =
     res_bind (decode_table bs 2 ''Transaction'') (\<lambda>flds.
     res_bind (deserialize_raw_transaction_molecule (flds ! 0)) (\<lambda>tx.
     res_bind (decode_bytes_vec (flds ! 1) ''Transaction.witnesses'') (\<lambda>ws.
     Ok (tx\<lparr>tx_witnesses := ws\<rparr>))))"

section \<open>Dep-group vectors and witness arguments\<close>

definition serialize_ckb_outpoint_vec_molecule :: "outpoint list \<Rightarrow> molecule_error + bytes" where
  "serialize_ckb_outpoint_vec_molecule ps =
     (if ps = [] then invalid ''OutPointVec'' ''CKB DepGroup OutPointVec must not be empty''
      else Ok (encode_fixvec serialize_outpoint_molecule ps))"

definition deserialize_ckb_outpoint_vec_molecule :: "bytes \<Rightarrow> molecule_error + outpoint list" where
  "deserialize_ckb_outpoint_vec_molecule bs =
     res_bind (unpack_number bs ''OutPointVec'') (\<lambda>count.
       if count = 0 then invalid ''OutPointVec'' ''CKB DepGroup OutPointVec must not be empty''
       else if length bs \<noteq> NUMBER_SIZE + count * 36 then invalid ''OutPointVec'' ''expected bytes''
       else map_res deserialize_outpoint_molecule (chunks_exact 36 (drop NUMBER_SIZE bs)))"

record ckb_witness_args =
  wa_lock :: "bytes option"
  wa_input_type :: "bytes option"
  wa_output_type :: "bytes option"

definition with_zeroed_lock :: "ckb_witness_args \<Rightarrow> nat \<Rightarrow> ckb_witness_args" where
  "with_zeroed_lock w lock_len = w\<lparr>wa_lock := Some (replicate lock_len 0)\<rparr>"

definition serialize_ckb_witness_args_molecule :: "ckb_witness_args \<Rightarrow> bytes" where
  "serialize_ckb_witness_args_molecule w =
     encode_table [encode_bytes_opt (wa_lock w), encode_bytes_opt (wa_input_type w),
                   encode_bytes_opt (wa_output_type w)]"

definition deserialize_ckb_witness_args_molecule :: "bytes \<Rightarrow> molecule_error + ckb_witness_args" where
  "deserialize_ckb_witness_args_molecule bs =
     res_bind (decode_table bs 3 ''WitnessArgs'') (\<lambda>flds.
     res_bind (decode_bytes_opt (flds ! 0)) (\<lambda>l.
     res_bind (decode_bytes_opt (flds ! 1)) (\<lambda>i.
     res_bind (decode_bytes_opt (flds ! 2)) (\<lambda>out.
     Ok \<lparr>wa_lock = l, wa_input_type = i, wa_output_type = out\<rparr>))))"

section \<open>What the primitive decoders accept\<close>

lemma decode_u32_iff [mol_iff]: "decode_u32 bs ty = Ok w \<longleftrightarrow> bs = u32_le w"
  by (auto simp: decode_u32_def invalid_def u32_le_u32_of_le split: if_splits)

lemma decode_u64_iff [mol_iff]: "decode_u64 bs ty = Ok w \<longleftrightarrow> bs = u64_le w"
  by (auto simp: decode_u64_def invalid_def u64_le_u64_of_le split: if_splits)

lemma decode_byte_iff [mol_iff]: "decode_byte bs ty = Ok b \<longleftrightarrow> bs = [b]"
  by (auto simp: decode_byte_def invalid_def length_Suc_conv split: if_splits)

lemma decode_array_32_iff [mol_iff]: "decode_array_32 bs ty = Ok h \<longleftrightarrow> bs = h \<and> length h = 32"
  by (auto simp: decode_array_32_def invalid_def split: if_splits)

lemma decode_table_iff [mol_iff]:
  "decode_table bs n ty = Ok fs \<longleftrightarrow>
     length fs = n \<and> fs \<noteq> [] \<and> bs = encode_table fs \<and> table_size fs < 2 ^ 32"
  using decode_table_canonical decode_table_encode by blast

lemma decode_dynvec_iff [mol_iff]:
  "decode_dynvec bs ty = Ok fs \<longleftrightarrow> bs = encode_dynvec fs \<and> table_size fs < 2 ^ 32"
  using decode_dynvec_canonical decode_dynvec_encode by blast

lemma decode_bytes_iff [mol_iff]: "decode_bytes bs = Ok x \<longleftrightarrow> bs = encode_bytes x \<and> short32 x"
proof
  assume "decode_bytes bs = Ok x"
  then obtain n where n: "unpack_number bs ''Bytes'' = Ok n" "length bs = 4 + n" and x: "drop 4 bs = x"
    by (auto simp: decode_bytes_def res_simps invalid_def split: if_splits)
  from n(2) x have len: "length x = n" by auto
  have "encode_bytes x = take 4 bs @ drop 4 bs"
    using pack_unpack_number[OF n(1)] by (simp add: encode_bytes_def len x)
  then have "encode_bytes x = bs" by simp
  then show "bs = encode_bytes x \<and> short32 x"
    using unpack_number_bound[OF n(1)] by (simp add: short32_def len)
next
  assume "bs = encode_bytes x \<and> short32 x"
  then show "decode_bytes bs = Ok x"
    by (simp add: decode_bytes_def encode_bytes_def short32_def)
qed

lemma encode_bytes_not_Nil [simp]: "encode_bytes x \<noteq> []"
proof
  assume "encode_bytes x = []"
  then have "length (encode_bytes x) = 0" by simp
  then show False by (simp add: encode_bytes_def)
qed

lemma decode_bytes_opt_iff [mol_iff]:
  "decode_bytes_opt bs = Ok x \<longleftrightarrow> bs = encode_bytes_opt x \<and> pred_option short32 x"
  by (cases x) (auto simp: decode_bytes_opt_def encode_bytes_opt_def res_simps decode_bytes_iff
      encode_bytes_not_Nil[symmetric] simp del: encode_bytes_not_Nil)

interpretation bytes_codec: canonical_codec encode_bytes decode_bytes short32
  by unfold_locales (auto simp: decode_bytes_iff)

lemma decode_bytes_vec_iff [mol_iff]:
  "decode_bytes_vec bs ty = Ok xs \<longleftrightarrow>
     bs = encode_bytes_vec xs \<and> (\<forall>x\<in>set xs. short32 x) \<and> table_size (map encode_bytes xs) < 2 ^ 32"
  by (auto simp: decode_bytes_vec_def encode_bytes_vec_def res_simps decode_dynvec_iff
      bytes_codec.map_decode_iff)

section \<open>Vectors of fixed-size items\<close>

locale fixed_codec = canonical_codec encode decode valid
  for encode :: "'a \<Rightarrow> bytes" and decode :: "bytes \<Rightarrow> molecule_error + 'a" and valid :: "'a \<Rightarrow> bool" +
  fixes width :: nat
  assumes width_pos: "0 < width"
    and length_encode: "valid x \<Longrightarrow> length (encode x) = width"
begin

lemma length_concat_encode: "\<forall>x\<in>set xs. valid x \<Longrightarrow> length (concat (map encode xs)) = length xs * width"
  by (induction xs) (auto simp: length_encode)

lemma decode_fixvec_iff:
  "decode_fixvec width decode ty bs = Ok xs \<longleftrightarrow>
     short32 xs \<and> (\<forall>x\<in>set xs. valid x) \<and> bs = encode_fixvec encode xs"
proof
  assume "decode_fixvec width decode ty bs = Ok xs"
  then obtain n where n: "unpack_number bs ty = Ok n" and len: "length bs = 4 + n * width"
    and items: "map_res decode (chunks_exact width (drop 4 bs)) = Ok xs"
    by (auto simp: decode_fixvec_def res_simps invalid_def split: if_splits)
  from len have "length (drop 4 bs) = width * n" by simp
  from concat_chunks_exact[OF this width_pos]
  have ch: "concat (chunks_exact width (drop 4 bs)) = drop 4 bs"
    "length (chunks_exact width (drop 4 bs)) = n" by blast+
  from items have xs: "\<forall>x\<in>set xs. valid x" "chunks_exact width (drop 4 bs) = map encode xs"
    by (auto simp: map_decode_iff)
  from xs(2) ch have l: "length xs = n" and c: "concat (map encode xs) = drop 4 bs" by auto
  have "encode_fixvec encode xs = take 4 bs @ drop 4 bs"
    unfolding encode_fixvec_def l c using pack_unpack_number[OF n] by simp
  with unpack_number_bound[OF n] l xs(1)
  show "short32 xs \<and> (\<forall>x\<in>set xs. valid x) \<and> bs = encode_fixvec encode xs"
    by (simp add: short32_def)
next
  assume a: "short32 xs \<and> (\<forall>x\<in>set xs. valid x) \<and> bs = encode_fixvec encode xs"
  then have "chunks_exact width (concat (map encode xs)) = map encode xs"
    by (intro chunks_exact_concat) (auto simp: length_encode width_pos)
  with a show "decode_fixvec width decode ty bs = Ok xs"
    by (simp add: decode_fixvec_def encode_fixvec_def short32_def length_concat_encode map_decode_encode)
qed

lemma decode_fixvec_encode:
  "short32 xs \<Longrightarrow> \<forall>x\<in>set xs. valid x \<Longrightarrow> decode_fixvec width decode ty (encode_fixvec encode xs) = Ok xs"
  by (simp add: decode_fixvec_iff)

end

lemma take_drop_slices: "length bs = n \<Longrightarrow> k \<le> n \<Longrightarrow> slice 0 k bs @ slice k n bs = bs"
  by (simp add: slice_def)

lemma slice_append_left: "slice 0 k (xs @ ys) = xs" if "length xs = k"
  using that by (simp add: slice_def)

lemma slice_append_right: "slice k n (xs @ ys) = ys" if "length xs = k" "n = k + length ys"
  using that by (simp add: slice_def)

lemma deserialize_outpoint_iff [mol_iff]:
  "deserialize_outpoint_molecule bs = Ok p \<longleftrightarrow> wf_outpoint p \<and> bs = serialize_outpoint_molecule p"
proof
  assume "deserialize_outpoint_molecule bs = Ok p"
  then have "length bs = 36" "slice 0 32 bs = op_tx_hash p" "slice 32 36 bs = u32_le (op_index p)"
    "length (op_tx_hash p) = 32"
    by (auto simp: deserialize_outpoint_molecule_def res_simps mol_iff invalid_def split: if_splits)
  then show "wf_outpoint p \<and> bs = serialize_outpoint_molecule p"
    using take_drop_slices[of bs 36 32] by (simp add: wf_outpoint_def serialize_outpoint_molecule_def)
next
  assume "wf_outpoint p \<and> bs = serialize_outpoint_molecule p"
  then show "deserialize_outpoint_molecule bs = Ok p"
    by (cases p) (simp add: deserialize_outpoint_molecule_def serialize_outpoint_molecule_def
        wf_outpoint_def slice_append_left slice_append_right decode_array_32_def decode_u32_def)
qed

interpretation outpoint_codec: fixed_codec
  serialize_outpoint_molecule deserialize_outpoint_molecule wf_outpoint 36
  by unfold_locales (auto simp: deserialize_outpoint_iff wf_outpoint_def serialize_outpoint_molecule_def)

definition wf_input :: "cell_input \<Rightarrow> bool" where
  "wf_input i = wf_outpoint (ci_previous_output i)"

lemma deserialize_cell_input_iff [mol_iff]:
  "deserialize_cell_input_molecule bs = Ok i \<longleftrightarrow> wf_input i \<and> bs = serialize_cell_input_molecule i"
proof
  assume "deserialize_cell_input_molecule bs = Ok i"
  then have "length bs = 44" "slice 0 8 bs = u64_le (ci_since i)" "wf_input i"
    "slice 8 44 bs = serialize_outpoint_molecule (ci_previous_output i)"
    by (auto simp: deserialize_cell_input_molecule_def wf_input_def res_simps mol_iff invalid_def
        split: if_splits)
  then show "wf_input i \<and> bs = serialize_cell_input_molecule i"
    using take_drop_slices[of bs 44 8] by (simp add: serialize_cell_input_molecule_def)
next
  assume a: "wf_input i \<and> bs = serialize_cell_input_molecule i"
  then have "length (serialize_outpoint_molecule (ci_previous_output i)) = 36"
    by (simp add: wf_input_def outpoint_codec.length_encode)
  with a show "deserialize_cell_input_molecule bs = Ok i"
    by (simp add: deserialize_cell_input_molecule_def serialize_cell_input_molecule_def wf_input_def
        slice_append_left slice_append_right decode_u64_def outpoint_codec.decode_encode)
qed

interpretation input_codec: fixed_codec
  serialize_cell_input_molecule deserialize_cell_input_molecule wf_input 44
  by unfold_locales (auto simp: deserialize_cell_input_iff wf_input_def serialize_cell_input_molecule_def
      outpoint_codec.length_encode)

definition wf_dep :: "cell_dep \<Rightarrow> bool" where
  "wf_dep d = wf_outpoint (cd_out_point d)"

lemma decode_dep_type_iff [mol_iff]: "decode_dep_type b = Ok t \<longleftrightarrow> b = encode_dep_type t"
  by (cases t) (auto simp: decode_dep_type_def encode_dep_type_def invalid_def split: if_splits)

lemma deserialize_cell_dep_iff [mol_iff]:
  "deserialize_cell_dep_molecule bs = Ok d \<longleftrightarrow> wf_dep d \<and> bs = serialize_cell_dep_molecule d"
proof
  assume "deserialize_cell_dep_molecule bs = Ok d"
  then have len: "length bs = 37" and d: "bs ! 36 = encode_dep_type (cd_dep_type d)" "wf_dep d"
    "slice 0 36 bs = serialize_outpoint_molecule (cd_out_point d)"
    by (auto simp: deserialize_cell_dep_molecule_def wf_dep_def res_simps mol_iff invalid_def
        split: if_splits)
  from len have "slice 36 37 bs = [bs ! 36]"
    using Cons_nth_drop_Suc[of 36 bs] by (simp add: slice_def)
  with len d show "wf_dep d \<and> bs = serialize_cell_dep_molecule d"
    using take_drop_slices[of bs 37 36] by (simp add: serialize_cell_dep_molecule_def)
next
  assume a: "wf_dep d \<and> bs = serialize_cell_dep_molecule d"
  then have "length (serialize_outpoint_molecule (cd_out_point d)) = 36"
    by (simp add: wf_dep_def outpoint_codec.length_encode)
  with a show "deserialize_cell_dep_molecule bs = Ok d"
    by (simp add: deserialize_cell_dep_molecule_def serialize_cell_dep_molecule_def wf_dep_def
        slice_append_left nth_append outpoint_codec.decode_encode decode_dep_type_iff[THEN iffD2])
qed

interpretation dep_codec: fixed_codec
  serialize_cell_dep_molecule deserialize_cell_dep_molecule wf_dep 37
  by unfold_locales (auto simp: deserialize_cell_dep_iff wf_dep_def serialize_cell_dep_molecule_def
      outpoint_codec.length_encode)

interpretation byte32_codec: fixed_codec
  "\<lambda>h. h" "\<lambda>c. decode_array_32 c ''RawTransaction.header_deps''" "\<lambda>h. length h = 32" 32
  by unfold_locales (auto simp: decode_array_32_iff)

section \<open>Scripts, outputs and transactions\<close>

lemma length3_iff: "length xs = 3 \<longleftrightarrow> (\<exists>a b c. xs = [a, b, c])"
  by (auto simp: numeral_eq_Suc length_Suc_conv)

lemma length6_iff: "length xs = 6 \<longleftrightarrow> (\<exists>a b c d e f. xs = [a, b, c, d, e, f])"
  by (auto simp: numeral_eq_Suc length_Suc_conv)

lemma length2_iff: "length xs = 2 \<longleftrightarrow> (\<exists>a b. xs = [a, b])"
  by (auto simp: numeral_eq_Suc length_Suc_conv)

lemma table2_bind:
  "res_bind (decode_table bs 2 ty) f = Ok y \<longleftrightarrow>
     (\<exists>a b. bs = encode_table [a, b] \<and> table_size [a, b] < 2 ^ 32 \<and> f [a, b] = Ok y)"
  unfolding res_bind_eq_Ok decode_table_iff length2_iff by blast

lemma table3_bind:
  "res_bind (decode_table bs 3 ty) f = Ok y \<longleftrightarrow>
     (\<exists>a b c. bs = encode_table [a, b, c] \<and> table_size [a, b, c] < 2 ^ 32 \<and> f [a, b, c] = Ok y)"
  unfolding res_bind_eq_Ok decode_table_iff length3_iff by blast

lemma table6_bind:
  "res_bind (decode_table bs 6 ty) fn = Ok y \<longleftrightarrow>
     (\<exists>a b c d e f. bs = encode_table [a, b, c, d, e, f] \<and> table_size [a, b, c, d, e, f] < 2 ^ 32
        \<and> fn [a, b, c, d, e, f] = Ok y)"
  unfolding res_bind_eq_Ok decode_table_iff length6_iff by blast

lemmas table_binds = table2_bind table3_bind table6_bind

lemma table_size_simps [simp]:
  "table_size [] = 4" "table_size (f # fs) = 4 + length f + table_size fs"
  by (simp_all add: table_size_def)

lemma table_size_member: "f \<in> set fs \<Longrightarrow> length f < table_size fs"
  by (induction fs) auto

lemma table_size_count: "length fs < table_size fs"
  by (induction fs) auto

lemma length_encode_bytes [simp]: "length (encode_bytes bs) = 4 + length bs"
  by (simp add: encode_bytes_def)

lemma length_encode_bytes_vec [simp]: "length (encode_bytes_vec bss) = table_size (map encode_bytes bss)"
  by (simp add: encode_bytes_vec_def length_encode_dynvec)

lemma bytes_vec_bounds:
  assumes "table_size (map encode_bytes bss) < 2 ^ 32"
  shows "\<forall>b\<in>set bss. short32 b" and "short32 bss"
proof -
  show "\<forall>b\<in>set bss. short32 b"
  proof
    fix b assume "b \<in> set bss"
    then have "encode_bytes b \<in> set (map encode_bytes bss)" by simp
    from table_size_member[OF this] assms show "short32 b" by (simp add: short32_def)
  qed
  show "short32 bss" using table_size_count[of "map encode_bytes bss"] assms by (simp add: short32_def)
qed

lemma length_encode_table_ne [simp]: "encode_table fs \<noteq> []"
proof
  assume "encode_table fs = []"
  then have "table_size fs = 0" using length_encode_table[of fs] by simp
  then show False by (simp add: table_size_def)
qed

lemma length_serialize_script:
  "length (serialize_script_molecule s) = 21 + length (sc_code_hash s) + length (sc_args s)"
  by (simp add: serialize_script_molecule_def)

lemma deserialize_script_iff [mol_iff]:
  "deserialize_script_molecule bs = Ok s \<longleftrightarrow>
     wf_script s \<and> length bs < 2 ^ 32 \<and> bs = serialize_script_molecule s"
  unfolding deserialize_script_molecule_def table_binds
  by (cases s) (auto simp: serialize_script_molecule_def res_simps mol_iff
      wf_script_def short32_def)

lemma decode_script_opt_iff [mol_iff]:
  "decode_script_opt bs = Ok s \<longleftrightarrow>
     pred_option wf_script s \<and> length bs < 2 ^ 32 \<and> bs = encode_script_opt s"
proof (cases s)
  case (Some t)
  have "encode_script_opt (Some t) \<noteq> []" by (simp add: encode_script_opt_def serialize_script_molecule_def)
  with Some show ?thesis
    by (auto simp: decode_script_opt_def encode_script_opt_def res_simps deserialize_script_iff)
qed (auto simp: decode_script_opt_def encode_script_opt_def res_simps)

lemma deserialize_cell_output_iff [mol_iff]:
  "deserialize_cell_output_molecule bs = Ok out \<longleftrightarrow>
     wf_output out \<and> length bs < 2 ^ 32 \<and> bs = serialize_cell_output_molecule out"
  unfolding deserialize_cell_output_molecule_def table_binds
  by (cases out) (auto simp: serialize_cell_output_molecule_def
      res_simps mol_iff wf_output_def)

interpretation output_codec: canonical_codec serialize_cell_output_molecule deserialize_cell_output_molecule
  "\<lambda>out. wf_output out \<and> length (serialize_cell_output_molecule out) < 2 ^ 32"
  by unfold_locales (auto simp: deserialize_cell_output_iff)

lemma decode_outputs_iff [mol_iff]:
  "decode_dynvec_cell_outputs bs = Ok outs \<longleftrightarrow>
     (\<forall>out\<in>set outs. wf_output out) \<and> length bs < 2 ^ 32
     \<and> bs = encode_dynvec (map serialize_cell_output_molecule outs)"
proof -
  have "length (serialize_cell_output_molecule out) < 2 ^ 32"
    if "out \<in> set outs" "table_size (map serialize_cell_output_molecule outs) < 2 ^ 32" for out
    using table_size_member[of "serialize_cell_output_molecule out" "map serialize_cell_output_molecule outs"] that
    by simp
  then show ?thesis
    by (auto simp: decode_dynvec_cell_outputs_def res_simps decode_dynvec_iff output_codec.map_decode_iff
        length_encode_dynvec)
qed

lemmas fixvec_iffs = outpoint_codec.decode_fixvec_iff input_codec.decode_fixvec_iff
  dep_codec.decode_fixvec_iff byte32_codec.decode_fixvec_iff

lemma length_encode_fixvec: "length (encode_fixvec enc xs) = 4 + (\<Sum>x\<leftarrow>xs. length (enc x))"
  by (simp add: encode_fixvec_def length_concat comp_def)

lemma fixvec_count: "(\<And>x. x \<in> set xs \<Longrightarrow> 0 < length (enc x)) \<Longrightarrow> length xs < length (encode_fixvec enc xs)"
proof (induction xs)
  case (Cons x xs)
  from Cons.IH Cons.prems have "length xs < length (encode_fixvec enc xs)" by simp
  moreover from Cons.prems have "0 < length (enc x)" by simp
  ultimately show ?case unfolding length_encode_fixvec list.map sum_list.Cons list.size by linarith
qed (simp add: length_encode_fixvec)

definition wf_raw_tx :: "cell_tx \<Rightarrow> bool" where
  "wf_raw_tx tx = wf_tx (tx\<lparr>tx_witnesses := []\<rparr>)"

lemma wf_tx_raw: "wf_tx tx \<longleftrightarrow> wf_raw_tx tx \<and> (\<forall>w\<in>set (tx_witnesses tx). short32 w) \<and> short32 (tx_witnesses tx)"
  by (auto simp: wf_raw_tx_def wf_tx_def short32_def)

lemma raw_counts:
  assumes "length (serialize_raw_transaction_molecule tx) < 2 ^ 32"
    and "\<forall>d\<in>set (tx_cell_deps tx). wf_dep d" "\<forall>i\<in>set (tx_inputs tx). wf_input i"
    and "\<forall>h\<in>set (tx_header_deps tx). length h = 32"
  shows "short32 (tx_cell_deps tx)" "short32 (tx_inputs tx)" "short32 (tx_header_deps tx)"
    "short32 (tx_outputs tx)" "\<forall>d\<in>set (tx_outputs_data tx). short32 d"
    "table_size (map encode_bytes (tx_outputs_data tx)) < 2 ^ 32"
proof -
  note small = assms(1)[unfolded serialize_raw_transaction_molecule_def, simplified]
  have "length (tx_cell_deps tx) < length (encode_fixvec serialize_cell_dep_molecule (tx_cell_deps tx))"
    by (rule fixvec_count) (simp add: dep_codec.length_encode assms(2))
  with small show "short32 (tx_cell_deps tx)" by (simp add: short32_def)
  have "length (tx_inputs tx) < length (encode_fixvec serialize_cell_input_molecule (tx_inputs tx))"
    by (rule fixvec_count) (simp add: input_codec.length_encode assms(3))
  with small show "short32 (tx_inputs tx)" by (simp add: short32_def)
  have "length (tx_header_deps tx) < length (encode_fixvec (\<lambda>h. h) (tx_header_deps tx))"
    by (rule fixvec_count) (simp add: assms(4))
  with small show "short32 (tx_header_deps tx)" by (simp add: short32_def)
  show "short32 (tx_outputs tx)"
    using small table_size_count[of "map serialize_cell_output_molecule (tx_outputs tx)"]
    by (simp add: short32_def length_encode_dynvec)
  show data: "table_size (map encode_bytes (tx_outputs_data tx)) < 2 ^ 32"
    using small by simp
  then show "\<forall>d\<in>set (tx_outputs_data tx). short32 d" by (rule bytes_vec_bounds(1))
qed

lemma wf_raw_tx_alt:
  "wf_raw_tx tx \<longleftrightarrow>
     (\<forall>i\<in>set (tx_inputs tx). wf_input i) \<and> (\<forall>d\<in>set (tx_cell_deps tx). wf_dep d)
     \<and> (\<forall>h\<in>set (tx_header_deps tx). length h = 32) \<and> (\<forall>out\<in>set (tx_outputs tx). wf_output out)
     \<and> (\<forall>d\<in>set (tx_outputs_data tx). short32 d)
     \<and> short32 (tx_inputs tx) \<and> short32 (tx_cell_deps tx) \<and> short32 (tx_header_deps tx)
     \<and> short32 (tx_outputs tx) \<and> length (tx_outputs_data tx) = length (tx_outputs tx)"
  by (auto simp: wf_raw_tx_def wf_tx_def wf_input_def wf_dep_def short32_def)

lemma deserialize_raw_tx_iff [mol_iff]:
  "deserialize_raw_transaction_molecule bs = Ok tx \<longleftrightarrow>
     wf_raw_tx tx \<and> tx_witnesses tx = [] \<and> length bs < 2 ^ 32
     \<and> bs = serialize_raw_transaction_molecule tx" (is "?l \<longleftrightarrow> ?r")
proof
  assume ?l
  then have parts: "bs = serialize_raw_transaction_molecule tx" "length bs < 2 ^ 32" "tx_witnesses tx = []"
    "\<forall>i\<in>set (tx_inputs tx). wf_input i" "\<forall>d\<in>set (tx_cell_deps tx). wf_dep d"
    "\<forall>h\<in>set (tx_header_deps tx). length h = 32" "\<forall>out\<in>set (tx_outputs tx). wf_output out"
    "length (tx_outputs_data tx) = length (tx_outputs tx)"
    unfolding deserialize_raw_transaction_molecule_def table_binds
    by (auto simp: serialize_raw_transaction_molecule_def
        res_simps mol_iff fixvec_iffs  split: if_splits)
  then show ?r using raw_counts[of tx] by (simp add: wf_raw_tx_alt)
next
  assume r: ?r
  then have "wf_raw_tx tx" and small: "length (serialize_raw_transaction_molecule tx) < 2 ^ 32" by auto
  then have w: "\<forall>i\<in>set (tx_inputs tx). wf_input i" "\<forall>d\<in>set (tx_cell_deps tx). wf_dep d"
    "\<forall>h\<in>set (tx_header_deps tx). length h = 32" "\<forall>out\<in>set (tx_outputs tx). wf_output out"
    "length (tx_outputs_data tx) = length (tx_outputs tx)"
    by (simp_all add: wf_raw_tx_alt)
  note c = raw_counts[OF small w(2) w(1) w(3)]
  have "decode_dynvec_cell_outputs (encode_dynvec (map serialize_cell_output_molecule (tx_outputs tx)))
      = Ok (tx_outputs tx)"
    using small w(4) by (simp add: decode_outputs_iff serialize_raw_transaction_molecule_def)
  moreover have "decode_bytes_vec (encode_bytes_vec (tx_outputs_data tx)) ''RawTransaction.outputs_data''
      = Ok (tx_outputs_data tx)"
    using c by (simp add: decode_bytes_vec_iff)
  moreover have "decode_table (serialize_raw_transaction_molecule tx) 6 ''RawTransaction''
      = Ok [u32_le (tx_version tx),
      encode_fixvec serialize_cell_dep_molecule (tx_cell_deps tx), encode_fixvec (\<lambda>h. h) (tx_header_deps tx),
      encode_fixvec serialize_cell_input_molecule (tx_inputs tx),
      encode_dynvec (map serialize_cell_output_molecule (tx_outputs tx)),
      encode_bytes_vec (tx_outputs_data tx)]"
    using small unfolding serialize_raw_transaction_molecule_def length_encode_table decode_table_iff by simp
  moreover note dep_codec.decode_fixvec_encode[OF c(1) w(2)] input_codec.decode_fixvec_encode[OF c(2) w(1)]
    byte32_codec.decode_fixvec_encode[OF c(3) w(3)]
  moreover from r have "bs = serialize_raw_transaction_molecule tx" "tx_witnesses tx = []" by auto
  moreover have "decode_u32 (u32_le (tx_version tx)) ''RawTransaction.version'' = Ok (tx_version tx)"
    by (simp add: decode_u32_def)
  ultimately show ?l
    by (simp only: deserialize_raw_transaction_molecule_def res_bind_simps nth_Cons_0 nth_Cons_numeral)
      (simp add: w(5))
qed

lemma raw_witness_update [simp]:
  "wf_raw_tx (tx\<lparr>tx_witnesses := ws\<rparr>) = wf_raw_tx tx"
  "serialize_raw_transaction_molecule (tx\<lparr>tx_witnesses := ws\<rparr>) = serialize_raw_transaction_molecule tx"
  by (simp_all add: wf_raw_tx_def serialize_raw_transaction_molecule_def)

lemma deserialize_tx_parts:
  "deserialize_transaction_molecule bs = Ok tx \<longleftrightarrow>
     bs = serialize_transaction_molecule tx \<and> length bs < 2 ^ 32
     \<and> deserialize_raw_transaction_molecule (serialize_raw_transaction_molecule tx)
          = Ok (tx\<lparr>tx_witnesses := []\<rparr>)
     \<and> decode_bytes_vec (encode_bytes_vec (tx_witnesses tx)) ''Transaction.witnesses'' = Ok (tx_witnesses tx)"
  (is "?l \<longleftrightarrow> ?r")
proof
  assume ?l
  then obtain raw rtx ws where raw: "deserialize_raw_transaction_molecule raw = Ok rtx"
    and bs: "bs = encode_table [raw, encode_bytes_vec ws]" "length bs < 2 ^ 32"
    and ws: "decode_bytes_vec (encode_bytes_vec ws) ''Transaction.witnesses'' = Ok ws"
    and tx: "tx = rtx\<lparr>tx_witnesses := ws\<rparr>"
    unfolding deserialize_transaction_molecule_def table_binds
    by (auto simp: res_bind_eq_Ok decode_bytes_vec_iff)
  from raw have rawtx: "raw = serialize_raw_transaction_molecule tx" and "tx_witnesses rtx = []"
    unfolding tx deserialize_raw_tx_iff by simp_all
  then have rtx: "rtx = tx\<lparr>tx_witnesses := []\<rparr>" unfolding tx by (cases rtx) simp
  have "tx_witnesses tx = ws" unfolding tx by simp
  with bs ws raw[unfolded rawtx rtx] show ?r
    unfolding serialize_transaction_molecule_def rawtx by blast
next
  assume ?r
  then show ?l
    unfolding deserialize_transaction_molecule_def table_binds serialize_transaction_molecule_def
      length_encode_table
    by fastforce
qed

text \<open>
  \<^bold>\<open>C8\<close>. Decoding a transaction succeeds with \<open>tx\<close> exactly on the bytes the serializer writes
  for \<open>tx\<close>, for the transactions that meet the type bounds and whose encoding is shorter than
  4 GiB: the Molecule form of a transaction round-trips and is unique, and every other byte
  string is rejected.
\<close>

theorem deserialize_transaction_molecule_iff:
  "deserialize_transaction_molecule bs = Ok tx \<longleftrightarrow>
     wf_tx tx \<and> length bs < 2 ^ 32 \<and> bs = serialize_transaction_molecule tx"
  using bytes_vec_bounds[of "tx_witnesses tx"] unfolding deserialize_tx_parts wf_tx_raw
  by (auto simp: deserialize_raw_tx_iff decode_bytes_vec_iff serialize_transaction_molecule_def)

section \<open>Witness arguments and dep-group vectors\<close>

lemma length_encode_bytes_opt: "length (encode_bytes_opt x) < 2 ^ 32 \<Longrightarrow> pred_option short32 x"
  by (cases x) (auto simp: encode_bytes_opt_def short32_def)

lemma deserialize_ckb_witness_args_iff:
  "deserialize_ckb_witness_args_molecule bs = Ok w \<longleftrightarrow>
     length bs < 2 ^ 32 \<and> bs = serialize_ckb_witness_args_molecule w"
  unfolding deserialize_ckb_witness_args_molecule_def table_binds
  by (cases w) (auto simp: serialize_ckb_witness_args_molecule_def res_bind_eq_Ok decode_bytes_opt_iff
      intro!: length_encode_bytes_opt)

interpretation witness_args_codec: canonical_codec
  serialize_ckb_witness_args_molecule deserialize_ckb_witness_args_molecule
  "\<lambda>w. length (serialize_ckb_witness_args_molecule w) < 2 ^ 32"
  by unfold_locales (auto simp: deserialize_ckb_witness_args_iff)

lemma deserialize_outpoint_vec_nonempty:
  "deserialize_ckb_outpoint_vec_molecule bs = Ok ps \<longleftrightarrow>
     ps \<noteq> [] \<and> decode_fixvec 36 deserialize_outpoint_molecule ''OutPointVec'' bs = Ok ps"
proof -
  have "ps = [] \<longleftrightarrow> n = 0" if "length bs = 4 + n * 36"
    "map_res deserialize_outpoint_molecule (chunks_exact 36 (drop 4 bs)) = Ok ps" for n
    using concat_chunks_exact[of "drop 4 bs" 36 n] map_res_length[OF that(2)] that(1) by auto
  then show ?thesis
    by (auto simp: deserialize_ckb_outpoint_vec_molecule_def decode_fixvec_def res_bind_eq_Ok invalid_def
        split: if_splits)
qed

lemma deserialize_ckb_outpoint_vec_iff:
  "deserialize_ckb_outpoint_vec_molecule bs = Ok ps \<longleftrightarrow>
     short32 ps \<and> (\<forall>p\<in>set ps. wf_outpoint p) \<and> serialize_ckb_outpoint_vec_molecule ps = Ok bs"
  by (auto simp: deserialize_outpoint_vec_nonempty outpoint_codec.decode_fixvec_iff
      serialize_ckb_outpoint_vec_molecule_def invalid_def)

end
