(* ===== verification/Typed_Cells.thy ===== *)
theory Typed_Cells
  imports Cell_Types
begin

text \<open>
  Typed-cell classification of \<open>exec/src/celltx/types.rs\<close>: the six axes, the declaration
  with its validation rules, the script identity that keys the registries, the canonical
  composite key encoding and the two domain-separated hashes. The BLAKE3 function is the
  parameter \<open>b3\<close> of every definition that hashes.
\<close>

section \<open>The classification axes\<close>

datatype cell_ownership = Owned | Shared | Party | Immutable | Ephemeral
datatype cell_mutability = Linear | Versioned | AppendOnly | Migratable
datatype cell_accounting = Fungible | NonFungible | Receipt | StorageClaim
datatype cell_identity =
    IdOutPoint | IdTypeId | IdSingleton | IdField string | IdComposite "string list"
datatype cell_settlement = SettleLocal | SettleCommitted | SettlePending
datatype conflict_key_spec = KeyCellId | KeyField string | KeyComposite "string list" | KeyNone

record runtime_cell_semantics =
  rs_ownership :: cell_ownership
  rs_conflict_key :: conflict_key_spec

record typed_cell_semantic_metadata =
  sm_mutability :: cell_mutability
  sm_accounting :: "cell_accounting list"
  sm_identity :: cell_identity
  sm_settlement :: cell_settlement

record typed_cell_decl =
  td_runtime :: runtime_cell_semantics
  td_semantic :: typed_cell_semantic_metadata

section \<open>Script identity and the declaration store\<close>

text \<open>\<open>ScriptId\<close> is ordered field by field: code hash, hash type, hash of the args.\<close>

type_synonym script_id = "bytes \<times> u8 \<times> bytes"

definition script_id_from_script :: "(bytes \<Rightarrow> bytes) \<Rightarrow> script \<Rightarrow> script_id" where
  "script_id_from_script b3 s = (sc_code_hash s, sc_hash_type s, b3 (sc_args s))"

type_synonym typed_cell_store = "(script_id, typed_cell_decl) btree"

definition store_get_decl ::
  "(bytes \<Rightarrow> bytes) \<Rightarrow> typed_cell_store \<Rightarrow> script \<Rightarrow> typed_cell_decl option" where
  "store_get_decl b3 st s = bt_get st (script_id_from_script b3 s)"

definition store_insert_decl ::
  "(bytes \<Rightarrow> bytes) \<Rightarrow> typed_cell_store \<Rightarrow> script \<Rightarrow> typed_cell_decl \<Rightarrow> typed_cell_store" where
  "store_insert_decl b3 st s d = bt_insert (script_id_from_script b3 s) d st"

section \<open>Domain-separated hashes\<close>

definition conflict_hash_preimage :: "script \<Rightarrow> bytes \<Rightarrow> bytes" where
  "conflict_hash_preimage s key =
     str_bytes ''myelin-typed-cell/conflict-hash'' @ sc_code_hash s @ [sc_hash_type s]
     @ u32_le (as_u32 (length (sc_args s))) @ sc_args s
     @ u32_le (as_u32 (length key)) @ key"

definition compute_conflict_hash :: "(bytes \<Rightarrow> bytes) \<Rightarrow> script \<Rightarrow> bytes \<Rightarrow> bytes" where
  "compute_conflict_hash b3 s key = b3 (conflict_hash_preimage s key)"

definition typed_data_hash_preimage :: "script \<Rightarrow> bytes \<Rightarrow> bytes" where
  "typed_data_hash_preimage s data =
     str_bytes ''myelin-typed-cell/typed-data-hash'' @ sc_code_hash s @ [sc_hash_type s]
     @ u32_le (as_u32 (length (sc_args s))) @ sc_args s
     @ u32_le (as_u32 (length data)) @ data"

definition compute_typed_data_hash :: "(bytes \<Rightarrow> bytes) \<Rightarrow> script \<Rightarrow> bytes \<Rightarrow> bytes" where
  "compute_typed_data_hash b3 s data = b3 (typed_data_hash_preimage s data)"

definition encode_conflict_key_value_composite :: "bytes list \<Rightarrow> bytes" where
  "encode_conflict_key_value_composite flds =
     concat (map (\<lambda>field. u32_le (as_u32 (length field)) @ field) flds)"

section \<open>Validation of declarations\<close>

text \<open>
  \<open>field.trim().is_empty()\<close>: every character of the UTF-8 string is Unicode white space.
  The white space characters outside ASCII are the two- and three-byte sequences below.
\<close>

definition ws1 :: "u8 \<Rightarrow> bool" where
  "ws1 b = (b = 32 \<or> 9 \<le> b \<and> b \<le> 13)"

definition ws2 :: "u8 \<Rightarrow> u8 \<Rightarrow> bool" where
  "ws2 b c = (b = 0xC2 \<and> (c = 0x85 \<or> c = 0xA0))"

definition ws3 :: "u8 \<Rightarrow> u8 \<Rightarrow> u8 \<Rightarrow> bool" where
  "ws3 b c d =
     (b = 0xE1 \<and> c = 0x9A \<and> d = 0x80
      \<or> b = 0xE2 \<and> c = 0x80 \<and> (0x80 \<le> d \<and> d \<le> 0x8A \<or> d = 0xA8 \<or> d = 0xA9 \<or> d = 0xAF)
      \<or> b = 0xE2 \<and> c = 0x81 \<and> d = 0x9F
      \<or> b = 0xE3 \<and> c = 0x80 \<and> d = 0x80)"

fun all_whitespace :: "bytes \<Rightarrow> bool" where
  "all_whitespace [] = True"
| "all_whitespace (b # bs) =
     (if ws1 b then all_whitespace bs
      else case bs of
        [] \<Rightarrow> False
      | c # cs \<Rightarrow>
          if ws2 b c then all_whitespace cs
          else (case cs of [] \<Rightarrow> False | d # ds \<Rightarrow> ws3 b c d \<and> all_whitespace ds))"

definition trim_is_empty :: "string \<Rightarrow> bool" where
  "trim_is_empty s = all_whitespace (str_bytes s)"

datatype typed_cell_decl_error =
    MutableCellWithNoneConflictKey
  | EmptyConflictField
  | EmptyCompositeConflictKey
  | DuplicateConflictField string
  | ImmutableWithMutableMutability cell_mutability
  | ConflictingAccountingLabels
  | EphemeralWithNonLocalSettlement

fun check_composite_fields :: "string list \<Rightarrow> string list \<Rightarrow> typed_cell_decl_error + unit" where
  "check_composite_fields seen [] = Ok ()"
| "check_composite_fields seen (f # fs) =
     (if trim_is_empty f then Err EmptyConflictField
      else if f \<in> set seen then Err (DuplicateConflictField f)
      else check_composite_fields (f # seen) fs)"

definition check_runtime_scheduling_rules :: "typed_cell_decl \<Rightarrow> typed_cell_decl_error + unit" where
  "check_runtime_scheduling_rules decl =
     (let can_write = (rs_ownership (td_runtime decl) \<notin> {Immutable, Ephemeral});
          key = rs_conflict_key (td_runtime decl)
      in if can_write \<and> key = KeyNone then Err MutableCellWithNoneConflictKey
         else case key of
             KeyField f \<Rightarrow> if trim_is_empty f then Err EmptyConflictField else Ok ()
           | KeyComposite fs \<Rightarrow>
               if fs = [] then Err EmptyCompositeConflictKey else check_composite_fields [] fs
           | _ \<Rightarrow> Ok ())"

definition check_semantic_consistency_rules :: "typed_cell_decl \<Rightarrow> typed_cell_decl_error + unit" where
  "check_semantic_consistency_rules decl =
     (let own = rs_ownership (td_runtime decl); sem = td_semantic decl
      in if own = Immutable \<and> sm_mutability sem \<noteq> Linear
         then Err (ImmutableWithMutableMutability (sm_mutability sem))
         else if Fungible \<in> set (sm_accounting sem) \<and> NonFungible \<in> set (sm_accounting sem)
         then Err ConflictingAccountingLabels
         else if own = Ephemeral \<and> sm_settlement sem \<noteq> SettleLocal
         then Err EphemeralWithNonLocalSettlement
         else Ok ())"

definition validate_typed_cell_decl :: "typed_cell_decl \<Rightarrow> typed_cell_decl_error + unit" where
  "validate_typed_cell_decl decl =
     res_bind (check_runtime_scheduling_rules decl)
       (\<lambda>_. check_semantic_consistency_rules decl)"

section \<open>Lemmas\<close>

lemma check_composite_fields_Ok:
  "check_composite_fields seen fs = Ok () \<longleftrightarrow>
     (\<forall>f\<in>set fs. \<not> trim_is_empty f) \<and> distinct fs \<and> set fs \<inter> set seen = {}"
  by (induction seen fs rule: check_composite_fields.induct) auto

definition key_schema_ok :: "conflict_key_spec \<Rightarrow> bool" where
  "key_schema_ok key =
     (case key of
        KeyField f \<Rightarrow> \<not> trim_is_empty f
      | KeyComposite fs \<Rightarrow> fs \<noteq> [] \<and> distinct fs \<and> (\<forall>f\<in>set fs. \<not> trim_is_empty f)
      | _ \<Rightarrow> True)"

lemma check_runtime_scheduling_rules_Ok:
  "check_runtime_scheduling_rules decl = Ok () \<longleftrightarrow>
     (rs_conflict_key (td_runtime decl) = KeyNone
        \<longrightarrow> rs_ownership (td_runtime decl) \<in> {Immutable, Ephemeral})
     \<and> key_schema_ok (rs_conflict_key (td_runtime decl))"
  by (auto simp: check_runtime_scheduling_rules_def key_schema_ok_def Let_def
      check_composite_fields_Ok split: conflict_key_spec.splits)

lemma check_semantic_consistency_rules_Ok:
  "check_semantic_consistency_rules decl = Ok () \<longleftrightarrow>
     (rs_ownership (td_runtime decl) = Immutable \<longrightarrow> sm_mutability (td_semantic decl) = Linear)
     \<and> \<not> {Fungible, NonFungible} \<subseteq> set (sm_accounting (td_semantic decl))
     \<and> (rs_ownership (td_runtime decl) = Ephemeral
          \<longrightarrow> sm_settlement (td_semantic decl) = SettleLocal)"
  by (auto simp: check_semantic_consistency_rules_def Let_def)

definition wf_composite :: "bytes list \<Rightarrow> bool" where
  "wf_composite flds = (\<forall>f\<in>set flds. short32 f)"

lemma composite_alt: "encode_conflict_key_value_composite = (\<lambda>fs. concat (map len32_bytes fs))"
  by (simp add: encode_conflict_key_value_composite_def len32_bytes_def[abs_def] fun_eq_iff)

lemma concat_len32_inj:
  assumes "\<forall>f\<in>set fs. short32 f" "\<forall>g\<in>set gs. short32 g"
    and "concat (map len32_bytes fs) = concat (map len32_bytes gs)"
  shows "fs = gs"
  using assms
proof (induction fs arbitrary: gs)
  case Nil
  then show ?case by (cases gs) auto
next
  case (Cons f fs)
  from Cons.prems(3) obtain g gs' where gs: "gs = g # gs'"
    by (cases gs) auto
  with Cons.prems have "len32_bytes f @ concat (map len32_bytes fs)
      = len32_bytes g @ concat (map len32_bytes gs')" by simp
  with Cons.prems gs have "f = g \<and> concat (map len32_bytes fs) = concat (map len32_bytes gs')"
    by (intro len32_code.prefix_inj) auto
  with Cons.IH[of gs'] Cons.prems gs show ?case by simp
qed

lemma script_body_inj:
  assumes "wf_script s" "wf_script t"
    and "sc_code_hash s @ [sc_hash_type s] @ len32_bytes (sc_args s) @ r
       = sc_code_hash t @ [sc_hash_type t] @ len32_bytes (sc_args t) @ r'"
  shows "s = t \<and> r = r'"
proof -
  from assms have h: "sc_code_hash s = sc_code_hash t"
    and rest: "sc_hash_type s # len32_bytes (sc_args s) @ r
             = sc_hash_type t # len32_bytes (sc_args t) @ r'"
    by (auto simp: wf_script_def append_eq_append_conv)
  from rest assms have "sc_args s = sc_args t \<and> r = r'"
    by (intro len32_code.prefix_inj) (auto simp: wf_script_def)
  with h rest show ?thesis by (cases s; cases t) auto
qed

interpretation script_code: prefix_code
  "\<lambda>s. sc_code_hash s @ [sc_hash_type s] @ len32_bytes (sc_args s)" wf_script
proof
  fix s t r r'
  assume "wf_script s" "wf_script t"
    and "(sc_code_hash s @ [sc_hash_type s] @ len32_bytes (sc_args s)) @ r
       = (sc_code_hash t @ [sc_hash_type t] @ len32_bytes (sc_args t)) @ r'"
  then show "s = t \<and> r = r'" by (intro script_body_inj) simp_all
qed

lemma conflict_hash_preimage_inj:
  assumes "wf_script s" "wf_script t" "short32 key" "short32 key'"
    and "conflict_hash_preimage s key = conflict_hash_preimage t key'"
  shows "s = t \<and> key = key'"
proof -
  from assms(5) have "sc_code_hash s @ [sc_hash_type s] @ len32_bytes (sc_args s) @ len32_bytes key
     = sc_code_hash t @ [sc_hash_type t] @ len32_bytes (sc_args t) @ len32_bytes key'"
    by (simp add: conflict_hash_preimage_def len32_bytes_def)
  with assms script_body_inj len32_code.enc_inj show ?thesis by blast
qed

lemma typed_data_hash_preimage_inj:
  assumes "wf_script s" "wf_script t" "short32 data" "short32 data'"
    and "typed_data_hash_preimage s data = typed_data_hash_preimage t data'"
  shows "s = t \<and> data = data'"
proof -
  from assms(5) have "sc_code_hash s @ [sc_hash_type s] @ len32_bytes (sc_args s) @ len32_bytes data
     = sc_code_hash t @ [sc_hash_type t] @ len32_bytes (sc_args t) @ len32_bytes data'"
    by (simp add: typed_data_hash_preimage_def len32_bytes_def)
  with assms script_body_inj len32_code.enc_inj show ?thesis by blast
qed

text \<open>The two hashes never hash the same bytes: their domains differ within 32 bytes.\<close>

lemma conflict_typed_domains_disjoint:
  "conflict_hash_preimage s key \<noteq> typed_data_hash_preimage t data"
proof
  assume "conflict_hash_preimage s key = typed_data_hash_preimage t data"
  then have "conflict_hash_preimage s key ! 18 = typed_data_hash_preimage t data ! 18" by simp
  then show False
    by (simp add: conflict_hash_preimage_def typed_data_hash_preimage_def str_bytes_def nth_append)
qed

end
