(* ===== verification/U3072.thy ===== *)
theory U3072
  imports Myelin_Base
begin

text \<open>
  The 3072-bit field arithmetic behind the state root
  (\<open>crypto/muhash/src/u3072.rs\<close>). A number is its array of 48 little-endian
  64-bit limbs; the modulus is \<open>p = 2 ^ 3072 - 1103717\<close>. The carry chains are modelled limb
  by limb on machine words, with the double-limb products in 128 bits. The lemmas show that
  they compute on the represented numbers: \<open>is_overflow\<close> is the test against \<open>p\<close>,
  \<open>full_reduce\<close> adds the difference, and \<open>mul\<close> multiplies modulo \<open>p\<close> without ever
  failing one of its assertions.
\<close>

section \<open>Limb operations\<close>

type_synonym limb = u64
type_synonym double_limb = "128 word"

definition LIMBS :: nat where "LIMBS = 48"
definition PRIME_DIFF :: limb where "PRIME_DIFF = 1103717"

definition overflowing_add :: "limb \<Rightarrow> limb \<Rightarrow> limb \<times> bool" where
  "overflowing_add a b = (a + b, a + b < a)"

definition as_limb :: "bool \<Rightarrow> limb" where
  "as_limb b = (if b then 1 else 0)"

definition dbl :: "limb \<Rightarrow> double_limb" where "dbl a = ucast a"
definition low_limb :: "double_limb \<Rightarrow> limb" where "low_limb t = ucast t"
definition shr_limb :: "double_limb \<Rightarrow> double_limb" where "shr_limb t = drop_bit 64 t"

definition mul_wide :: "limb \<Rightarrow> limb \<Rightarrow> limb \<times> limb" where
  "mul_wide a b = (let t = dbl a * dbl b in (low_limb t, low_limb (shr_limb t)))"

definition mulnadd3 :: "limb \<Rightarrow> limb \<Rightarrow> limb \<Rightarrow> limb \<Rightarrow> limb \<Rightarrow> limb \<Rightarrow> limb \<times> limb \<times> limb" where
  "mulnadd3 c0 c1 d0 d1 d2 n =
     (let t = dbl d0 * dbl n + dbl c0;
          c0' = low_limb t;
          t = shr_limb t;
          t = t + (dbl d1 * dbl n + dbl c1);
          c1' = low_limb t;
          t = shr_limb t;
          c2' = low_limb t + d2 * n
      in (c0', c1', c2'))"

definition muladd3 :: "limb \<Rightarrow> limb \<Rightarrow> limb \<times> limb \<times> limb \<Rightarrow> limb \<times> limb \<times> limb" where
  "muladd3 a b lhc =
     (let (low, high, carry) = lhc;
          (tl, th) = mul_wide a b;
          (low, overflow) = overflowing_add low tl;
          th = th + as_limb overflow;
          (high, overflow) = overflowing_add high th;
          carry = carry + as_limb overflow
      in (low, high, carry))"

definition muln2 :: "limb \<Rightarrow> limb \<Rightarrow> limb \<Rightarrow> limb \<times> limb" where
  "muln2 low high n =
     (let tmp = dbl low * dbl n;
          low' = low_limb tmp;
          tmp = shr_limb tmp;
          tmp = tmp + dbl high * dbl n
      in (low', low_limb tmp))"

section \<open>Numbers\<close>

type_synonym u3072 = "limb list"

definition u3072_zero :: u3072 where "u3072_zero = replicate LIMBS 0"
definition u3072_one :: u3072 where "u3072_one = u3072_zero[0 := 1]"

definition is_overflow :: "u3072 \<Rightarrow> bool" where
  "is_overflow xs =
     (if xs ! 0 \<le> -1 - PRIME_DIFF then False else list_all (\<lambda>limb. limb = -1) (drop 1 xs))"

text \<open>
  The carry loop shared by \<open>full_reduce\<close> and the second reduction of \<open>mul\<close>: a two-limb
  carry is added into the limbs; the resulting limbs and the carry left over are returned.
\<close>

fun add_carry :: "limb \<Rightarrow> limb \<Rightarrow> limb list \<Rightarrow> limb list \<times> limb \<times> limb" where
  "add_carry low high [] = ([], low, high)"
| "add_carry low high (limb # limbs) =
     (let (low, overflow) = overflowing_add low limb;
          (high, overflow) = overflowing_add high (as_limb overflow);
          (rest, cl, ch) = add_carry high (as_limb overflow) limbs
      in (low # rest, cl, ch))"

definition full_reduce :: "u3072 \<Rightarrow> u3072" where
  "full_reduce xs = fst (add_carry PRIME_DIFF 0 xs)"

fun u3072_from_limbs :: "nat \<Rightarrow> bytes \<Rightarrow> limb list" where
  "u3072_from_limbs 0 bs = []"
| "u3072_from_limbs (Suc n) bs = u64_of_le (take 8 bs) # u3072_from_limbs n (drop 8 bs)"

definition u3072_from_le_bytes :: "bytes \<Rightarrow> u3072" where
  "u3072_from_le_bytes bs = u3072_from_limbs LIMBS bs"

definition u3072_to_le_bytes :: "u3072 \<Rightarrow> bytes" where
  "u3072_to_le_bytes xs = concat (map u64_le xs)"

section \<open>Multiplication\<close>

definition mul_high_column :: "u3072 \<Rightarrow> u3072 \<Rightarrow> nat \<Rightarrow> limb \<times> limb \<times> limb" where
  "mul_high_column x y j =
     (let (low, high) = mul_wide (x ! (j + 1)) (y ! (LIMBS + j - (1 + j)))
      in fold (\<lambda>i. muladd3 (x ! i) (y ! (LIMBS + j - i))) [2 + j ..< LIMBS] (low, high, 0))"

definition mul_step :: "u3072 \<Rightarrow> u3072 \<Rightarrow> nat \<Rightarrow> limb list \<times> limb \<times> limb \<times> limb \<Rightarrow> limb list \<times> limb \<times> limb \<times> limb" where
  "mul_step x y j st =
     (let (tmp, carry_low, carry_high, carry_highest) = st;
          (low, high, carry) = mul_high_column x y j;
          c = mulnadd3 carry_low carry_high low high carry PRIME_DIFF;
          (carry_low, carry_high, carry_highest) =
            fold (\<lambda>i. muladd3 (x ! i) (y ! (j - i))) [0 ..< j + 1] c
      in (tmp[j := carry_low], carry_high, carry_highest, 0))"

text \<open>\<open>None\<close> stands for a failed assertion.\<close>

definition u3072_mul :: "u3072 \<Rightarrow> u3072 \<Rightarrow> u3072 option" where
  "u3072_mul x y =
     (if x = u3072_one then Some y
      else
        let (tmp, carry_low, carry_high, carry_highest) =
              fold (mul_step x y) [0 ..< LIMBS - 1] (u3072_one, 0, 0, 0)
        in if carry_highest \<noteq> 0 then None
        else
          let (carry_low, carry_high, carry_highest) =
                fold (\<lambda>i. muladd3 (x ! i) (y ! (LIMBS - 1 - i))) [0 ..< LIMBS] (carry_low, carry_high, carry_highest);
              tmp = tmp[LIMBS - 1 := carry_low];
              (carry_low, carry_high) = (carry_high, carry_highest);
              (carry_low, carry_high) = muln2 carry_low carry_high PRIME_DIFF;
              (z, carry_low, carry_high) = add_carry carry_low carry_high tmp
          in if carry_high \<noteq> 0 \<or> \<not> (carry_low = 0 \<or> carry_low = 1) then None
          else
            let z = (if is_overflow z then full_reduce z else z);
                z = (if carry_low \<noteq> 0 then full_reduce z else z)
            in Some z)"

section \<open>Division\<close>

text \<open>
  The modular inverse of \<open>Uint3072\<close> is computed by an external big-number library; it is the
  parameter \<open>mod_inv\<close>, a function on the represented numbers.
\<close>

fun limbs_val :: "limb list \<Rightarrow> nat" where
  "limbs_val [] = 0"
| "limbs_val (x # xs) = unat x + 2 ^ 64 * limbs_val xs"

fun nat_to_limbs :: "nat \<Rightarrow> nat \<Rightarrow> limb list" where
  "nat_to_limbs 0 v = []"
| "nat_to_limbs (Suc n) v = word_of_nat (v mod 2 ^ 64) # nat_to_limbs n (v div 2 ^ 64)"

definition UINT_PRIME :: u3072 where
  "UINT_PRIME = (replicate LIMBS (- 1))[0 := - 1 - (PRIME_DIFF - 1)]"

definition uint3072_mod_inverse :: "(nat \<Rightarrow> nat \<Rightarrow> nat option) \<Rightarrow> u3072 \<Rightarrow> u3072 \<Rightarrow> u3072 option" where
  "uint3072_mod_inverse mod_inv x prime =
     map_option (nat_to_limbs LIMBS) (mod_inv (limbs_val x) (limbs_val prime))"

definition u3072_inverse :: "(nat \<Rightarrow> nat \<Rightarrow> nat option) \<Rightarrow> u3072 \<Rightarrow> u3072 option" where
  "u3072_inverse mod_inv x =
     (let a = (if is_overflow x then full_reduce x else x)
      in if a = u3072_zero then Some a else uint3072_mod_inverse mod_inv a UINT_PRIME)"

definition u3072_div :: "(nat \<Rightarrow> nat \<Rightarrow> nat option) \<Rightarrow> u3072 \<Rightarrow> u3072 \<Rightarrow> u3072 option" where
  "u3072_div mod_inv x y =
     (case (if is_overflow y then u3072_inverse mod_inv (full_reduce y) else u3072_inverse mod_inv y) of
        None \<Rightarrow> None
      | Some iv \<Rightarrow>
          (case u3072_mul (if is_overflow x then full_reduce x else x) iv of
             None \<Rightarrow> None
           | Some z \<Rightarrow> Some (if is_overflow z then full_reduce z else z)))"

section \<open>What the limb operations compute\<close>

abbreviation BB :: nat where "BB \<equiv> 2 ^ 64"

lemma unat_limb_less [simp]: "unat (x::limb) < 18446744073709551616"
  using unsigned_less[of x] by simp

lemma unat_dbl [simp]: "unat (dbl a) = unat a"
  unfolding dbl_def unsigned_ucast_eq take_bit_eq_mod
  by (rule mod_less, rule less_trans[OF unat_limb_less]) simp

lemma unat_low_limb: "unat (low_limb t) = unat t mod BB"
  by (simp add: low_limb_def unsigned_ucast_eq take_bit_eq_mod)

lemma unat_shr_limb: "unat (shr_limb t) = unat t div BB"
  by (simp add: shr_limb_def drop_bit_eq_div unat_div_distrib)

lemma mult_limb_bound: "a < BB \<Longrightarrow> b < BB \<Longrightarrow> a * b \<le> (BB - 1) * (BB - 1)"
  by (intro mult_mono) auto

lemma unat_dbl_mult [simp]: "unat (dbl a * dbl b) = unat a * unat b"
proof -
  have "unat a * unat b \<le> (BB - 1) * (BB - 1)" by (rule mult_limb_bound) simp_all
  then show ?thesis by (subst unat_mult_exact) simp_all
qed

definition val3 :: "limb \<times> limb \<times> limb \<Rightarrow> nat" where
  "val3 t = (case t of (l, h, c) \<Rightarrow> unat l + BB * unat h + BB * BB * unat c)"

lemma split_low: "(t::nat) mod BB + BB * (t div BB) = t"
  by (simp add: mult.commute)

lemma mul_wide_val: "mul_wide a b = (l, h) \<Longrightarrow> unat l + BB * unat h = unat a * unat b"
proof -
  assume m: "mul_wide a b = (l, h)"
  have "unat a * unat b \<le> (BB - 1) * (BB - 1)" by (rule mult_limb_bound) simp_all
  then have "unat a * unat b div BB < BB" by (simp add: div_less_iff_less_mult)
  with m show ?thesis
    using split_low[of "unat a * unat b"]
    by (auto simp: mul_wide_def Let_def unat_low_limb unat_shr_limb)
qed

lemma mul_wide_high: "mul_wide a b = (l, h) \<Longrightarrow> unat h + 1 < BB"
proof -
  assume m: "mul_wide a b = (l, h)"
  have "unat a * unat b \<le> (BB - 1) * (BB - 1)" by (rule mult_limb_bound) simp_all
  with mul_wide_val[OF m] show ?thesis by simp
qed

lemma mod_add_carry:
  assumes "x < n" "y < (n::nat)"
  shows "(x + y) mod n + n * (if (x + y) mod n < x then 1 else 0) = x + y"
proof (cases "x + y < n")
  case False
  then have "(x + y) mod n = x + y - n" using assms by (simp add: mod_if)
  with False assms show ?thesis by simp
qed simp

lemma overflowing_add_val:
  "overflowing_add a b = (c, f) \<Longrightarrow> unat c + BB * unat (as_limb f) = unat a + unat b"
  using mod_add_carry[of "unat a" BB "unat b"]
  by (auto simp: overflowing_add_def as_limb_def word_less_nat unat_word_ariths split: if_splits)

lemma muladd3_val:
  assumes "val3 (low, high, carry) + unat a * unat b < BB * BB * BB"
  shows "val3 (muladd3 a b (low, high, carry)) = val3 (low, high, carry) + unat a * unat b"
proof -
  obtain tl th where m: "mul_wide a b = (tl, th)" by fastforce
  obtain l' f where l: "overflowing_add low tl = (l', f)" by fastforce
  define th' where "th' = th + as_limb f"
  have th': "unat th' = unat th + unat (as_limb f)"
    unfolding th'_def using mul_wide_high[OF m]
    by (subst unat_add_exact) (auto simp: as_limb_def)
  obtain h' g where h: "overflowing_add high th' = (h', g)" by fastforce
  note eqs = mul_wide_val[OF m] overflowing_add_val[OF l] overflowing_add_val[OF h] th'
  have "BB * BB * (unat carry + unat (as_limb g)) < BB * BB * BB"
    using assms eqs by (simp add: val3_def)
  then have "unat carry + unat (as_limb g) < BB" by simp
  then have "unat (carry + as_limb g) = unat carry + unat (as_limb g)"
    by (subst unat_add_exact) simp_all
  with eqs show ?thesis
    by (simp add: muladd3_def m l h th'_def[symmetric] val3_def)
qed

lemma fold_muladd3_val:
  assumes "val3 s + (\<Sum>i\<leftarrow>is. unat (f i) * unat (g i)) < BB * BB * BB"
  shows "val3 (fold (\<lambda>i. muladd3 (f i) (g i)) is s) = val3 s + (\<Sum>i\<leftarrow>is. unat (f i) * unat (g i))"
  using assms
proof (induction "is" arbitrary: s)
  case (Cons i "is")
  obtain l h c where s: "s = (l, h, c)" by (cases s)
  from Cons.prems have "val3 (muladd3 (f i) (g i) s) = val3 s + unat (f i) * unat (g i)"
    unfolding s by (intro muladd3_val) simp
  with Cons.IH[of "muladd3 (f i) (g i) s"] Cons.prems show ?case by simp
qed simp

lemma unat_dbl_add [simp]: "unat (dbl a * dbl b + dbl c) = unat a * unat b + unat c"
proof -
  have "unat a * unat b \<le> (BB - 1) * (BB - 1)" by (rule mult_limb_bound) simp_all
  moreover have "unat c < BB" by simp
  ultimately have "unat a * unat b + unat c < BB * BB" by (simp del: unat_limb_less)
  then show ?thesis by (subst unat_add_exact) simp_all
qed

lemma carry_chain:
  fixes t u w :: nat
  shows "t mod BB + BB * (t div BB + u) = t + BB * u"
    and "t mod BB + BB * ((t div BB + u) mod BB) + BB * BB * ((t div BB + u) div BB + w)
      = t + BB * u + BB * BB * w"
proof -
  show one: "t mod BB + BB * (t div BB + u) = t + BB * u" for t u :: nat
    unfolding distrib_left using split_low[of t] by linarith
  define v where "v = t div BB + u"
  have "BB * (v mod BB + BB * (v div BB + w)) = BB * (v + BB * w)"
    unfolding one ..
  then have "BB * (v mod BB) + BB * BB * (v div BB + w) = BB * v + BB * BB * w"
    unfolding distrib_left mult.assoc by linarith
  then show "t mod BB + BB * ((t div BB + u) mod BB) + BB * BB * ((t div BB + u) div BB + w)
      = t + BB * u + BB * BB * w"
    unfolding v_def[symmetric] using one[of t u] unfolding v_def[symmetric] by linarith
qed

lemma mulnadd3_val:
  assumes "unat c0 + BB * unat c1 + unat n * val3 (d0, d1, d2) < BB * BB * BB"
  shows "val3 (mulnadd3 c0 c1 d0 d1 d2 n) = unat c0 + BB * unat c1 + unat n * val3 (d0, d1, d2)"
proof -
  define t1 where "t1 = unat d0 * unat n + unat c0"
  define t2 where "t2 = t1 div BB + (unat d1 * unat n + unat c1)"
  have b: "unat d0 * unat n \<le> (BB - 1) * (BB - 1)" "unat d1 * unat n \<le> (BB - 1) * (BB - 1)"
    "unat c0 < BB" "unat c1 < BB"
    by (rule mult_limb_bound; simp)+ simp_all
  then have "t1 < BB * BB" by (simp add: t1_def del: unat_limb_less)
  then have t1: "t1 div BB < BB" by (simp add: div_less_iff_less_mult)
  with b have t2: "t2 < BB * BB" by (simp add: t2_def del: unat_limb_less)
  then have t2': "t2 div BB < BB" by (simp add: div_less_iff_less_mult)
  have u: "unat (shr_limb (dbl d0 * dbl n + dbl c0) + (dbl d1 * dbl n + dbl c1)) = t2"
    using t2 by (subst unat_add_exact) (simp_all add: unat_shr_limb t1_def t2_def)
  have total: "t1 mod BB + BB * (t2 mod BB) + BB * BB * (t2 div BB + unat d2 * unat n)
      = unat c0 + BB * unat c1 + unat n * val3 (d0, d1, d2)"
    unfolding t2_def carry_chain(2) t1_def val3_def by (simp add: algebra_simps)
  with assms have "BB * BB * (t2 div BB + unat d2 * unat n) < BB * BB * BB" by linarith
  then have fit: "t2 div BB + unat d2 * unat n < BB" by simp
  then have "unat (d2 * n) = unat d2 * unat n" by (subst unat_mult_exact) simp_all
  with fit have "unat (low_limb (shr_limb (shr_limb (dbl d0 * dbl n + dbl c0) + (dbl d1 * dbl n + dbl c1))) + d2 * n)
      = t2 div BB + unat d2 * unat n"
    using t2' by (subst unat_add_exact) (simp_all add: unat_low_limb unat_shr_limb u)
  with total show ?thesis
    by (simp add: mulnadd3_def Let_def val3_def unat_low_limb u t1_def)
qed

lemma muln2_val:
  assumes "unat n * (unat low + BB * unat high) < BB * BB" "muln2 low high n = (l, h)"
  shows "unat l + BB * unat h = unat n * (unat low + BB * unat high)"
proof -
  define t1 where "t1 = unat low * unat n"
  define t2 where "t2 = t1 div BB + unat high * unat n"
  have total: "t1 mod BB + BB * t2 = unat n * (unat low + BB * unat high)"
    unfolding t2_def carry_chain(1) t1_def by (simp add: algebra_simps)
  with assms(1) have "BB * t2 < BB * BB" by linarith
  then have t2: "t2 < BB" by simp
  then have "unat (shr_limb (dbl low * dbl n) + dbl high * dbl n) = t2"
    by (subst unat_add_exact) (simp_all add: unat_shr_limb t1_def t2_def)
  with assms(2) total t2 show ?thesis
    by (auto simp: muln2_def Let_def unat_low_limb t1_def)
qed

lemma add_carry_val:
  "add_carry l h xs = (ys, cl, ch) \<Longrightarrow> length ys = length xs \<and>
     limbs_val ys + BB ^ length xs * (unat cl + BB * unat ch) = limbs_val xs + unat l + BB * unat h"
proof (induction xs arbitrary: l h ys)
  case (Cons x xs)
  obtain l' f where l: "overflowing_add l x = (l', f)" by fastforce
  obtain h' g where h: "overflowing_add h (as_limb f) = (h', g)" by fastforce
  obtain zs where z: "add_carry h' (as_limb g) xs = (zs, cl, ch)" "ys = l' # zs"
    using Cons.prems by (auto simp: l h split: prod.splits)
  note IH = Cons.IH[OF z(1)]
  have "unat l' + BB * (limbs_val zs + BB ^ length xs * (unat cl + BB * unat ch))
      = limbs_val (x # xs) + unat l + BB * unat h"
    using IH overflowing_add_val[OF l] overflowing_add_val[OF h] by simp
  with IH z(2) show ?case by (simp add: algebra_simps)
qed simp

section \<open>Multiplication multiplies\<close>

definition col_lo :: "u3072 \<Rightarrow> u3072 \<Rightarrow> nat \<Rightarrow> nat" where
  "col_lo x y k = (\<Sum>i\<in>{0..<k + 1}. unat (x ! i) * unat (y ! (k - i)))"

definition col_hi :: "u3072 \<Rightarrow> u3072 \<Rightarrow> nat \<Rightarrow> nat" where
  "col_hi x y k = (\<Sum>i\<in>{k + 1..<LIMBS}. unat (x ! i) * unat (y ! (LIMBS + k - i)))"

lemma sum_products_bound:
  "finite A \<Longrightarrow> card A \<le> m \<Longrightarrow>
     (\<Sum>i\<in>A. unat (f i :: limb) * unat (g i :: limb)) \<le> m * ((BB - 1) * (BB - 1))"
proof -
  assume "finite A" "card A \<le> m"
  have "(\<Sum>i\<in>A. unat (f i) * unat (g i)) \<le> of_nat (card A) * ((BB - 1) * (BB - 1))"
    by (rule sum_bounded_above) (rule mult_limb_bound; simp)
  also have "\<dots> \<le> m * ((BB - 1) * (BB - 1))"
    using \<open>card A \<le> m\<close> by (simp only: of_nat_id mult_le_mono1)
  finally show ?thesis .
qed

lemma col_lo_bound: "k < LIMBS \<Longrightarrow> col_lo x y k \<le> 48 * ((BB - 1) * (BB - 1))"
  unfolding col_lo_def by (rule sum_products_bound) (auto simp: LIMBS_def)

lemma col_hi_bound: "col_hi x y k \<le> 48 * ((BB - 1) * (BB - 1))"
  unfolding col_hi_def by (rule sum_products_bound) (auto simp: LIMBS_def)

lemma mul_high_column_val:
  assumes "j + 1 < LIMBS"
  shows "val3 (mul_high_column x y j) = col_hi x y j"
proof -
  obtain l h where m: "mul_wide (x ! (j + 1)) (y ! (LIMBS + j - (1 + j))) = (l, h)" by fastforce
  have first: "val3 (l, h, 0) = unat (x ! (j + 1)) * unat (y ! (LIMBS + j - (j + 1)))"
    using mul_wide_val[OF m] by (simp add: val3_def)
  have total: "val3 (l, h, 0) + (\<Sum>i\<leftarrow>[2 + j ..< LIMBS]. unat (x ! i) * unat (y ! (LIMBS + j - i))) = col_hi x y j"
    unfolding first col_hi_def interv_sum_list_conv_sum_set_nat
    using sum.atLeast_Suc_lessThan[OF assms, of "\<lambda>i. unat (x ! i) * unat (y ! (LIMBS + j - i))"]
    by (simp add: set_upt)
  also have "\<dots> < BB * BB * BB" using col_hi_bound[of x y j] by simp
  finally show ?thesis
    using fold_muladd3_val[of "(l, h, 0)" "\<lambda>i. x ! i" "\<lambda>i. y ! (LIMBS + j - i)" "[2 + j ..< LIMBS]"] total
    unfolding mul_high_column_def m by simp
qed

lemma mul_step_val:
  assumes "j + 1 < LIMBS" "mul_step x y j (tmp, cl, ch, c3) = st"
  shows "\<exists>l h hh. st = (tmp[j := l], h, hh, 0) \<and>
    unat l + BB * (unat h + BB * unat hh)
      = unat cl + BB * unat ch + unat PRIME_DIFF * col_hi x y j + col_lo x y j"
proof -
  obtain d0 d1 d2 where d: "mul_high_column x y j = (d0, d1, d2)" by (cases "mul_high_column x y j")
  have dv: "val3 (d0, d1, d2) = col_hi x y j" using mul_high_column_val[OF assms(1)] d by metis
  have small: "unat cl < BB" "unat ch < BB" "unat PRIME_DIFF = 1103717" by (simp_all add: PRIME_DIFF_def)
  have lo: "col_lo x y j \<le> 48 * ((BB - 1) * (BB - 1))" using assms(1) by (intro col_lo_bound) simp
  let ?c = "mulnadd3 cl ch d0 d1 d2 PRIME_DIFF"
  let ?s = "unat cl + BB * unat ch + unat PRIME_DIFF * col_hi x y j"
  have fit: "?s + col_lo x y j < BB * BB * BB"
    unfolding small(3) using small(1,2) lo col_hi_bound[of x y j] by (simp del: unat_limb_less)
  then have c: "val3 ?c = ?s"
    using mulnadd3_val[of cl ch PRIME_DIFF d0 d1 d2] unfolding dv by linarith
  have lo_list: "(\<Sum>i\<leftarrow>[0 ..< j + 1]. unat (x ! i) * unat (y ! (j - i))) = col_lo x y j"
    unfolding col_lo_def interv_sum_list_conv_sum_set_nat by (simp add: set_upt)
  obtain l h hh where f: "fold (\<lambda>i. muladd3 (x ! i) (y ! (j - i))) [0 ..< j + 1] ?c = (l, h, hh)"
    by (cases "fold (\<lambda>i. muladd3 (x ! i) (y ! (j - i))) [0 ..< j + 1] ?c")
  have "val3 (l, h, hh) = ?s + col_lo x y j"
    using fold_muladd3_val[of ?c "\<lambda>i. x ! i" "\<lambda>i. y ! (j - i)" "[0 ..< j + 1]"] fit
    unfolding c lo_list f by simp
  moreover have "st = (tmp[j := l], h, hh, 0)"
    using assms(2) f d unfolding mul_step_def by simp
  ultimately show ?thesis
    by (intro exI[of _ l] exI[of _ h] exI[of _ hh]) (simp add: val3_def)
qed

lemma mul_loop_val:
  assumes "j + 1 \<le> LIMBS"
  shows "\<exists>tmp l h. fold (mul_step x y) [0 ..< j] (u3072_one, 0, 0, 0) = (tmp, l, h, 0)
    \<and> length tmp = LIMBS
    \<and> (\<Sum>k<j. unat (tmp ! k) * BB ^ k) + BB ^ j * (unat l + BB * unat h)
        = (\<Sum>k<j. (unat PRIME_DIFF * col_hi x y k + col_lo x y k) * BB ^ k)"
  using assms
proof (induction j)
  case 0
  show ?case by (simp add: u3072_one_def u3072_zero_def)
next
  case (Suc j)
  then obtain tmp l h where st: "fold (mul_step x y) [0 ..< j] (u3072_one, 0, 0, 0) = (tmp, l, h, 0)"
    and len: "length tmp = LIMBS"
    and sum: "(\<Sum>k<j. unat (tmp ! k) * BB ^ k) + BB ^ j * (unat l + BB * unat h)
        = (\<Sum>k<j. (unat PRIME_DIFF * col_hi x y k + col_lo x y k) * BB ^ k)"
    by auto
  from Suc.prems have "j + 1 < LIMBS" by simp
  from mul_step_val[OF this refl, of x y tmp l h 0] obtain l' h' hh where
    step: "mul_step x y j (tmp, l, h, 0) = (tmp[j := l'], h', hh, 0)" and
    val: "unat l' + BB * (unat h' + BB * unat hh)
      = unat l + BB * unat h + unat PRIME_DIFF * col_hi x y j + col_lo x y j"
    by blast
  have keep: "(\<Sum>k<j. unat (tmp[j := l'] ! k) * BB ^ k) = (\<Sum>k<j. unat (tmp ! k) * BB ^ k)"
    by (rule sum.cong) auto
  have "BB ^ j * (unat l' + BB * (unat h' + BB * unat hh))
      = BB ^ j * (unat l + BB * unat h) + (unat PRIME_DIFF * col_hi x y j + col_lo x y j) * BB ^ j"
    unfolding val by (simp only: distrib_left distrib_right mult.commute add.assoc)
  then have "unat l' * BB ^ j + BB ^ Suc j * (unat h' + BB * unat hh)
      = BB ^ j * (unat l + BB * unat h) + (unat PRIME_DIFF * col_hi x y j + col_lo x y j) * BB ^ j"
    by (simp only: distrib_left power_Suc mult.assoc mult.commute mult.left_commute)
  moreover have "tmp[j := l'] ! j = l'" using len \<open>j + 1 < LIMBS\<close> by simp
  ultimately have "(\<Sum>k<Suc j. unat (tmp[j := l'] ! k) * BB ^ k) + BB ^ Suc j * (unat h' + BB * unat hh)
      = (\<Sum>k<Suc j. (unat PRIME_DIFF * col_hi x y k + col_lo x y k) * BB ^ k)"
    unfolding sum.lessThan_Suc keep using sum by (simp only: add.assoc)
  with st step len show ?case by simp
qed

lemma limbs_val_sum: "limbs_val xs = (\<Sum>i<length xs. unat (xs ! i) * BB ^ i)"
proof (induction xs)
  case (Cons x xs)
  have "(\<Sum>i<length (x # xs). unat ((x # xs) ! i) * BB ^ i)
      = unat x + (\<Sum>i<length xs. unat (xs ! i) * BB ^ Suc i)"
    by (simp only: list.size add_Suc_right add_0_right sum.lessThan_Suc_shift nth_Cons_0 nth_Cons_Suc
        power_0 mult_1_right)
  also have "(\<Sum>i<length xs. unat (xs ! i) * BB ^ Suc i) = BB * limbs_val xs"
    unfolding Cons.IH sum_distrib_left by (rule sum.cong) (simp_all only: power_Suc mult.left_commute)
  finally show ?case by simp
qed simp

lemma limbs_val_bound: "limbs_val xs < BB ^ length xs"
proof (induction xs)
  case (Cons x xs)
  have "unat x < BB" by simp
  moreover from Cons.IH have "limbs_val xs + 1 \<le> BB ^ length xs" by linarith
  then have "BB * (limbs_val xs + 1) \<le> BB * BB ^ length xs" by (rule mult_le_mono2)
  ultimately show ?case unfolding limbs_val.simps list.size by (simp del: unat_limb_less)
qed simp

lemma convolution:
  fixes f g :: "nat \<Rightarrow> nat"
  shows "(\<Sum>i<n. f i * b ^ i) * (\<Sum>j<n. g j * b ^ j) =
    (\<Sum>k<n. (\<Sum>i\<in>{0..<k + 1}. f i * g (k - i)) * b ^ k)
    + b ^ n * (\<Sum>k<n - 1. (\<Sum>i\<in>{k + 1..<n}. f i * g (n + k - i)) * b ^ k)"
proof -
  let ?t = "\<lambda>(i, j). f i * g j * b ^ (i + j)"
  have prod: "(\<Sum>i<n. f i * b ^ i) * (\<Sum>j<n. g j * b ^ j) = sum ?t ({..<n} \<times> {..<n})"
    by (simp add: sum_product sum.cartesian_product power_add mult_ac)
  have split: "{..<n} \<times> {..<n} = {(i, j). i + j < n} \<union> {(i, j). i < n \<and> j < n \<and> n \<le> i + j}" by auto
  have fin: "finite {(i, j). i + j < n}" "finite {(i, j). i < n \<and> j < n \<and> n \<le> i + j}"
    by (rule finite_subset[of _ "{..<n} \<times> {..<n}"]; auto)+
  have "sum ?t {(i, j). i + j < n} = (\<Sum>k<n. \<Sum>i\<le>k. f i * g (k - i) * b ^ (i + (k - i)))"
    by (rule sum.triangle_reindex)
  also have "\<dots> = (\<Sum>k<n. (\<Sum>i\<in>{0..<k + 1}. f i * g (k - i)) * b ^ k)"
    by (rule sum.cong) (auto simp: sum_distrib_right atLeast0LessThan lessThan_Suc_atMost intro!: sum.cong)
  finally have lo: "sum ?t {(i, j). i + j < n} = (\<Sum>k<n. (\<Sum>i\<in>{0..<k + 1}. f i * g (k - i)) * b ^ k)" .
  have "sum ?t {(i, j). i < n \<and> j < n \<and> n \<le> i + j}
      = sum (\<lambda>(k, i). f i * g (n + k - i) * b ^ (n + k)) (SIGMA k:{..<n - 1}. {k + 1..<n})"
    by (rule sum.reindex_bij_witness[of _ "\<lambda>(k, i). (i, n + k - i)" "\<lambda>(i, j). (i + j - n, i)"]) auto
  also have "\<dots> = (\<Sum>k<n - 1. \<Sum>i\<in>{k + 1..<n}. f i * g (n + k - i) * b ^ (n + k))"
    by (simp add: sum.Sigma)
  also have "\<dots> = b ^ n * (\<Sum>k<n - 1. (\<Sum>i\<in>{k + 1..<n}. f i * g (n + k - i)) * b ^ k)"
    by (simp add: sum_distrib_left sum_distrib_right power_add mult_ac)
  finally have hi: "sum ?t {(i, j). i < n \<and> j < n \<and> n \<le> i + j}
      = b ^ n * (\<Sum>k<n - 1. (\<Sum>i\<in>{k + 1..<n}. f i * g (n + k - i)) * b ^ k)" .
  show ?thesis unfolding prod split lo[symmetric] hi[symmetric]
    by (rule sum.union_disjoint) (auto simp: fin)
qed

lemma product_columns:
  assumes "length x = LIMBS" "length y = LIMBS"
  shows "limbs_val x * limbs_val y =
    (\<Sum>k<LIMBS. col_lo x y k * BB ^ k) + BB ^ LIMBS * (\<Sum>k<LIMBS - 1. col_hi x y k * BB ^ k)"
  unfolding limbs_val_sum assms col_lo_def col_hi_def by (rule convolution)

definition MUHASH_PRIME :: nat where
  "MUHASH_PRIME = BB ^ LIMBS - 1103717"

lemma BB_LIMBS: "BB * BB * BB \<le> BB ^ LIMBS"
proof -
  have "BB ^ 3 \<le> BB ^ LIMBS" by (rule power_increasing) (simp_all add: LIMBS_def)
  then show ?thesis by (simp only: numeral_3_eq_3 power_Suc power_0 mult_1_right mult.assoc)
qed

lemma prime_sum: "MUHASH_PRIME + 1103717 = BB ^ LIMBS"
  using BB_LIMBS unfolding MUHASH_PRIME_def by simp

lemma unat_PRIME_DIFF: "unat PRIME_DIFF = 1103717"
  by (simp add: PRIME_DIFF_def)

lemma limbs_val_max: "limbs_val xs + 1 = BB ^ length xs \<longleftrightarrow> list_all (\<lambda>l. l = -1) xs"
proof (induction xs)
  case (Cons x xs)
  have max: "unat x + 1 = BB \<longleftrightarrow> x = -1"
  proof
    assume "unat x + 1 = BB"
    then have "unat x = unat (-1 :: limb)" by (simp add: unat_minus_one)
    then show "x = -1" by (simp only: word_unat_eq_iff)
  qed (simp add: unat_minus_one)
  have b: "unat x + 1 \<le> BB" "limbs_val xs + 1 \<le> BB ^ length xs"
    using unat_limb_less[of x] limbs_val_bound[of xs] by (simp_all del: unat_limb_less)
  have "limbs_val (x # xs) + 1 = BB ^ length (x # xs) \<longleftrightarrow>
      unat x + 1 + BB * limbs_val xs = BB * BB ^ length xs"
    by simp
  also have "\<dots> \<longleftrightarrow> unat x + 1 = BB \<and> limbs_val xs + 1 = BB ^ length xs"
  proof
    assume e: "unat x + 1 + BB * limbs_val xs = BB * BB ^ length xs"
    have "limbs_val xs + 1 = BB ^ length xs"
    proof (rule ccontr)
      assume "limbs_val xs + 1 \<noteq> BB ^ length xs"
      with b(2) have "limbs_val xs + 2 \<le> BB ^ length xs" by linarith
      then have "BB * (limbs_val xs + 2) \<le> BB * BB ^ length xs" by (rule mult_le_mono2)
      with e b(1) show False by simp
    qed
    with e show "unat x + 1 = BB \<and> limbs_val xs + 1 = BB ^ length xs"
      unfolding \<open>limbs_val xs + 1 = BB ^ length xs\<close>[symmetric] by simp
  next
    assume "unat x + 1 = BB \<and> limbs_val xs + 1 = BB ^ length xs"
    then show "unat x + 1 + BB * limbs_val xs = BB * BB ^ length xs"
      by (metis Suc_eq_plus1 mult_Suc_right)
  qed
  finally show ?case unfolding max Cons.IH by simp
qed simp

lemma is_overflow_iff:
  assumes "length xs = LIMBS"
  shows "is_overflow xs \<longleftrightarrow> MUHASH_PRIME \<le> limbs_val xs"
proof -
  from assms obtain x ys where xs: "xs = x # ys" and len: "length ys = 47"
    by (cases xs) (auto simp: LIMBS_def)
  have pow: "BB ^ LIMBS = BB * BB ^ length ys" unfolding len LIMBS_def by (simp flip: power_Suc)
  have small: "x \<le> -1 - PRIME_DIFF \<longleftrightarrow> unat x + 1103717 < BB"
    by (auto simp: PRIME_DIFF_def word_le_nat)
  have p: "MUHASH_PRIME + 1103717 = BB * BB ^ length ys" using prime_sum pow by simp
  have xb: "unat x < BB" by simp
  show ?thesis
  proof (cases "list_all (\<lambda>l. l = -1) ys")
    case True
    then have v: "limbs_val ys + 1 = BB ^ length ys" by (simp only: limbs_val_max)
    then have "BB * limbs_val ys + BB = BB * BB ^ length ys" by (metis Suc_eq_plus1 mult_Suc_right add.commute)
    with p have "MUHASH_PRIME \<le> unat x + BB * limbs_val ys \<longleftrightarrow> BB \<le> unat x + 1103717"
      by linarith
    with True small show ?thesis unfolding xs is_overflow_def by (auto simp: not_less)
  next
    case False
    then have "limbs_val ys + 1 \<noteq> BB ^ length ys" by (simp only: limbs_val_max simp_thms)
    with limbs_val_bound[of ys] have "limbs_val ys + 2 \<le> BB ^ length ys" by linarith
    then have "BB * (limbs_val ys + 2) \<le> BB * BB ^ length ys" by (rule mult_le_mono2)
    then have "BB * limbs_val ys + 2 * BB \<le> BB * BB ^ length ys" unfolding distrib_left by linarith
    with p xb have "\<not> MUHASH_PRIME \<le> unat x + BB * limbs_val ys" by (simp del: unat_limb_less)
    with False show ?thesis unfolding xs is_overflow_def by simp
  qed
qed

lemma full_reduce_val:
  assumes "length xs = LIMBS"
  shows "length (full_reduce xs) = LIMBS"
    and "limbs_val (full_reduce xs) = (limbs_val xs + 1103717) mod BB ^ LIMBS"
proof -
  obtain ys cl ch where a: "add_carry PRIME_DIFF 0 xs = (ys, cl, ch)" by (cases "add_carry PRIME_DIFF 0 xs")
  note v = add_carry_val[OF a, unfolded assms unat_PRIME_DIFF]
  then show "length (full_reduce xs) = LIMBS" by (simp add: full_reduce_def a)
  have "limbs_val ys < BB ^ LIMBS" using limbs_val_bound[of ys] v by simp
  then have "limbs_val ys = (limbs_val ys + BB ^ LIMBS * (unat cl + BB * unat ch)) mod BB ^ LIMBS"
    by (simp only: mod_mult_self2 mod_less)
  also have "\<dots> = (limbs_val xs + 1103717) mod BB ^ LIMBS" using v by simp
  finally show "limbs_val (full_reduce xs) = (limbs_val xs + 1103717) mod BB ^ LIMBS"
    by (simp add: full_reduce_def a)
qed

lemma full_reduce_overflow:
  assumes "length xs = LIMBS" "is_overflow xs"
  shows "limbs_val (full_reduce xs) + MUHASH_PRIME = limbs_val xs"
proof -
  from assms have ge: "MUHASH_PRIME \<le> limbs_val xs" by (simp add: is_overflow_iff)
  have lt: "limbs_val xs < MUHASH_PRIME + 1103717" using limbs_val_bound[of xs] assms(1) prime_sum by simp
  have "(limbs_val xs + 1103717) mod BB ^ LIMBS = limbs_val xs + 1103717 - BB ^ LIMBS"
  proof -
    have "BB ^ LIMBS \<le> limbs_val xs + 1103717" using ge prime_sum by linarith
    moreover have "limbs_val xs + 1103717 - BB ^ LIMBS < BB ^ LIMBS"
      using limbs_val_bound[of xs] assms(1) BB_LIMBS by simp
    ultimately show ?thesis by (simp only: le_mod_geq mod_less)
  qed
  with full_reduce_val(2)[OF assms(1)] ge prime_sum show ?thesis by linarith
qed

lemma full_reduce_small:
  assumes "length xs = LIMBS" "limbs_val xs < BB * BB"
  shows "limbs_val (full_reduce xs) = limbs_val xs + 1103717"
proof -
  have "limbs_val xs + 1103717 < BB ^ LIMBS" using assms(2) BB_LIMBS by simp
  with full_reduce_val(2)[OF assms(1)] show ?thesis by simp
qed

definition sum_lo :: "u3072 \<Rightarrow> u3072 \<Rightarrow> nat" where
  "sum_lo x y = (\<Sum>k<LIMBS. col_lo x y k * BB ^ k)"

definition sum_hi :: "u3072 \<Rightarrow> u3072 \<Rightarrow> nat" where
  "sum_hi x y = (\<Sum>k<LIMBS - 1. col_hi x y k * BB ^ k)"

lemma LIMBS_Suc: "LIMBS = Suc (LIMBS - 1)"
  by (simp add: LIMBS_def)

lemma columns_total:
  "(\<Sum>k<LIMBS - 1. (q * col_hi x y k + col_lo x y k) * BB ^ k) + BB ^ (LIMBS - 1) * col_lo x y (LIMBS - 1)
     = q * sum_hi x y + sum_lo x y"
proof -
  have "sum_lo x y = (\<Sum>k<LIMBS - 1. col_lo x y k * BB ^ k) + col_lo x y (LIMBS - 1) * BB ^ (LIMBS - 1)"
    unfolding sum_lo_def by (subst LIMBS_Suc) (rule sum.lessThan_Suc)
  then show ?thesis
    by (simp only: sum_hi_def distrib_right sum.distrib sum_distrib_left mult.assoc mult.commute add.assoc)
qed

lemma sum_hi_bound:
  assumes "length x = LIMBS" "length y = LIMBS"
  shows "sum_hi x y < BB ^ LIMBS"
proof -
  have "BB ^ LIMBS * sum_hi x y \<le> limbs_val x * limbs_val y"
    unfolding product_columns[OF assms] sum_hi_def by (rule le_add2)
  also have "\<dots> < BB ^ LIMBS * BB ^ LIMBS"
    using limbs_val_bound[of x] limbs_val_bound[of y] unfolding assms by (intro mult_strict_mono) simp_all
  finally show ?thesis by (simp only: nat_mult_less_cancel_disj)
qed

lemma geometric: "(BB - 1) * (\<Sum>k<n. BB ^ k) + 1 = BB ^ n"
proof (induction n)
  case (Suc n)
  have "(BB - 1) * (\<Sum>k<Suc n. BB ^ k) + 1 = ((BB - 1) * (\<Sum>k<n. BB ^ k) + 1) + (BB - 1) * BB ^ n"
    by (simp only: sum.lessThan_Suc distrib_left add.assoc add.commute)
  also have "\<dots> = BB ^ n + (BB - 1) * BB ^ n" by (simp only: Suc.IH)
  also have "\<dots> = BB ^ Suc n" by simp
  finally show ?case .
qed simp

lemma sum_lo_bound: "sum_lo x y \<le> 48 * (BB - 1) * BB ^ LIMBS"
proof -
  have "sum_lo x y \<le> (\<Sum>k<LIMBS. 48 * ((BB - 1) * (BB - 1)) * BB ^ k)"
    unfolding sum_lo_def by (rule sum_mono, rule mult_le_mono1, rule col_lo_bound) simp
  also have "\<dots> = 48 * (BB - 1) * ((BB - 1) * (\<Sum>k<LIMBS. BB ^ k))"
    by (simp only: sum_distrib_left mult.assoc)
  also have "\<dots> \<le> 48 * (BB - 1) * BB ^ LIMBS"
    by (rule mult_le_mono2) (use geometric[of LIMBS] in linarith)
  finally show ?thesis .
qed

lemma carry_bound:
  assumes "length x = LIMBS" "length y = LIMBS"
    and "v + BB ^ LIMBS * c = 1103717 * sum_hi x y + sum_lo x y"
  shows "1103717 * c < BB * BB"
proof -
  have "BB ^ LIMBS * c \<le> 1103717 * sum_hi x y + sum_lo x y" using assms(3) by linarith
  also have "\<dots> \<le> 1103717 * BB ^ LIMBS + 48 * (BB - 1) * BB ^ LIMBS"
    using sum_hi_bound[OF assms(1,2)] sum_lo_bound[of x y] by (intro add_mono mult_le_mono2) simp_all
  also have "\<dots> = BB ^ LIMBS * (1103717 + 48 * (BB - 1))"
    by (simp only: distrib_left mult.commute)
  finally have "c \<le> 1103717 + 48 * (BB - 1)" by simp
  then show ?thesis by simp
qed

text \<open>The final column, the second reduction and the two conditional subtractions.\<close>

lemma mul_final_column:
  assumes "length x = LIMBS" "length y = LIMBS" "unat l + BB * unat h < BB * BB"
  obtains l' h' hh where
    "fold (\<lambda>i. muladd3 (x ! i) (y ! (LIMBS - 1 - i))) [0 ..< LIMBS] (l, h, 0) = (l', h', hh)"
    "unat l' + BB * (unat h' + BB * unat hh) = unat l + BB * unat h + col_lo x y (LIMBS - 1)"
proof -
  have list: "(\<Sum>i\<leftarrow>[0 ..< LIMBS]. unat (x ! i) * unat (y ! (LIMBS - 1 - i))) = col_lo x y (LIMBS - 1)"
    unfolding col_lo_def interv_sum_list_conv_sum_set_nat using LIMBS_Suc by (simp add: set_upt)
  have "col_lo x y (LIMBS - 1) \<le> 48 * ((BB - 1) * (BB - 1))"
    by (rule col_lo_bound) (simp add: LIMBS_def)
  with assms(3) have "val3 (l, h, 0) + col_lo x y (LIMBS - 1) < BB * BB * BB"
    by (simp add: val3_def)
  then have "val3 (fold (\<lambda>i. muladd3 (x ! i) (y ! (LIMBS - 1 - i))) [0 ..< LIMBS] (l, h, 0))
      = val3 (l, h, 0) + col_lo x y (LIMBS - 1)"
    using fold_muladd3_val[of "(l, h, 0)" "\<lambda>i. x ! i" "\<lambda>i. y ! (LIMBS - 1 - i)" "[0 ..< LIMBS]"]
    unfolding list by simp
  then show ?thesis
    using that by (cases "fold (\<lambda>i. muladd3 (x ! i) (y ! (LIMBS - 1 - i))) [0 ..< LIMBS] (l, h, 0)")
      (simp add: val3_def)
qed

lemma final_reduction:
  assumes len: "length z = LIMBS" and v: "limbs_val z + BB ^ LIMBS * unat cl = t + r"
    and t: "t < BB ^ LIMBS" and r: "r < BB * BB" and cl: "cl = 0 \<or> cl = 1"
  shows "\<exists>m. limbs_val (let z = (if is_overflow z then full_reduce z else z)
                   in (if cl \<noteq> 0 then full_reduce z else z)) + MUHASH_PRIME * m = t + r"
    and "length (let z = (if is_overflow z then full_reduce z else z)
                   in (if cl \<noteq> 0 then full_reduce z else z)) = LIMBS"
proof -
  show "length (let z = (if is_overflow z then full_reduce z else z)
                   in (if cl \<noteq> 0 then full_reduce z else z)) = LIMBS"
    by (auto simp: Let_def full_reduce_val(1) len)
  show "\<exists>m. limbs_val (let z = (if is_overflow z then full_reduce z else z)
                   in (if cl \<noteq> 0 then full_reduce z else z)) + MUHASH_PRIME * m = t + r"
  proof (cases "cl = 0")
    case True
    with v full_reduce_overflow[OF len] show ?thesis
      by (cases "is_overflow z") (auto intro: exI[of _ "1::nat"] exI[of _ "0::nat"])
  next
    case False
    with cl have cl1: "cl = 1" by blast
    with v have v1: "limbs_val z + BB ^ LIMBS = t + r" by simp
    with t r have small: "limbs_val z < BB * BB" by linarith
    have "\<not> is_overflow z"
      using small BB_LIMBS prime_sum by (simp add: is_overflow_iff[OF len])
    with full_reduce_small[OF len small] v1 prime_sum False show ?thesis
      by (auto intro!: exI[of _ "1::nat"])
  qed
qed

lemma limbs_val_zeros: "limbs_val (replicate n 0) = 0"
  by (induction n) simp_all

lemma limbs_val_one: "limbs_val u3072_one = 1"
proof -
  have one: "u3072_one = 1 # replicate (LIMBS - 1) 0"
    unfolding u3072_one_def u3072_zero_def by (subst LIMBS_Suc) simp
  show ?thesis unfolding one limbs_val.simps limbs_val_zeros by simp
qed

lemma limbs_val_snoc_update:
  assumes "length tmp = LIMBS"
  shows "limbs_val (tmp[LIMBS - 1 := l]) = (\<Sum>k<LIMBS - 1. unat (tmp ! k) * BB ^ k) + unat l * BB ^ (LIMBS - 1)"
proof -
  have "limbs_val (tmp[LIMBS - 1 := l]) = (\<Sum>k<Suc (LIMBS - 1). unat (tmp[LIMBS - 1 := l] ! k) * BB ^ k)"
    unfolding limbs_val_sum length_list_update assms using LIMBS_Suc by simp
  also have "\<dots> = (\<Sum>k<LIMBS - 1. unat (tmp ! k) * BB ^ k) + unat l * BB ^ (LIMBS - 1)"
    unfolding sum.lessThan_Suc using assms LIMBS_Suc by (auto intro!: sum.cong arg_cong2[of _ _ _ _ "(+)"])
  finally show ?thesis .
qed

lemma mul_columns:
  assumes len: "length x = LIMBS" "length y = LIMBS"
  obtains tmp l h l' h' hh where
    "fold (mul_step x y) [0 ..< LIMBS - 1] (u3072_one, 0, 0, 0) = (tmp, l, h, 0)"
    "length tmp = LIMBS"
    "fold (\<lambda>i. muladd3 (x ! i) (y ! (LIMBS - 1 - i))) [0 ..< LIMBS] (l, h, 0) = (l', h', hh)"
    "limbs_val (tmp[LIMBS - 1 := l']) + BB ^ LIMBS * (unat h' + BB * unat hh)
       = 1103717 * sum_hi x y + sum_lo x y"
proof -
  have "LIMBS - 1 + 1 \<le> LIMBS" by (simp add: LIMBS_def)
  from mul_loop_val[OF this, of x y] obtain tmp l h where
    loop: "fold (mul_step x y) [0 ..< LIMBS - 1] (u3072_one, 0, 0, 0) = (tmp, l, h, 0)"
    "length tmp = LIMBS" and
    sum: "(\<Sum>k<LIMBS - 1. unat (tmp ! k) * BB ^ k) + BB ^ (LIMBS - 1) * (unat l + BB * unat h)
        = (\<Sum>k<LIMBS - 1. (1103717 * col_hi x y k + col_lo x y k) * BB ^ k)"
    unfolding unat_PRIME_DIFF by blast
  have "unat l < BB" "unat h < BB" by simp_all
  then have "unat l + BB * unat h < BB * BB" by (simp del: unat_limb_less)
  from mul_final_column[OF len this] obtain l' h' hh where
    fin: "fold (\<lambda>i. muladd3 (x ! i) (y ! (LIMBS - 1 - i))) [0 ..< LIMBS] (l, h, 0) = (l', h', hh)"
    and val: "unat l' + BB * (unat h' + BB * unat hh) = unat l + BB * unat h + col_lo x y (LIMBS - 1)"
    by blast
  let ?q = "BB ^ (LIMBS - 1)"
  have pow: "BB ^ LIMBS = ?q * BB" by (subst LIMBS_Suc) (simp only: power_Suc mult.commute)
  have "limbs_val (tmp[LIMBS - 1 := l']) + BB ^ LIMBS * (unat h' + BB * unat hh)
      = (\<Sum>k<LIMBS - 1. unat (tmp ! k) * BB ^ k) + ?q * (unat l' + BB * (unat h' + BB * unat hh))"
    unfolding limbs_val_snoc_update[OF loop(2)] pow
    by (simp only: distrib_left distrib_right mult.assoc mult.commute mult.left_commute add.assoc)
  also have "\<dots> = (\<Sum>k<LIMBS - 1. (1103717 * col_hi x y k + col_lo x y k) * BB ^ k) + ?q * col_lo x y (LIMBS - 1)"
    unfolding val using sum by (simp only: distrib_left add.assoc)
  also have "\<dots> = 1103717 * sum_hi x y + sum_lo x y" by (rule columns_total)
  finally show ?thesis using that[OF loop fin] by blast
qed

lemma product_congruent:
  assumes "length x = LIMBS" "length y = LIMBS"
    and "v + MUHASH_PRIME * m + MUHASH_PRIME * c = 1103717 * sum_hi x y + sum_lo x y"
  shows "v mod MUHASH_PRIME = limbs_val x * limbs_val y mod MUHASH_PRIME"
proof -
  have "limbs_val x * limbs_val y = sum_lo x y + (MUHASH_PRIME + 1103717) * sum_hi x y"
    using product_columns[OF assms(1,2)] unfolding sum_lo_def sum_hi_def prime_sum by simp
  also have "\<dots> = v + MUHASH_PRIME * (m + c + sum_hi x y)"
    using assms(3) by (simp add: distrib_left distrib_right)
  finally show ?thesis by simp
qed

lemma mul_total:
  assumes len: "length x = LIMBS" "length y = LIMBS"
  shows "\<exists>z. u3072_mul x y = Some z \<and> length z = LIMBS
    \<and> limbs_val z mod MUHASH_PRIME = limbs_val x * limbs_val y mod MUHASH_PRIME"
proof (cases "x = u3072_one")
  case True
  then show ?thesis using len(2) by (simp add: u3072_mul_def limbs_val_one)
next
  case False
  obtain tmp l h l' h' hh where cols:
    "fold (mul_step x y) [0 ..< LIMBS - 1] (u3072_one, 0, 0, 0) = (tmp, l, h, 0)" "length tmp = LIMBS"
    "fold (\<lambda>i. muladd3 (x ! i) (y ! (LIMBS - 1 - i))) [0 ..< LIMBS] (l, h, 0) = (l', h', hh)"
    and total: "limbs_val (tmp[LIMBS - 1 := l']) + BB ^ LIMBS * (unat h' + BB * unat hh)
       = 1103717 * sum_hi x y + sum_lo x y"
    by (rule mul_columns[OF len])
  let ?t = "limbs_val (tmp[LIMBS - 1 := l'])" and ?c = "unat h' + BB * unat hh"
  obtain ml mh where m: "muln2 h' hh PRIME_DIFF = (ml, mh)" by fastforce
  have r: "1103717 * ?c < BB * BB" by (rule carry_bound[OF len total])
  have mv: "unat ml + BB * unat mh = 1103717 * ?c"
    using muln2_val[OF _ m] r unfolding unat_PRIME_DIFF by blast
  obtain z cl ch where a: "add_carry ml mh (tmp[LIMBS - 1 := l']) = (z, cl, ch)"
    by (cases "add_carry ml mh (tmp[LIMBS - 1 := l'])")
  have zlen: "length z = LIMBS"
    and zval: "limbs_val z + BB ^ LIMBS * (unat cl + BB * unat ch) = ?t + 1103717 * ?c"
    using add_carry_val[OF a] mv cols(2) by simp_all
  have t: "?t < BB ^ LIMBS" using limbs_val_bound[of "tmp[LIMBS - 1 := l']"] cols(2) by simp
  have "1103717 * ?c < BB ^ LIMBS" using r BB_LIMBS by simp
  with zval t have "BB ^ LIMBS * (unat cl + BB * unat ch) < BB ^ LIMBS * 2" by linarith
  then have "unat cl + BB * unat ch < 2" by (simp only: nat_mult_less_cancel_disj)
  then have ch: "ch = 0" and cl: "cl = 0 \<or> cl = 1"
    by (simp_all add: word_unat_eq_iff) arith+
  let ?z = "let z = (if is_overflow z then full_reduce z else z) in (if cl \<noteq> 0 then full_reduce z else z)"
  from zval ch have "limbs_val z + BB ^ LIMBS * unat cl = ?t + 1103717 * ?c" by simp
  note red = final_reduction[OF zlen this t r cl]
  then obtain k where "limbs_val ?z + MUHASH_PRIME * k = ?t + 1103717 * ?c" by blast
  then have "limbs_val ?z + MUHASH_PRIME * k + MUHASH_PRIME * ?c = 1103717 * sum_hi x y + sum_lo x y"
    using total unfolding prime_sum[symmetric] distrib_right by linarith
  from product_congruent[OF len this]
  have "limbs_val ?z mod MUHASH_PRIME = limbs_val x * limbs_val y mod MUHASH_PRIME" .
  moreover have "u3072_mul x y = Some ?z"
    unfolding u3072_mul_def Let_def cols(1) prod.case simp_thms if_False cols(3) m a using False ch cl by simp
  ultimately show ?thesis using red(2) by blast
qed

section \<open>Division divides\<close>

text \<open>
  What the code relies on of the external modular inverse: for a number below the modulus and
  coprime to it, it returns the inverse below the modulus.
\<close>

definition mod_inverse_ok :: "(nat \<Rightarrow> nat \<Rightarrow> nat option) \<Rightarrow> bool" where
  "mod_inverse_ok mod_inv =
     (\<forall>x m. 0 < x \<and> x < m \<and> coprime x m \<longrightarrow> (\<exists>y. mod_inv x m = Some y \<and> y < m \<and> x * y mod m = 1))"

lemma length_nat_to_limbs [simp]: "length (nat_to_limbs n v) = n"
  by (induction n arbitrary: v) simp_all

lemma limbs_val_nat_to_limbs: "limbs_val (nat_to_limbs n v) = v mod BB ^ n"
proof (induction n arbitrary: v)
  case (Suc n)
  have "unat (word_of_nat (v mod BB) :: limb) = v mod BB"
    by (simp add: unsigned_of_nat take_bit_eq_mod)
  then have "limbs_val (nat_to_limbs (Suc n) v) = v mod BB + BB * (v div BB mod BB ^ n)"
    by (simp only: nat_to_limbs.simps limbs_val.simps Suc.IH)
  also have "\<dots> = v mod (BB * BB ^ n)" by (simp only: mod_mult2_eq)
  finally show ?case by (simp only: power_Suc)
qed simp

lemma limbs_val_UINT_PRIME: "limbs_val UINT_PRIME = MUHASH_PRIME" "length UINT_PRIME = LIMBS"
proof -
  let ?ms = "replicate (LIMBS - 1) (- 1 :: limb)"
  have up: "UINT_PRIME = (- 1 - (PRIME_DIFF - 1)) # ?ms"
    unfolding UINT_PRIME_def by (subst LIMBS_Suc) simp
  have "limbs_val ?ms + 1 = BB ^ length ?ms"
    unfolding limbs_val_max by (simp add: list_all_iff)
  then have "BB * (limbs_val ?ms + 1) = BB * BB ^ (LIMBS - 1)" by (simp only: length_replicate)
  moreover have "BB ^ LIMBS = BB * BB ^ (LIMBS - 1)" by (subst LIMBS_Suc) (rule power_Suc)
  ultimately have ms: "BB * limbs_val ?ms + BB = BB ^ LIMBS" unfolding distrib_left by linarith
  have "unat (- 1 - (PRIME_DIFF - 1) :: limb) + 1103717 = BB" by (simp add: PRIME_DIFF_def)
  with ms prime_sum show "limbs_val UINT_PRIME = MUHASH_PRIME" unfolding up limbs_val.simps by linarith
  show "length UINT_PRIME = LIMBS" by (simp add: UINT_PRIME_def)
qed

lemma prime_big: "1 < MUHASH_PRIME"
  using prime_sum BB_LIMBS by simp

lemma coprime_of_mod_eq:
  assumes "a mod MUHASH_PRIME = b mod MUHASH_PRIME" "coprime b MUHASH_PRIME"
  shows "coprime a MUHASH_PRIME"
proof -
  have p: "MUHASH_PRIME \<noteq> 0" using prime_big by simp
  have "coprime (b mod MUHASH_PRIME) MUHASH_PRIME" using assms(2) coprime_mod_left_iff[OF p] by blast
  then show ?thesis using coprime_mod_left_iff[OF p, of a] unfolding assms(1) by blast
qed

definition reduced :: "u3072 \<Rightarrow> u3072" where
  "reduced x = (if is_overflow x then full_reduce x else x)"

lemma reduced_val:
  assumes "length x = LIMBS"
  shows "length (reduced x) = LIMBS" "limbs_val (reduced x) < MUHASH_PRIME"
    "limbs_val (reduced x) mod MUHASH_PRIME = limbs_val x mod MUHASH_PRIME"
    "\<not> is_overflow (reduced x)"
proof -
  show len: "length (reduced x) = LIMBS" by (simp add: reduced_def full_reduce_val(1) assms)
  show "limbs_val (reduced x) mod MUHASH_PRIME = limbs_val x mod MUHASH_PRIME"
    using full_reduce_overflow[OF assms] by (auto simp: reduced_def) (metis mod_add_self2)
  show "limbs_val (reduced x) < MUHASH_PRIME"
  proof (cases "is_overflow x")
    case True
    have "limbs_val x < BB ^ LIMBS" using limbs_val_bound[of x] assms by simp
    moreover have "2 * 1103717 \<le> BB ^ LIMBS" using BB_LIMBS by simp
    ultimately show ?thesis
      using full_reduce_overflow[OF assms True] prime_sum True by (simp add: reduced_def)
  qed (use is_overflow_iff[OF assms] in \<open>simp add: reduced_def\<close>)
  then show "\<not> is_overflow (reduced x)" using is_overflow_iff[OF len] by simp
qed

lemma u3072_inverse_correct:
  assumes "mod_inverse_ok mod_inv" "length y = LIMBS" "coprime (limbs_val y) MUHASH_PRIME"
  shows "\<exists>iv. u3072_inverse mod_inv y = Some iv \<and> length iv = LIMBS
    \<and> limbs_val y * limbs_val iv mod MUHASH_PRIME = 1"
proof -
  let ?a = "reduced y"
  note a = reduced_val[OF assms(2)]
  have cop: "coprime (limbs_val ?a) MUHASH_PRIME"
    by (rule coprime_of_mod_eq[OF a(3) assms(3)])
  then have pos: "0 < limbs_val ?a" using prime_big by (cases "limbs_val ?a = 0") auto
  have "limbs_val u3072_zero = 0"
    unfolding u3072_zero_def by (rule limbs_val_zeros)
  with pos have nz: "?a \<noteq> u3072_zero" by auto
  from assms(1) pos a(2) cop obtain v where
    v: "mod_inv (limbs_val ?a) MUHASH_PRIME = Some v" "v < MUHASH_PRIME" "limbs_val ?a * v mod MUHASH_PRIME = 1"
    unfolding mod_inverse_ok_def by blast
  have "v mod BB ^ LIMBS = v" using v(2) prime_sum by simp
  then have vv: "limbs_val (nat_to_limbs LIMBS v) = v" by (simp only: limbs_val_nat_to_limbs)
  have "limbs_val y * v mod MUHASH_PRIME = 1"
    using v(3) a(3) by (metis mod_mult_left_eq)
  moreover have "u3072_inverse mod_inv y = Some (nat_to_limbs LIMBS v)"
    using nz v(1)
    unfolding u3072_inverse_def uint3072_mod_inverse_def limbs_val_UINT_PRIME reduced_def[symmetric] Let_def
    by simp
  ultimately show ?thesis by (intro exI[of _ "nat_to_limbs LIMBS v"]) (simp add: vv)
qed

lemma div_total:
  assumes "mod_inverse_ok mod_inv" "length x = LIMBS" "length y = LIMBS" "coprime (limbs_val y) MUHASH_PRIME"
  shows "\<exists>z. u3072_div mod_inv x y = Some z \<and> length z = LIMBS \<and> limbs_val z < MUHASH_PRIME
    \<and> limbs_val z * limbs_val y mod MUHASH_PRIME = limbs_val x mod MUHASH_PRIME"
proof -
  let ?p = MUHASH_PRIME
  let ?y = "reduced y" and ?x = "reduced x"
  note ry = reduced_val[OF assms(3)] and rx = reduced_val[OF assms(2)]
  have "coprime (limbs_val ?y) ?p"
    by (rule coprime_of_mod_eq[OF ry(3) assms(4)])
  from u3072_inverse_correct[OF assms(1) ry(1) this] obtain iv where
    iv: "u3072_inverse mod_inv ?y = Some iv" "length iv = LIMBS" "limbs_val ?y * limbs_val iv mod ?p = 1"
    by blast
  from mul_total[OF rx(1) iv(2)] obtain z where
    z: "u3072_mul ?x iv = Some z" "length z = LIMBS" "limbs_val z mod ?p = limbs_val ?x * limbs_val iv mod ?p"
    by blast
  note rz = reduced_val[OF z(2)]
  have "limbs_val (reduced z) * limbs_val y mod ?p = limbs_val z * limbs_val ?y mod ?p"
    using rz(3) ry(3) by (metis mod_mult_eq)
  also have "\<dots> = limbs_val ?x * limbs_val iv * limbs_val ?y mod ?p"
    using z(3) by (metis mod_mult_left_eq)
  also have "\<dots> = limbs_val ?x * (limbs_val ?y * limbs_val iv mod ?p) mod ?p"
    by (metis mod_mult_right_eq mult.assoc mult.commute)
  also have "\<dots> = limbs_val x mod ?p" using iv(3) rx(3) by simp
  finally have "limbs_val (reduced z) * limbs_val y mod ?p = limbs_val x mod ?p" .
  moreover have "u3072_div mod_inv x y = Some (reduced z)"
    using iv(1) z(1) unfolding u3072_div_def reduced_def by (simp split: if_splits)
  ultimately show ?thesis using rz by blast
qed

section \<open>Assignment operators and bytes\<close>

text \<open>
  \<open>MulAssign\<close> and \<open>DivAssign\<close>. The empty limb list, which is no 48-limb number, stands for
  a panic; the theorems above show that it never arises.
\<close>

definition mul_assign :: "u3072 \<Rightarrow> u3072 \<Rightarrow> u3072" where
  "mul_assign x y = (case u3072_mul x y of Some z \<Rightarrow> z | None \<Rightarrow> [])"

definition div_assign :: "(nat \<Rightarrow> nat \<Rightarrow> nat option) \<Rightarrow> u3072 \<Rightarrow> u3072 \<Rightarrow> u3072" where
  "div_assign mod_inv x y = (case u3072_div mod_inv x y of Some z \<Rightarrow> z | None \<Rightarrow> [])"

lemma mul_assign_val:
  assumes "length x = LIMBS" "length y = LIMBS"
  shows "length (mul_assign x y) = LIMBS"
    and "limbs_val (mul_assign x y) mod MUHASH_PRIME = limbs_val x * limbs_val y mod MUHASH_PRIME"
  using mul_total[OF assms] by (auto simp: mul_assign_def)

lemma div_assign_val:
  assumes "mod_inverse_ok mod_inv" "length x = LIMBS" "length y = LIMBS" "coprime (limbs_val y) MUHASH_PRIME"
  shows "length (div_assign mod_inv x y) = LIMBS" "limbs_val (div_assign mod_inv x y) < MUHASH_PRIME"
    "limbs_val (div_assign mod_inv x y) * limbs_val y mod MUHASH_PRIME = limbs_val x mod MUHASH_PRIME"
  using div_total[OF assms] by (auto simp: div_assign_def)

lemma length_from_limbs [simp]: "length (u3072_from_limbs n bs) = n"
  by (induction n arbitrary: bs) simp_all

lemma length_from_le_bytes [simp]: "length (u3072_from_le_bytes bs) = LIMBS"
  by (simp add: u3072_from_le_bytes_def)

lemma from_limbs_to_bytes: "u3072_from_limbs (length xs) (concat (map u64_le xs)) = xs"
  by (induction xs) simp_all

lemma u3072_bytes_roundtrip: "length xs = LIMBS \<Longrightarrow> u3072_from_le_bytes (u3072_to_le_bytes xs) = xs"
  using from_limbs_to_bytes[of xs] by (simp add: u3072_from_le_bytes_def u3072_to_le_bytes_def)

lemma to_bytes_from_limbs: "length bs = 8 * n \<Longrightarrow> concat (map u64_le (u3072_from_limbs n bs)) = bs"
proof (induction n arbitrary: bs)
  case (Suc n)
  from Suc.prems have "u64_le (u64_of_le (take 8 bs)) = take 8 bs" by (simp add: u64_le_u64_of_le)
  moreover have "concat (map u64_le (u3072_from_limbs n (drop 8 bs))) = drop 8 bs"
    using Suc.prems by (intro Suc.IH) simp
  ultimately show ?case by simp
qed simp

lemma limbs_val_inj:
  "length xs = length ys \<Longrightarrow> limbs_val xs = limbs_val ys \<Longrightarrow> xs = ys"
proof (induction xs ys rule: list_induct2)
  case (Cons x xs y ys)
  have "unat x = (unat x + BB * limbs_val xs) mod BB" "unat y = (unat y + BB * limbs_val ys) mod BB"
    by simp_all
  with Cons.prems have x: "unat x = unat y" by (simp only: limbs_val.simps)
  with Cons.prems have "limbs_val xs = limbs_val ys" by simp
  with x Cons.IH show ?case by (simp add: word_unat_eq_iff)
qed simp

text \<open>
  \<^bold>\<open>C6\<close>. The limb-level multiplication, with its column sums, its carry chains and its two
  reductions, returns a 48-limb number congruent to the product modulo the prime, for every pair
  of 48-limb numbers, reduced or not, and none of its assertions ever fails.
\<close>

theorem u3072_mul_correct:
  assumes "length x = LIMBS" "length y = LIMBS"
  shows "\<exists>z. u3072_mul x y = Some z \<and> length z = LIMBS
    \<and> limbs_val z mod MUHASH_PRIME = limbs_val x * limbs_val y mod MUHASH_PRIME"
  by (rule mul_total[OF assms])

theorem u3072_mul_correct_witness:
  "\<exists>z. u3072_mul (replicate LIMBS (- 1)) (replicate LIMBS (- 1)) = Some z \<and> length z = LIMBS
    \<and> limbs_val z mod MUHASH_PRIME
      = limbs_val (replicate LIMBS (- 1)) * limbs_val (replicate LIMBS (- 1)) mod MUHASH_PRIME"
  by (rule u3072_mul_correct) simp_all

end
