(* ===== verification/Crypto_Env.thy ===== *)
theory Crypto_Env
  imports U3072
begin

text \<open>
  The external cryptographic primitives, gathered in one record that every definition using
  them takes as an argument: the hash functions, the ChaCha20 key stream, the modular inverse
  of the big-number library. \<open>hash_env_ok\<close> states what the code relies on: digest and stream
  lengths, and that the inverse is one. No collision freedom is assumed anywhere; injectivity
  results are stated for the hashed byte strings.
\<close>

record crypto_env =
  cr_blake3 :: "bytes \<Rightarrow> bytes"
  cr_blake2b :: "bytes \<Rightarrow> bytes"
  cr_sha256 :: "bytes \<Rightarrow> bytes"
  cr_chacha20 :: "bytes \<Rightarrow> nat \<Rightarrow> bytes"
  cr_mod_inverse :: "nat \<Rightarrow> nat \<Rightarrow> nat option"

definition hash_env_ok :: "crypto_env \<Rightarrow> bool" where
  "hash_env_ok E =
     ((\<forall>x. length (cr_blake3 E x) = 32) \<and> (\<forall>x. length (cr_blake2b E x) = 32)
      \<and> (\<forall>x. length (cr_sha256 E x) = 32) \<and> (\<forall>s n. length (cr_chacha20 E s n) = n)
      \<and> mod_inverse_ok (cr_mod_inverse E))"

text \<open>The domain-separated hashers of \<open>crypto/hashes/src/hashers.rs\<close>: the domain, then the data.\<close>

definition hasher :: "crypto_env \<Rightarrow> string \<Rightarrow> bytes \<Rightarrow> hash32" where
  "hasher E domain data = cr_blake3 E (str_bytes domain @ data)"

definition MerkleBranchHash :: "crypto_env \<Rightarrow> bytes \<Rightarrow> hash32" where
  "MerkleBranchHash E = hasher E ''MerkleBranchHash''"

definition MuHashElementHash :: "crypto_env \<Rightarrow> bytes \<Rightarrow> hash32" where
  "MuHashElementHash E = hasher E ''MuHashElement''"

definition MuHashFinalizeHash :: "crypto_env \<Rightarrow> bytes \<Rightarrow> hash32" where
  "MuHashFinalizeHash E = hasher E ''MuHashFinalize''"

definition CellTxSigningHash :: "crypto_env \<Rightarrow> bytes \<Rightarrow> hash32" where
  "CellTxSigningHash E = hasher E ''TransactionSigningHash''"

definition CellTxSigningHashEcdsa :: "crypto_env \<Rightarrow> bytes \<Rightarrow> hash32" where
  "CellTxSigningHashEcdsa E = hasher E ''TransactionSigningHashECDSA''"

definition SchnorrSigningHash :: "crypto_env \<Rightarrow> bytes \<Rightarrow> hash32" where
  "SchnorrSigningHash E data = cr_sha256 E (str_bytes ''SchnorrSigningHash'' @ data)"

lemma length_hashers [simp]:
  assumes "hash_env_ok E"
  shows "length (cr_blake3 E x) = 32" "length (cr_blake2b E x) = 32" "length (MerkleBranchHash E x) = 32"
    "length (MuHashElementHash E x) = 32" "length (MuHashFinalizeHash E x) = 32"
    "length (cr_sha256 E x) = 32"
  using assms
  by (simp_all add: hash_env_ok_def hasher_def MerkleBranchHash_def MuHashElementHash_def
      MuHashFinalizeHash_def)

text \<open>
  A concrete environment that meets the requirements, for evaluating the definitions: digests
  that keep the length and the first bytes of their input, a constant key stream, and the
  inverse found by search.
\<close>

definition toy_digest :: "bytes \<Rightarrow> bytes" where
  "toy_digest bs = take 32 (word_of_nat (length bs) # rev bs @ replicate 32 0)"

definition toy_stream :: "bytes \<Rightarrow> nat \<Rightarrow> bytes" where
  "toy_stream s n = take n (2 # replicate n 0)"

definition search_inverse :: "nat \<Rightarrow> nat \<Rightarrow> nat option" where
  "search_inverse x m = List.find (\<lambda>y. x * y mod m = 1) [0 ..< m]"

definition toy_env :: crypto_env where
  "toy_env = \<lparr>cr_blake3 = toy_digest, cr_blake2b = toy_digest, cr_sha256 = toy_digest,
              cr_chacha20 = toy_stream, cr_mod_inverse = search_inverse\<rparr>"

lemma coprime_inverse_exists:
  assumes "coprime x m" "1 < (m::nat)"
  shows "\<exists>y<m. x * y mod m = 1"
proof -
  from assms have "x \<noteq> 0" by (auto intro: Nat.gr0I)
  from bezout_nat[OF this, of m] assms(1) obtain u v where "x * u = m * v + 1"
    by (auto simp: coprime_iff_gcd_eq_1)
  then have "x * u mod m = 1" using assms(2) by (simp add: mod_Suc)
  then have "x * (u mod m) mod m = 1" by (simp add: mod_mult_right_eq)
  then show ?thesis using assms(2) by (intro exI[of _ "u mod m"]) simp
qed

lemma search_inverse_ok: "mod_inverse_ok search_inverse"
  unfolding mod_inverse_ok_def
proof (intro allI impI)
  fix x m :: nat assume "0 < x \<and> x < m \<and> coprime x m"
  then have *: "0 < x" "x < m" "coprime x m" by auto
  show "\<exists>y. search_inverse x m = Some y \<and> y < m \<and> x * y mod m = 1"
  proof (cases "search_inverse x m")
    case None
    then have "\<forall>y<m. x * y mod m \<noteq> 1" by (auto simp: search_inverse_def find_None_iff)
    with coprime_inverse_exists[of x m] * show ?thesis by auto
  next
    case (Some y)
    then show ?thesis by (auto simp: search_inverse_def find_Some_iff)
  qed
qed

lemma toy_env_ok: "hash_env_ok toy_env"
  by (auto simp: hash_env_ok_def toy_env_def toy_digest_def toy_stream_def search_inverse_ok min_def)

text \<open>
  \<^bold>\<open>C7\<close>. Division of 48-limb numbers by a number invertible modulo the prime returns the
  reduced quotient: it is below the prime, and times the divisor it is congruent to the
  dividend. No assertion and no \<open>expect\<close> fails on the way.
\<close>

theorem u3072_div_correct:
  assumes "mod_inverse_ok mod_inv" "length x = LIMBS" "length y = LIMBS" "coprime (limbs_val y) MUHASH_PRIME"
  shows "\<exists>z. u3072_div mod_inv x y = Some z \<and> length z = LIMBS \<and> limbs_val z < MUHASH_PRIME
    \<and> limbs_val z * limbs_val y mod MUHASH_PRIME = limbs_val x mod MUHASH_PRIME"
  by (rule div_total[OF assms])

theorem u3072_div_correct_witness:
  "\<exists>z. u3072_div search_inverse (replicate LIMBS (- 1)) u3072_one = Some z \<and> length z = LIMBS
    \<and> limbs_val z < MUHASH_PRIME
    \<and> limbs_val z * limbs_val u3072_one mod MUHASH_PRIME = limbs_val (replicate LIMBS (- 1)) mod MUHASH_PRIME"
  by (rule u3072_div_correct[OF search_inverse_ok]) (simp_all add: limbs_val_one u3072_one_def u3072_zero_def limbs_val_one[unfolded u3072_one_def u3072_zero_def])

end
