(* ===== verification/Sighash.thy ===== *)
theory Sighash
  imports Typed_Cells Crypto_Env
begin

unbundle bit_operations_syntax

text \<open>
  Transaction identifiers and signature hashes (\<open>exec/src/celltx/sighash.rs\<close>, the sighash
  type and the value cache of \<open>exec/src/vm/syscalls/load_signature_hash.rs\<close>). The byte strings
  handed to the hash functions are definitions of their own; the lemmas show what each of them
  determines, and that the cached signature hash is the uncached one.
\<close>

section \<open>Transaction identifiers\<close>

definition CELL_TXID_DOMAIN :: bytes where "CELL_TXID_DOMAIN = str_bytes ''myelin-cell/txid''"
definition CELL_WTXID_DOMAIN :: bytes where "CELL_WTXID_DOMAIN = str_bytes ''myelin-cell/wtxid''"
definition CELL_SIG_DOMAIN :: bytes where "CELL_SIG_DOMAIN = str_bytes ''myelin-cell/sig''"

definition body_input :: "cell_input \<Rightarrow> bytes" where
  "body_input i = op_tx_hash (ci_previous_output i) @ u32_le (op_index (ci_previous_output i)) @ u64_le (ci_since i)"

definition dep_type_byte :: "dep_type \<Rightarrow> u8" where
  "dep_type_byte t = (case t of Code \<Rightarrow> 0 | DepGroup \<Rightarrow> 1)"

definition body_dep :: "cell_dep \<Rightarrow> bytes" where
  "body_dep d = op_tx_hash (cd_out_point d) @ u32_le (op_index (cd_out_point d)) @ [dep_type_byte (cd_dep_type d)]"

definition body_script :: "script \<Rightarrow> bytes" where
  "body_script s = sc_code_hash s @ [sc_hash_type s] @ len32_bytes (sc_args s)"

definition body_output :: "cell_output \<Rightarrow> bytes" where
  "body_output out =
     body_script (co_lock out)
     @ (case co_type out of Some t \<Rightarrow> 1 # body_script t | None \<Rightarrow> [0])
     @ u64_le (co_capacity out)"

definition transaction_body :: "bytes \<Rightarrow> cell_tx \<Rightarrow> bytes" where
  "transaction_body domain tx =
     domain
     @ u32_le (tx_version tx)
     @ count32_list body_input (tx_inputs tx)
     @ count32_list body_dep (tx_cell_deps tx)
     @ count32_list (\<lambda>h. h) (tx_header_deps tx)
     @ count32_list body_output (tx_outputs tx)
     @ concat (map len32_bytes (tx_outputs_data tx))"

definition compute_txid :: "crypto_env \<Rightarrow> cell_tx \<Rightarrow> hash32" where
  "compute_txid E tx = cr_blake3 E (transaction_body CELL_TXID_DOMAIN tx)"

definition wtxid_preimage :: "cell_tx \<Rightarrow> bytes" where
  "wtxid_preimage tx = transaction_body CELL_WTXID_DOMAIN tx @ count32_list len32_bytes (tx_witnesses tx)"

definition compute_wtxid :: "crypto_env \<Rightarrow> cell_tx \<Rightarrow> hash32" where
  "compute_wtxid E tx = cr_blake3 E (wtxid_preimage tx)"

definition tx_id :: "crypto_env \<Rightarrow> cell_tx \<Rightarrow> hash32" where
  "tx_id E tx = compute_txid E tx"

definition rw_bound_sighash_preimage :: "crypto_env \<Rightarrow> cell_tx \<Rightarrow> u32 \<Rightarrow> u32 \<Rightarrow> hash32 \<Rightarrow> bytes" where
  "rw_bound_sighash_preimage E tx input_index network_id rw_commitment =
     CELL_SIG_DOMAIN @ u32_le network_id @ compute_wtxid E tx @ u32_le input_index @ rw_commitment"

definition compute_rw_bound_sighash :: "crypto_env \<Rightarrow> cell_tx \<Rightarrow> u32 \<Rightarrow> u32 \<Rightarrow> hash32 \<Rightarrow> hash32" where
  "compute_rw_bound_sighash E tx input_index network_id rw_commitment =
     cr_blake3 E (rw_bound_sighash_preimage E tx input_index network_id rw_commitment)"

definition pubkey_hash :: "crypto_env \<Rightarrow> bytes \<Rightarrow> bytes" where
  "pubkey_hash E pubkey = take 20 (cr_blake3 E pubkey)"

definition empty_rw_commitment :: "crypto_env \<Rightarrow> hash32" where
  "empty_rw_commitment E = cr_blake3 E (str_bytes ''empty-rw-set'')"

section \<open>The standard signature hash\<close>

definition ZERO_HASH :: hash32 where "ZERO_HASH = replicate 32 0"

record standard_signing_input =
  si_lock_hash :: hash32
  si_type_hash :: "hash32 option"
  si_data_hash :: hash32
  si_data_bytes :: u64
  si_capacity :: u64

definition sighash_type_from_u8 :: "u8 \<Rightarrow> u8 option" where
  "sighash_type_from_u8 v = (if v \<in> {1, 2, 4, 0x81, 0x82, 0x84} then Some v else None)"

definition is_sighash_none :: "u8 \<Rightarrow> bool" where "is_sighash_none t = (t AND 7 = 2)"
definition is_sighash_single :: "u8 \<Rightarrow> bool" where "is_sighash_single t = (t AND 7 = 4)"
definition is_sighash_anyone_can_pay :: "u8 \<Rightarrow> bool" where "is_sighash_anyone_can_pay t = (t AND 0x80 = 0x80)"

record sighash_cache =
  sh_previous_outputs :: "hash32 option"
  sh_sequences :: "hash32 option"
  sh_sig_op_counts :: "hash32 option"
  sh_outputs :: "hash32 option"
  sh_payload :: "hash32 option"

definition empty_cache :: sighash_cache where
  "empty_cache = \<lparr>sh_previous_outputs = None, sh_sequences = None, sh_sig_op_counts = None,
                  sh_outputs = None, sh_payload = None\<rparr>"

text \<open>
  \<open>get().unwrap_or_else(compute and set)\<close>: a cell of the cache, with the digest the
  closure computes. The first component is the value returned, the second the updated cell.
\<close>

definition cached :: "hash32 option \<Rightarrow> hash32 \<Rightarrow> hash32 \<times> hash32 option" where
  "cached slot computed = (case slot of Some h \<Rightarrow> (h, slot) | None \<Rightarrow> (computed, Some computed))"

definition previous_outputs_digest :: "crypto_env \<Rightarrow> cell_tx \<Rightarrow> hash32" where
  "previous_outputs_digest E tx =
     CellTxSigningHash E (concat (map (\<lambda>i. op_tx_hash (ci_previous_output i) @ u32_le (op_index (ci_previous_output i))) (tx_inputs tx)))"

definition sequences_digest :: "crypto_env \<Rightarrow> cell_tx \<Rightarrow> hash32" where
  "sequences_digest E tx = CellTxSigningHash E (concat (map (\<lambda>i. u64_le (ci_since i)) (tx_inputs tx)))"

definition sig_op_counts_digest :: "crypto_env \<Rightarrow> cell_tx \<Rightarrow> hash32" where
  "sig_op_counts_digest E tx = CellTxSigningHash E (concat (map (\<lambda>_. [1]) (tx_inputs tx)))"

definition payload_or_default :: "cell_tx \<Rightarrow> bytes" where
  "payload_or_default tx = (case payload tx of Some p \<Rightarrow> p | None \<Rightarrow> [])"

definition payload_digest :: "crypto_env \<Rightarrow> cell_tx \<Rightarrow> hash32" where
  "payload_digest E tx = CellTxSigningHash E (len64_bytes (payload_or_default tx))"

definition signing_script :: "script \<Rightarrow> bytes" where
  "signing_script s = sc_code_hash s @ [sc_hash_type s] @ len64_bytes (sc_args s)"

definition hash_cell_output :: "cell_output \<Rightarrow> bytes \<Rightarrow> bytes" where
  "hash_cell_output out data =
     u64_le (co_capacity out) @ signing_script (co_lock out)
     @ (case co_type out of Some t \<Rightarrow> 1 # signing_script t | None \<Rightarrow> [0])
     @ len64_bytes data"

definition output_data_or_default :: "cell_tx \<Rightarrow> nat \<Rightarrow> bytes" where
  "output_data_or_default tx i = (if i < length (tx_outputs_data tx) then tx_outputs_data tx ! i else [])"

definition outputs_digest :: "crypto_env \<Rightarrow> cell_tx \<Rightarrow> hash32" where
  "outputs_digest E tx =
     CellTxSigningHash E (concat (map (\<lambda>(i, out). hash_cell_output out (output_data_or_default tx i))
        (enumerate 0 (tx_outputs tx))))"

definition standard_previous_outputs_hash ::
  "crypto_env \<Rightarrow> cell_tx \<Rightarrow> u8 \<Rightarrow> sighash_cache \<Rightarrow> hash32 \<times> sighash_cache" where
  "standard_previous_outputs_hash E tx t c =
     (if is_sighash_anyone_can_pay t then (ZERO_HASH, c)
      else let (h, slot) = cached (sh_previous_outputs c) (previous_outputs_digest E tx)
           in (h, c\<lparr>sh_previous_outputs := slot\<rparr>))"

definition standard_sequences_hash ::
  "crypto_env \<Rightarrow> cell_tx \<Rightarrow> u8 \<Rightarrow> sighash_cache \<Rightarrow> hash32 \<times> sighash_cache" where
  "standard_sequences_hash E tx t c =
     (if is_sighash_single t \<or> is_sighash_anyone_can_pay t \<or> is_sighash_none t then (ZERO_HASH, c)
      else let (h, slot) = cached (sh_sequences c) (sequences_digest E tx)
           in (h, c\<lparr>sh_sequences := slot\<rparr>))"

definition standard_sig_op_counts_hash ::
  "crypto_env \<Rightarrow> cell_tx \<Rightarrow> u8 \<Rightarrow> sighash_cache \<Rightarrow> hash32 \<times> sighash_cache" where
  "standard_sig_op_counts_hash E tx t c =
     (if is_sighash_anyone_can_pay t then (ZERO_HASH, c)
      else let (h, slot) = cached (sh_sig_op_counts c) (sig_op_counts_digest E tx)
           in (h, c\<lparr>sh_sig_op_counts := slot\<rparr>))"

definition standard_payload_hash :: "crypto_env \<Rightarrow> cell_tx \<Rightarrow> sighash_cache \<Rightarrow> hash32 \<times> sighash_cache" where
  "standard_payload_hash E tx c =
     (if \<not> is_coinbase tx \<and> payload_or_default tx = [] then (ZERO_HASH, c)
      else let (h, slot) = cached (sh_payload c) (payload_digest E tx)
           in (h, c\<lparr>sh_payload := slot\<rparr>))"

definition standard_outputs_hash ::
  "crypto_env \<Rightarrow> cell_tx \<Rightarrow> u8 \<Rightarrow> nat \<Rightarrow> sighash_cache \<Rightarrow> hash32 \<times> sighash_cache" where
  "standard_outputs_hash E tx t input_index c =
     (if is_sighash_none t then (ZERO_HASH, c)
      else if is_sighash_single t then
        (if length (tx_outputs tx) \<le> input_index then (ZERO_HASH, c)
         else (CellTxSigningHash E (hash_cell_output (tx_outputs tx ! input_index)
                  (output_data_or_default tx input_index)), c))
      else let (h, slot) = cached (sh_outputs c) (outputs_digest E tx)
           in (h, c\<lparr>sh_outputs := slot\<rparr>))"

definition hash_standard_signing_input :: "standard_signing_input \<Rightarrow> bytes" where
  "hash_standard_signing_input s =
     si_lock_hash s @ (case si_type_hash s of Some h \<Rightarrow> 1 # h | None \<Rightarrow> [0])
     @ si_data_hash s @ u64_le (si_data_bytes s)"

text \<open>\<open>None\<close> stands for the panic of the out-of-range input access.\<close>

definition calc_standard_signature_hash ::
  "crypto_env \<Rightarrow> cell_tx \<Rightarrow> nat \<Rightarrow> u8 \<Rightarrow> standard_signing_input \<Rightarrow> sighash_cache \<Rightarrow> (hash32 \<times> sighash_cache) option" where
  "calc_standard_signature_hash E tx input_index t s c =
     (if length (tx_inputs tx) \<le> input_index then None
      else
        let input = tx_inputs tx ! input_index;
            (prev, c) = standard_previous_outputs_hash E tx t c;
            (seqs, c) = standard_sequences_hash E tx t c;
            (sigops, c) = standard_sig_op_counts_hash E tx t c;
            (outs, c) = standard_outputs_hash E tx t input_index c;
            (pay, c) = standard_payload_hash E tx c
        in Some (SchnorrSigningHash E
             (u32_le (tx_version tx) @ prev @ seqs @ sigops
              @ op_tx_hash (ci_previous_output input) @ u32_le (op_index (ci_previous_output input))
              @ hash_standard_signing_input s
              @ u64_le (si_capacity s) @ u64_le (ci_since input) @ [1]
              @ outs @ u64_le 0 @ pay @ [t]), c))"

definition calc_standard_ecdsa_signature_hash ::
  "crypto_env \<Rightarrow> cell_tx \<Rightarrow> nat \<Rightarrow> u8 \<Rightarrow> standard_signing_input \<Rightarrow> sighash_cache \<Rightarrow> (hash32 \<times> sighash_cache) option" where
  "calc_standard_ecdsa_signature_hash E tx input_index t s c =
     map_option (\<lambda>(h, c). (CellTxSigningHashEcdsa E h, c)) (calc_standard_signature_hash E tx input_index t s c)"

section \<open>What the identifier bytes determine\<close>

interpretation body_input_code: prefix_code body_input "\<lambda>i. wf_outpoint (ci_previous_output i)"
proof (rule fixed_width_prefix_code[where n = 44])
  fix i j assume w: "wf_outpoint (ci_previous_output i)" "wf_outpoint (ci_previous_output j)"
    and e: "body_input i = body_input j"
  then have h: "op_tx_hash (ci_previous_output i) = op_tx_hash (ci_previous_output j)"
    and r: "u32_le (op_index (ci_previous_output i)) @ u64_le (ci_since i)
          = u32_le (op_index (ci_previous_output j)) @ u64_le (ci_since j)"
    by (auto simp: body_input_def wf_outpoint_def append_eq_append_conv)
  from r have "op_index (ci_previous_output i) = op_index (ci_previous_output j)" "ci_since i = ci_since j"
    by (auto simp: append_eq_append_conv)
  with h show "i = j" by (cases i; cases j) (auto intro: outpoint.expand)
qed (auto simp: body_input_def wf_outpoint_def)

interpretation body_dep_code: prefix_code body_dep "\<lambda>d. wf_outpoint (cd_out_point d)"
proof (rule fixed_width_prefix_code[where n = 37])
  fix i j assume w: "wf_outpoint (cd_out_point i)" "wf_outpoint (cd_out_point j)"
    and e: "body_dep i = body_dep j"
  then have h: "op_tx_hash (cd_out_point i) = op_tx_hash (cd_out_point j)"
    and r: "u32_le (op_index (cd_out_point i)) @ [dep_type_byte (cd_dep_type i)]
          = u32_le (op_index (cd_out_point j)) @ [dep_type_byte (cd_dep_type j)]"
    by (auto simp: body_dep_def wf_outpoint_def append_eq_append_conv)
  from r have "op_index (cd_out_point i) = op_index (cd_out_point j)" "cd_dep_type i = cd_dep_type j"
    by (auto simp: append_eq_append_conv dep_type_byte_def split: dep_type.splits)
  with h show "i = j" by (cases i; cases j) (auto intro: outpoint.expand)
qed (auto simp: body_dep_def wf_outpoint_def)

lemma body_script_prefix:
  "wf_script s \<Longrightarrow> wf_script t \<Longrightarrow> body_script s @ r = body_script t @ r' \<Longrightarrow> s = t \<and> r = r'"
  using script_body_inj[of s t r r'] by (simp add: body_script_def)

interpretation body_output_code: prefix_code body_output wf_output
proof
  fix x y r s
  assume w: "wf_output x" "wf_output y" and e: "body_output x @ r = body_output y @ s"
  let ?t = "\<lambda>out. case co_type out of Some t \<Rightarrow> 1 # body_script t | None \<Rightarrow> [0]"
  from e have "body_script (co_lock x) @ (?t x @ u64_le (co_capacity x) @ r)
      = body_script (co_lock y) @ (?t y @ u64_le (co_capacity y) @ s)"
    by (simp add: body_output_def)
  from body_script_prefix[OF _ _ this] w have l: "co_lock x = co_lock y"
    and t: "?t x @ u64_le (co_capacity x) @ r = ?t y @ u64_le (co_capacity y) @ s"
    by (simp_all add: wf_output_def)
  have "co_type x = co_type y \<and> u64_le (co_capacity x) @ r = u64_le (co_capacity y) @ s"
  proof (cases "co_type x")
    case None
    with t show ?thesis by (cases "co_type y") simp_all
  next
    case (Some a)
    with t obtain b where b: "co_type y = Some b" by (cases "co_type y") simp_all
    with Some t have "body_script a @ u64_le (co_capacity x) @ r = body_script b @ u64_le (co_capacity y) @ s"
      by simp
    from body_script_prefix[OF _ _ this] w Some b show ?thesis by (simp add: wf_output_def)
  qed
  then have "co_type x = co_type y" "co_capacity x = co_capacity y" "r = s"
    by (auto dest: u64_code.prefix_inj[OF TrueI TrueI])
  with l show "x = y \<and> r = s" by (cases x; cases y) simp
qed

interpretation inputs_code: prefix_code "count32_list body_input"
  "\<lambda>xs. short32 xs \<and> (\<forall>i\<in>set xs. wf_outpoint (ci_previous_output i))"
  by (rule body_input_code.count32_list_prefix)

interpretation deps_code: prefix_code "count32_list body_dep"
  "\<lambda>xs. short32 xs \<and> (\<forall>d\<in>set xs. wf_outpoint (cd_out_point d))"
  by (rule body_dep_code.count32_list_prefix)

interpretation headers_code: prefix_code "count32_list (\<lambda>h. h)"
  "\<lambda>xs. short32 xs \<and> (\<forall>h\<in>set xs. length h = 32)"
  by (rule hash_code.count32_list_prefix)

interpretation outputs_code: prefix_code "count32_list body_output"
  "\<lambda>xs. short32 xs \<and> (\<forall>out\<in>set xs. wf_output out)"
  by (rule body_output_code.count32_list_prefix)

interpretation witnesses_code: prefix_code "count32_list len32_bytes"
  "\<lambda>xs. short32 xs \<and> (\<forall>w\<in>set xs. short32 w)"
  by (rule len32_code.count32_list_prefix)

lemma wf_tx_parts:
  assumes "wf_tx t"
  shows "short32 (tx_inputs t) \<and> (\<forall>i\<in>set (tx_inputs t). wf_outpoint (ci_previous_output i))"
    "short32 (tx_cell_deps t) \<and> (\<forall>d\<in>set (tx_cell_deps t). wf_outpoint (cd_out_point d))"
    "short32 (tx_header_deps t) \<and> (\<forall>h\<in>set (tx_header_deps t). length h = 32)"
    "short32 (tx_outputs t) \<and> (\<forall>out\<in>set (tx_outputs t). wf_output out)"
    "short32 (tx_witnesses t) \<and> (\<forall>w\<in>set (tx_witnesses t). short32 w)"
    "\<forall>d\<in>set (tx_outputs_data t). short32 d"
    "length (tx_outputs_data t) = length (tx_outputs t)"
  using assms unfolding wf_tx_def by blast+

text \<open>The body bytes determine every field but the witnesses, and what follows them.\<close>

lemma transaction_body_inj:
  assumes "wf_tx a" "wf_tx b" "transaction_body d a @ r = transaction_body d b @ s"
  shows "a\<lparr>tx_witnesses := []\<rparr> = b\<lparr>tx_witnesses := []\<rparr> \<and> r = s"
proof -
  note wa = wf_tx_parts[OF assms(1)] and wb = wf_tx_parts[OF assms(2)]
  let ?data = "\<lambda>t. concat (map len32_bytes (tx_outputs_data t))"
  let ?outs = "\<lambda>t. count32_list body_output (tx_outputs t) @ ?data t"
  let ?heads = "\<lambda>t. count32_list (\<lambda>h. h) (tx_header_deps t) @ ?outs t"
  let ?deps = "\<lambda>t. count32_list body_dep (tx_cell_deps t) @ ?heads t"
  let ?ins = "\<lambda>t. count32_list body_input (tx_inputs t) @ ?deps t"
  from assms(3) have "u32_le (tx_version a) @ ?ins a @ r = u32_le (tx_version b) @ ?ins b @ s"
    by (simp add: transaction_body_def)
  from u32_code.prefix_inj[OF TrueI TrueI this]
  have v: "tx_version a = tx_version b" and
    "count32_list body_input (tx_inputs a) @ (?deps a @ r) = count32_list body_input (tx_inputs b) @ (?deps b @ s)"
    by simp_all
  from inputs_code.prefix_inj[OF wa(1) wb(1) this(2)]
  have i: "tx_inputs a = tx_inputs b" and
    "count32_list body_dep (tx_cell_deps a) @ (?heads a @ r) = count32_list body_dep (tx_cell_deps b) @ (?heads b @ s)"
    by simp_all
  from deps_code.prefix_inj[OF wa(2) wb(2) this(2)]
  have dp: "tx_cell_deps a = tx_cell_deps b" and
    "count32_list (\<lambda>h. h) (tx_header_deps a) @ (?outs a @ r) = count32_list (\<lambda>h. h) (tx_header_deps b) @ (?outs b @ s)"
    by simp_all
  from headers_code.prefix_inj[OF wa(3) wb(3) this(2)]
  have hs: "tx_header_deps a = tx_header_deps b" and
    "count32_list body_output (tx_outputs a) @ (?data a @ r) = count32_list body_output (tx_outputs b) @ (?data b @ s)"
    by simp_all
  from outputs_code.prefix_inj[OF wa(4) wb(4) this(2)]
  have out: "tx_outputs a = tx_outputs b" and "?data a @ r = ?data b @ s" by simp_all
  from len32_code.concat_inj[OF _ wa(6) wb(6) this(2)]
  have "tx_outputs_data a = tx_outputs_data b \<and> r = s" using wa(7) wb(7) out by simp
  with v i dp hs out show ?thesis by (cases a; cases b) simp
qed

lemma wtxid_preimage_inj:
  assumes "wf_tx a" "wf_tx b" "wtxid_preimage a = wtxid_preimage b"
  shows "a = b"
proof -
  from transaction_body_inj[OF assms(1,2) assms(3)[unfolded wtxid_preimage_def]]
  have body: "a\<lparr>tx_witnesses := []\<rparr> = b\<lparr>tx_witnesses := []\<rparr>"
    and "count32_list len32_bytes (tx_witnesses a) = count32_list len32_bytes (tx_witnesses b)"
    by simp_all
  from witnesses_code.enc_inj[OF wf_tx_parts(5)[OF assms(1)] wf_tx_parts(5)[OF assms(2)] this(2)]
  have "tx_witnesses a = tx_witnesses b" .
  with body show ?thesis by (cases a; cases b) simp
qed

lemma txid_wtxid_disjoint: "transaction_body CELL_TXID_DOMAIN a \<noteq> wtxid_preimage b"
proof
  assume "transaction_body CELL_TXID_DOMAIN a = wtxid_preimage b"
  then have "transaction_body CELL_TXID_DOMAIN a ! 12 = wtxid_preimage b ! 12" by simp
  then show False
    by (simp add: transaction_body_def wtxid_preimage_def CELL_TXID_DOMAIN_def CELL_WTXID_DOMAIN_def
        str_bytes_def nth_append)
qed

section \<open>The cache is transparent\<close>

definition cache_ok :: "crypto_env \<Rightarrow> cell_tx \<Rightarrow> sighash_cache \<Rightarrow> bool" where
  "cache_ok E tx c =
     (sh_previous_outputs c \<in> {None, Some (previous_outputs_digest E tx)}
      \<and> sh_sequences c \<in> {None, Some (sequences_digest E tx)}
      \<and> sh_sig_op_counts c \<in> {None, Some (sig_op_counts_digest E tx)}
      \<and> sh_outputs c \<in> {None, Some (outputs_digest E tx)}
      \<and> sh_payload c \<in> {None, Some (payload_digest E tx)})"

lemma cache_ok_empty: "cache_ok E tx empty_cache"
  by (simp add: cache_ok_def empty_cache_def)

lemma component_hashes_cached:
  assumes "cache_ok E tx c"
  shows "fst (standard_previous_outputs_hash E tx t c) = fst (standard_previous_outputs_hash E tx t empty_cache)"
    "cache_ok E tx (snd (standard_previous_outputs_hash E tx t c))"
    "fst (standard_sequences_hash E tx t c) = fst (standard_sequences_hash E tx t empty_cache)"
    "cache_ok E tx (snd (standard_sequences_hash E tx t c))"
    "fst (standard_sig_op_counts_hash E tx t c) = fst (standard_sig_op_counts_hash E tx t empty_cache)"
    "cache_ok E tx (snd (standard_sig_op_counts_hash E tx t c))"
    "fst (standard_outputs_hash E tx t i c) = fst (standard_outputs_hash E tx t i empty_cache)"
    "cache_ok E tx (snd (standard_outputs_hash E tx t i c))"
    "fst (standard_payload_hash E tx c) = fst (standard_payload_hash E tx empty_cache)"
    "cache_ok E tx (snd (standard_payload_hash E tx c))"
  using assms
  by (auto simp: cache_ok_def empty_cache_def standard_previous_outputs_hash_def standard_sequences_hash_def
      standard_sig_op_counts_hash_def standard_outputs_hash_def standard_payload_hash_def cached_def
      split: option.splits)

lemma calc_standard_signature_hash_cached:
  assumes "cache_ok E tx c"
  shows "map_option fst (calc_standard_signature_hash E tx i t s c)
      = map_option fst (calc_standard_signature_hash E tx i t s empty_cache)"
    and "calc_standard_signature_hash E tx i t s c = Some (h, c') \<Longrightarrow> cache_ok E tx c'"
proof -
  define c1 where "c1 = snd (standard_previous_outputs_hash E tx t c)"
  define c2 where "c2 = snd (standard_sequences_hash E tx t c1)"
  define c3 where "c3 = snd (standard_sig_op_counts_hash E tx t c2)"
  define c4 where "c4 = snd (standard_outputs_hash E tx t i c3)"
  define c5 where "c5 = snd (standard_payload_hash E tx c4)"
  have ok: "cache_ok E tx c1" "cache_ok E tx c2" "cache_ok E tx c3" "cache_ok E tx c4" "cache_ok E tx c5"
    unfolding c1_def c2_def c3_def c4_def c5_def by (intro component_hashes_cached assms)+
  define e1 where "e1 = snd (standard_previous_outputs_hash E tx t empty_cache)"
  define e2 where "e2 = snd (standard_sequences_hash E tx t e1)"
  define e3 where "e3 = snd (standard_sig_op_counts_hash E tx t e2)"
  define e4 where "e4 = snd (standard_outputs_hash E tx t i e3)"
  have oke: "cache_ok E tx e1" "cache_ok E tx e2" "cache_ok E tx e3" "cache_ok E tx e4"
    unfolding e1_def e2_def e3_def e4_def by (intro component_hashes_cached cache_ok_empty)+
  note hashes = component_hashes_cached(1)[OF assms] component_hashes_cached(3)[OF ok(1)]
    component_hashes_cached(5)[OF ok(2)] component_hashes_cached(7)[OF ok(3)] component_hashes_cached(9)[OF ok(4)]
    component_hashes_cached(3)[OF oke(1)] component_hashes_cached(5)[OF oke(2)]
    component_hashes_cached(7)[OF oke(3)] component_hashes_cached(9)[OF oke(4)]
  show "map_option fst (calc_standard_signature_hash E tx i t s c)
      = map_option fst (calc_standard_signature_hash E tx i t s empty_cache)"
    unfolding calc_standard_signature_hash_def Let_def case_prod_unfold
      c1_def[symmetric] c2_def[symmetric] c3_def[symmetric] c4_def[symmetric]
      e1_def[symmetric] e2_def[symmetric] e3_def[symmetric] e4_def[symmetric] hashes
    by simp
  show "cache_ok E tx c'" if "calc_standard_signature_hash E tx i t s c = Some (h, c')"
    using that ok(5)
    unfolding calc_standard_signature_hash_def Let_def case_prod_unfold
      c1_def[symmetric] c2_def[symmetric] c3_def[symmetric] c4_def[symmetric] c5_def[symmetric]
    by (auto split: if_splits)
qed

text \<open>A sequence of signature-hash requests of one syscall handler, which owns one cache.\<close>

fun signature_hash_requests ::
  "crypto_env \<Rightarrow> cell_tx \<Rightarrow> (nat \<times> u8 \<times> standard_signing_input) list \<Rightarrow> sighash_cache \<Rightarrow> hash32 list option" where
  "signature_hash_requests E tx [] c = Some []"
| "signature_hash_requests E tx ((i, t, s) # reqs) c =
     (case calc_standard_signature_hash E tx i t s c of
        None \<Rightarrow> None
      | Some (h, c') \<Rightarrow> map_option ((#) h) (signature_hash_requests E tx reqs c'))"

lemma requests_uncached:
  "cache_ok E tx c \<Longrightarrow> signature_hash_requests E tx reqs c =
     those (map (\<lambda>(i, t, s). map_option fst (calc_standard_signature_hash E tx i t s empty_cache)) reqs)"
proof (induction reqs arbitrary: c)
  case (Cons r reqs)
  obtain i t s where r: "r = (i, t, s)" by (cases r)
  note c = calc_standard_signature_hash_cached[OF Cons.prems, of i t s]
  show ?case
  proof (cases "calc_standard_signature_hash E tx i t s c")
    case None
    with c(1) have "calc_standard_signature_hash E tx i t s empty_cache = None"
      by (metis option.map_disc_iff)
    with None show ?thesis by (simp add: r)
  next
    case (Some hc)
    obtain h c' where hc: "hc = (h, c')" by (cases hc)
    from c(1) Some hc obtain c0 where "calc_standard_signature_hash E tx i t s empty_cache = Some (h, c0)"
      by (cases "calc_standard_signature_hash E tx i t s empty_cache") auto
    moreover have "cache_ok E tx c'" using c(2) Some hc by blast
    ultimately show ?thesis using Some hc Cons.IH[of c'] by (simp add: r)
  qed
qed simp

text \<open>
  \<^bold>\<open>C10\<close>. The cache of reused sub-hashes is transparent: on a fresh cache, any sequence of
  signature-hash requests for one transaction, with any mix of input indices, hash types and
  signing inputs, returns exactly the hashes computed without a cache, and panics exactly when
  one of the uncached computations does.
\<close>

theorem cached_signature_hashes:
  "signature_hash_requests E tx reqs empty_cache =
     those (map (\<lambda>(i, t, s). map_option fst (calc_standard_signature_hash E tx i t s empty_cache)) reqs)"
  by (rule requests_uncached) (rule cache_ok_empty)

text \<open>
  \<^bold>\<open>C9\<close>. For transactions within the type bounds, the bytes hashed into the transaction id
  agree exactly when the transactions agree on everything but the witnesses, the bytes hashed
  into the witness id agree exactly when the transactions are equal, and the two kinds of bytes
  never coincide.
\<close>

theorem transaction_identifiers_bind:
  assumes "wf_tx a" "wf_tx b"
  shows "(transaction_body CELL_TXID_DOMAIN a = transaction_body CELL_TXID_DOMAIN b
           \<longleftrightarrow> a\<lparr>tx_witnesses := []\<rparr> = b\<lparr>tx_witnesses := []\<rparr>)
    \<and> (wtxid_preimage a = wtxid_preimage b \<longleftrightarrow> a = b)
    \<and> transaction_body CELL_TXID_DOMAIN a \<noteq> wtxid_preimage b"
proof (intro conjI)
  have "transaction_body d t = transaction_body d (t\<lparr>tx_witnesses := []\<rparr>)" for d t
    by (simp add: transaction_body_def)
  then show "transaction_body CELL_TXID_DOMAIN a = transaction_body CELL_TXID_DOMAIN b
           \<longleftrightarrow> a\<lparr>tx_witnesses := []\<rparr> = b\<lparr>tx_witnesses := []\<rparr>"
    using transaction_body_inj[OF assms, of CELL_TXID_DOMAIN "[]" "[]"] by (metis append_Nil2)
  show "wtxid_preimage a = wtxid_preimage b \<longleftrightarrow> a = b" using wtxid_preimage_inj[OF assms] by blast
  show "transaction_body CELL_TXID_DOMAIN a \<noteq> wtxid_preimage b" by (rule txid_wtxid_disjoint)
qed

definition sample_script :: script where
  "sample_script = \<lparr>sc_code_hash = replicate 32 1, sc_hash_type = 0, sc_args = [7]\<rparr>"

definition sample_tx :: "u64 \<Rightarrow> bytes list \<Rightarrow> cell_tx" where
  "sample_tx capacity witnesses =
     \<lparr>tx_version = 0, tx_inputs = [\<lparr>ci_previous_output = OutPoint (replicate 32 9) 0, ci_since = 0\<rparr>],
      tx_cell_deps = [], tx_header_deps = [],
      tx_outputs = [\<lparr>co_lock = sample_script, co_type = None, co_capacity = capacity\<rparr>],
      tx_outputs_data = [[5, 6]], tx_witnesses = witnesses\<rparr>"

lemma wf_sample_tx: "short32 ws \<Longrightarrow> \<forall>w\<in>set ws. short32 w \<Longrightarrow> wf_tx (sample_tx c ws)"
  by (simp add: wf_tx_def sample_tx_def sample_script_def wf_outpoint_def wf_output_def wf_script_def short32_def)

theorem transaction_identifiers_bind_witness:
  "wf_tx (sample_tx 900 [[1]]) \<and> wf_tx (sample_tx 900 [])
   \<and> transaction_body CELL_TXID_DOMAIN (sample_tx 900 [[1]]) = transaction_body CELL_TXID_DOMAIN (sample_tx 900 [])
   \<and> wtxid_preimage (sample_tx 900 [[1]]) \<noteq> wtxid_preimage (sample_tx 900 [])"
proof -
  have w: "wf_tx (sample_tx 900 [[1]])" "wf_tx (sample_tx 900 [])"
    by (rule wf_sample_tx; simp add: short32_def)+
  from transaction_identifiers_bind[OF w] w show ?thesis by (simp add: sample_tx_def)
qed

end
