(* ===== verification/MuHash.thy ===== *)
theory MuHash
  imports Crypto_Env "HOL-Library.Multiset"
begin

text \<open>
  The multiplicative set hash (\<open>crypto/muhash/src/lib.rs\<close>): a numerator that collects the
  elements added and a denominator that collects the elements removed. The locale
  \<open>set_accumulator\<close> is its contract: the digest depends only on the multiset of elements
  added and not removed. The interpretation proves the contract for the limb arithmetic.
\<close>

section \<open>Model\<close>

record muhash =
  mh_numerator :: u3072
  mh_denominator :: u3072

definition ELEMENT_BYTE_SIZE :: nat where "ELEMENT_BYTE_SIZE = 384"

definition mh_new :: muhash where
  "mh_new = \<lparr>mh_numerator = u3072_one, mh_denominator = u3072_one\<rparr>"

definition data_to_element :: "crypto_env \<Rightarrow> bytes \<Rightarrow> u3072" where
  "data_to_element E data =
     u3072_from_le_bytes (cr_chacha20 E (MuHashElementHash E data) ELEMENT_BYTE_SIZE)"

definition mh_add_element :: "crypto_env \<Rightarrow> bytes \<Rightarrow> muhash \<Rightarrow> muhash" where
  "mh_add_element E data m = m\<lparr>mh_numerator := mul_assign (mh_numerator m) (data_to_element E data)\<rparr>"

definition mh_remove_element :: "crypto_env \<Rightarrow> bytes \<Rightarrow> muhash \<Rightarrow> muhash" where
  "mh_remove_element E data m = m\<lparr>mh_denominator := mul_assign (mh_denominator m) (data_to_element E data)\<rparr>"

definition mh_combine :: "muhash \<Rightarrow> muhash \<Rightarrow> muhash" where
  "mh_combine m other =
     m\<lparr>mh_numerator := mul_assign (mh_numerator m) (mh_numerator other),
       mh_denominator := mul_assign (mh_denominator m) (mh_denominator other)\<rparr>"

definition mh_normalize :: "crypto_env \<Rightarrow> muhash \<Rightarrow> muhash" where
  "mh_normalize E m =
     m\<lparr>mh_numerator := div_assign (cr_mod_inverse E) (mh_numerator m) (mh_denominator m),
       mh_denominator := u3072_one\<rparr>"

definition mh_serialize :: "crypto_env \<Rightarrow> muhash \<Rightarrow> bytes \<times> muhash" where
  "mh_serialize E m = (let m = mh_normalize E m in (u3072_to_le_bytes (mh_numerator m), m))"

definition mh_deserialize :: "bytes \<Rightarrow> muhash option" where
  "mh_deserialize data =
     (let numerator = u3072_from_le_bytes data
      in if is_overflow numerator then None
         else Some \<lparr>mh_numerator = numerator, mh_denominator = u3072_one\<rparr>)"

definition mh_finalize :: "crypto_env \<Rightarrow> muhash \<Rightarrow> hash32 \<times> muhash" where
  "mh_finalize E m = (let (serialized, m) = mh_serialize E m in (MuHashFinalizeHash E serialized, m))"

section \<open>The contract of a set accumulator\<close>

locale set_accumulator =
  fixes acc_new :: 'a
    and acc_add :: "'d \<Rightarrow> 'a \<Rightarrow> 'a"
    and acc_remove :: "'d \<Rightarrow> 'a \<Rightarrow> 'a"
    and acc_final :: "'a \<Rightarrow> 'h"
    and acc_rep :: "'a \<Rightarrow> 'd multiset \<Rightarrow> 'd multiset \<Rightarrow> bool"
    and acc_digest :: "'d multiset \<Rightarrow> 'h"
    and acc_good :: "'d \<Rightarrow> bool"
    and acc_ok :: bool
  assumes rep_new: "acc_rep acc_new {#} {#}"
    and rep_add: "acc_rep a A R \<Longrightarrow> acc_rep (acc_add d a) (add_mset d A) R"
    and rep_remove: "acc_rep a A R \<Longrightarrow> acc_rep (acc_remove d a) A (add_mset d R)"
    and rep_final: "acc_ok \<Longrightarrow> acc_rep a A R \<Longrightarrow> R \<subseteq># A \<Longrightarrow> \<forall>d\<in>#A. acc_good d \<Longrightarrow>
      acc_final a = acc_digest (A - R)"
begin

lemma history_independent:
  assumes "acc_ok" "acc_rep a (M + R) R" "acc_rep b (M + S) S" "\<forall>d\<in>#M + R + S. acc_good d"
  shows "acc_final a = acc_final b"
proof -
  have "acc_final a = acc_digest (M + R - R)" using assms by (intro rep_final) auto
  moreover have "acc_final b = acc_digest (M + S - S)" using assms by (intro rep_final) auto
  ultimately show ?thesis by simp
qed

lemma rep_adds: "acc_rep a A R \<Longrightarrow> acc_rep (fold acc_add ds a) (mset ds + A) R"
proof (induction ds arbitrary: a A)
  case (Cons d ds)
  from Cons.IH[OF rep_add[OF Cons.prems, of d]] show ?case by simp
qed simp

end

section \<open>MuHash meets the contract\<close>

definition element_val :: "crypto_env \<Rightarrow> bytes \<Rightarrow> nat" where
  "element_val E d = limbs_val (data_to_element E d)"

definition mh_rep :: "crypto_env \<Rightarrow> muhash \<Rightarrow> bytes multiset \<Rightarrow> bytes multiset \<Rightarrow> bool" where
  "mh_rep E m A R =
     (length (mh_numerator m) = LIMBS \<and> length (mh_denominator m) = LIMBS
      \<and> limbs_val (mh_numerator m) mod MUHASH_PRIME = (\<Prod>d\<in>#A. element_val E d) mod MUHASH_PRIME
      \<and> limbs_val (mh_denominator m) mod MUHASH_PRIME = (\<Prod>d\<in>#R. element_val E d) mod MUHASH_PRIME)"

definition mh_good :: "crypto_env \<Rightarrow> bytes \<Rightarrow> bool" where
  "mh_good E d = coprime (element_val E d) MUHASH_PRIME"

definition mh_digest :: "crypto_env \<Rightarrow> bytes multiset \<Rightarrow> hash32" where
  "mh_digest E M =
     MuHashFinalizeHash E (u3072_to_le_bytes (nat_to_limbs LIMBS ((\<Prod>d\<in>#M. element_val E d) mod MUHASH_PRIME)))"

lemma mod_mult_cancel:
  fixes z w r p :: nat
  assumes "z * r mod p = w * r mod p" "coprime r p"
  shows "z mod p = w mod p"
proof -
  have "int p dvd int z * int r - int w * int r"
    using assms(1) by (metis mod_eq_dvd_iff of_nat_mod of_nat_mult)
  then have "int p dvd (int z - int w) * int r" by (simp add: left_diff_distrib)
  moreover have "coprime (int p) (int r)" using assms(2) by (simp add: coprime_commute)
  ultimately have "int p dvd int z - int w" by (simp add: coprime_dvd_mult_left_iff)
  then have "int z mod int p = int w mod int p" by (simp add: mod_eq_dvd_iff)
  then show ?thesis by (metis of_nat_eq_iff of_nat_mod)
qed

lemma length_data_to_element [simp]: "length (data_to_element E d) = LIMBS"
  by (simp add: data_to_element_def)

lemma length_u3072_one [simp]: "length u3072_one = LIMBS"
  by (simp add: u3072_one_def u3072_zero_def)

lemma mh_rep_new: "mh_rep E mh_new {#} {#}"
  by (simp add: mh_rep_def mh_new_def limbs_val_one)

lemma mul_element_mod:
  assumes "length x = LIMBS" "limbs_val x mod MUHASH_PRIME = q mod MUHASH_PRIME"
  shows "limbs_val (mul_assign x (data_to_element E d)) mod MUHASH_PRIME = element_val E d * q mod MUHASH_PRIME"
proof -
  have "limbs_val (mul_assign x (data_to_element E d)) mod MUHASH_PRIME
      = limbs_val x * element_val E d mod MUHASH_PRIME"
    using mul_assign_val(2)[OF assms(1) length_data_to_element] by (simp only: element_val_def)
  also have "\<dots> = q * element_val E d mod MUHASH_PRIME" using assms(2) by (metis mod_mult_left_eq)
  finally show ?thesis by (simp only: mult.commute)
qed

lemma mh_rep_add: "mh_rep E m A R \<Longrightarrow> mh_rep E (mh_add_element E d m) (add_mset d A) R"
  by (simp add: mh_rep_def mh_add_element_def mul_assign_val(1) mul_element_mod)

lemma mh_rep_remove: "mh_rep E m A R \<Longrightarrow> mh_rep E (mh_remove_element E d m) A (add_mset d R)"
  by (simp add: mh_rep_def mh_remove_element_def mul_assign_val(1) mul_element_mod)

lemma coprime_prod_mset: "\<forall>d\<in>#A. coprime (f d) (p::nat) \<Longrightarrow> coprime (\<Prod>d\<in>#A. f d) p"
  by (induction A) auto

lemma mh_rep_normalize:
  assumes "hash_env_ok E" "mh_rep E m A R" "R \<subseteq># A" "\<forall>d\<in>#A. mh_good E d"
  shows "mh_numerator (mh_normalize E m)
    = nat_to_limbs LIMBS ((\<Prod>d\<in>#A - R. element_val E d) mod MUHASH_PRIME)"
proof -
  let ?p = MUHASH_PRIME and ?w = "\<Prod>d\<in>#A - R. element_val E d" and ?r = "\<Prod>d\<in>#R. element_val E d"
  let ?z = "div_assign (cr_mod_inverse E) (mh_numerator m) (mh_denominator m)"
  from assms(2) have rep: "length (mh_numerator m) = LIMBS" "length (mh_denominator m) = LIMBS"
    "limbs_val (mh_numerator m) mod ?p = (\<Prod>d\<in>#A. element_val E d) mod ?p"
    "limbs_val (mh_denominator m) mod ?p = ?r mod ?p"
    by (auto simp: mh_rep_def)
  have cop: "coprime ?r ?p"
    using assms(3,4) by (intro coprime_prod_mset) (auto simp: mh_good_def dest: mset_subset_eqD)
  have den: "coprime (limbs_val (mh_denominator m)) ?p" by (rule coprime_of_mod_eq[OF rep(4) cop])
  have "mod_inverse_ok (cr_mod_inverse E)" using assms(1) by (simp only: hash_env_ok_def)
  note z = div_assign_val[OF this rep(1,2) den]
  have "(\<Prod>d\<in>#(A - R) + R. element_val E d) = ?w * ?r" by simp
  then have prod: "(\<Prod>d\<in>#A. element_val E d) = ?w * ?r" using assms(3) by simp
  have "limbs_val ?z * ?r mod ?p = limbs_val ?z * (limbs_val (mh_denominator m) mod ?p) mod ?p"
    unfolding rep(4) by (rule mod_mult_right_eq[symmetric])
  also have "\<dots> = ?w * ?r mod ?p" unfolding mod_mult_right_eq z(3) rep(3) prod ..
  finally have "limbs_val ?z * ?r mod ?p = ?w * ?r mod ?p" .
  from mod_mult_cancel[OF this cop] z(2) have zv: "limbs_val ?z = ?w mod ?p" by simp
  also have "\<dots> = limbs_val (nat_to_limbs LIMBS (?w mod ?p))"
    using z(2) zv prime_sum by (simp add: limbs_val_nat_to_limbs)
  finally have "?z = nat_to_limbs LIMBS (?w mod ?p)" by (intro limbs_val_inj) (simp_all add: z(1))
  then show ?thesis by (simp add: mh_normalize_def)
qed

interpretation mu: set_accumulator mh_new "mh_add_element E" "mh_remove_element E"
  "\<lambda>m. fst (mh_finalize E m)" "mh_rep E" "mh_digest E" "mh_good E" "hash_env_ok E" for E
  by unfold_locales (auto intro: mh_rep_new mh_rep_add mh_rep_remove
      simp: mh_finalize_def mh_serialize_def mh_digest_def Let_def mh_rep_normalize)

section \<open>Serialization\<close>

lemma mh_serialize_roundtrip:
  assumes "hash_env_ok E" "mh_rep E m A R" "R \<subseteq># A" "\<forall>d\<in>#A. mh_good E d"
  shows "mh_deserialize (fst (mh_serialize E m)) = Some (snd (mh_serialize E m))"
proof -
  let ?z = "mh_numerator (mh_normalize E m)"
  note z = mh_rep_normalize[OF assms]
  have "limbs_val ?z < MUHASH_PRIME"
  proof -
    let ?v = "(\<Prod>d\<in>#A - R. element_val E d) mod MUHASH_PRIME"
    have "?v < MUHASH_PRIME" using prime_big by simp
    then show ?thesis unfolding z limbs_val_nat_to_limbs
      by (rule le_less_trans[OF mod_less_eq_dividend])
  qed
  then have "\<not> is_overflow ?z" using is_overflow_iff[of ?z] by (simp add: z)
  moreover have "length ?z = LIMBS" by (simp add: z)
  ultimately show ?thesis
    by (simp add: mh_serialize_def mh_deserialize_def Let_def u3072_bytes_roundtrip)
       (simp add: mh_normalize_def)
qed

end
