(* ===== verification/Cell_Tree.thy ===== *)
theory Cell_Tree
  imports Molecule_Cell Sighash MuHash
begin

text \<open>
  The live-cell state (\<open>state/src/cell_tree.rs\<close>): the map from outpoints to entries, the
  cache of leaf hashes, the MuHash accumulator and the cached root. The tree is a key-value
  store in the sense of the locale \<open>kv_store\<close>, and its root is the set hash of the live
  cells, whatever sequence of operations led to them.
\<close>

section \<open>Entries\<close>

record cell_entry =
  ce_capacity :: u64
  ce_data_bytes :: u64
  ce_lock_hash :: hash32
  ce_type_hash :: "hash32 option"
  ce_data_hash :: hash32
  ce_created_block_number :: u64
  ce_is_cellbase :: bool
  ce_lock_script :: "script option"
  ce_type_script :: "script option"
  ce_data :: "bytes option"

definition cell_entry_new :: "u64 \<Rightarrow> u64 \<Rightarrow> hash32 \<Rightarrow> hash32 option \<Rightarrow> hash32 \<Rightarrow> u64 \<Rightarrow> bool \<Rightarrow> cell_entry" where
  "cell_entry_new capacity data_bytes lock_hash type_hash data_hash created_block_number is_cellbase =
     \<lparr>ce_capacity = capacity, ce_data_bytes = data_bytes, ce_lock_hash = lock_hash, ce_type_hash = type_hash,
      ce_data_hash = data_hash, ce_created_block_number = created_block_number, ce_is_cellbase = is_cellbase,
      ce_lock_script = None, ce_type_script = None, ce_data = None\<rparr>"

definition with_resolved_metadata ::
  "cell_entry \<Rightarrow> script option \<Rightarrow> script option \<Rightarrow> bytes option \<Rightarrow> cell_entry" where
  "with_resolved_metadata e lock_script type_script data =
     e\<lparr>ce_lock_script := lock_script, ce_type_script := type_script, ce_data := data\<rparr>"

definition ckb_script_hash_molecule :: "crypto_env \<Rightarrow> script \<Rightarrow> molecule_error + hash32" where
  "ckb_script_hash_molecule E s = Ok (cr_blake2b E (serialize_script_molecule s))"

definition ckb_cell_data_hash :: "crypto_env \<Rightarrow> bytes \<Rightarrow> hash32" where
  "ckb_cell_data_hash E data = (if data = [] then replicate 32 0 else cr_blake2b E data)"

definition entry_from_output ::
  "crypto_env \<Rightarrow> cell_output \<Rightarrow> bytes \<Rightarrow> u64 \<Rightarrow> bool \<Rightarrow> molecule_error + cell_entry" where
  "entry_from_output E out data created_block_number is_cellbase =
     res_bind (ckb_script_hash_molecule E (co_lock out)) (\<lambda>lock_hash.
     res_bind (case co_type out of
                 None \<Rightarrow> Ok None
               | Some t \<Rightarrow> res_bind (ckb_script_hash_molecule E t) (\<lambda>h. Ok (Some h))) (\<lambda>type_hash.
     Ok (with_resolved_metadata
           (cell_entry_new (co_capacity out) (as_u64 (length data)) lock_hash type_hash
              (ckb_cell_data_hash E data) created_block_number is_cellbase)
           (Some (co_lock out)) (co_type out) (Some data))))"

definition entry_serialize :: "cell_entry \<Rightarrow> bytes" where
  "entry_serialize e =
     u64_le (ce_capacity e) @ u64_le (ce_data_bytes e) @ ce_lock_hash e
     @ (case ce_type_hash e of Some h \<Rightarrow> 1 # h | None \<Rightarrow> [0])
     @ ce_data_hash e @ u64_le (ce_created_block_number e)
     @ [if ce_is_cellbase e then 1 else 0]"

definition entry_hash :: "crypto_env \<Rightarrow> cell_entry \<Rightarrow> hash32" where
  "entry_hash E e = MerkleBranchHash E (str_bytes ''myelin-cell/entry'' @ entry_serialize e)"

section \<open>The tree\<close>

record cell_state_tree =
  ct_cells :: "(outpoint, cell_entry) btree"
  ct_leaf_hashes :: "(outpoint, hash32) btree"
  ct_muhash :: muhash
  ct_cached_root :: "hash32 option"

definition tree_new :: cell_state_tree where
  "tree_new = \<lparr>ct_cells = [], ct_leaf_hashes = [], ct_muhash = mh_new, ct_cached_root = None\<rparr>"

definition compute_leaf_hash :: "crypto_env \<Rightarrow> outpoint \<Rightarrow> cell_entry \<Rightarrow> hash32" where
  "compute_leaf_hash E p e =
     MerkleBranchHash E (str_bytes ''myelin-cell/leaf'' @ outpoint_to_key p @ entry_hash E e)"

definition tree_insert :: "crypto_env \<Rightarrow> outpoint \<Rightarrow> cell_entry \<Rightarrow> cell_state_tree \<Rightarrow> cell_state_tree" where
  "tree_insert E p e t =
     (let leaf_hash = compute_leaf_hash E p e;
          mu = (case bt_get (ct_leaf_hashes t) p of
                  Some old_leaf_hash \<Rightarrow> mh_remove_element E old_leaf_hash (ct_muhash t)
                | None \<Rightarrow> ct_muhash t)
      in t\<lparr>ct_leaf_hashes := bt_insert p leaf_hash (ct_leaf_hashes t),
           ct_muhash := mh_add_element E leaf_hash mu,
           ct_cells := bt_insert p e (ct_cells t),
           ct_cached_root := None\<rparr>)"

definition tree_remove ::
  "crypto_env \<Rightarrow> outpoint \<Rightarrow> cell_state_tree \<Rightarrow> cell_entry option \<times> cell_state_tree" where
  "tree_remove E p t =
     (let result = bt_get (ct_cells t) p; t = t\<lparr>ct_cells := bt_remove p (ct_cells t)\<rparr>
      in case result of
           None \<Rightarrow> (result, t)
         | Some _ \<Rightarrow>
             (let t = (case bt_get (ct_leaf_hashes t) p of
                         Some old_leaf_hash \<Rightarrow>
                           t\<lparr>ct_leaf_hashes := bt_remove p (ct_leaf_hashes t),
                             ct_muhash := mh_remove_element E old_leaf_hash (ct_muhash t)\<rparr>
                       | None \<Rightarrow> t)
              in (result, t\<lparr>ct_cached_root := None\<rparr>)))"

definition tree_get :: "cell_state_tree \<Rightarrow> outpoint \<Rightarrow> cell_entry option" where
  "tree_get t p = bt_get (ct_cells t) p"

definition tree_len :: "cell_state_tree \<Rightarrow> nat" where
  "tree_len t = length (ct_cells t)"

definition tree_root :: "crypto_env \<Rightarrow> cell_state_tree \<Rightarrow> hash32 \<times> cell_state_tree" where
  "tree_root E t =
     (case ct_cached_root t of
        Some root \<Rightarrow> (root, t)
      | None \<Rightarrow> (let root = fst (mh_finalize E (ct_muhash t)) in (root, t\<lparr>ct_cached_root := Some root\<rparr>)))"

definition tree_clear :: "cell_state_tree \<Rightarrow> cell_state_tree" where
  "tree_clear t = t\<lparr>ct_cells := [], ct_leaf_hashes := [], ct_muhash := mh_new, ct_cached_root := None\<rparr>"

definition tree_iter_by_outpoint_from ::
  "cell_state_tree \<Rightarrow> outpoint option \<Rightarrow> bool \<Rightarrow> (outpoint \<times> cell_entry) list" where
  "tree_iter_by_outpoint_from t from skip_first =
     (case from of
        Some p \<Rightarrow> (if skip_first then filter (\<lambda>(k, _). p < k) (ct_cells t)
                   else filter (\<lambda>(k, _). p \<le> k) (ct_cells t))
      | None \<Rightarrow> ct_cells t)"

section \<open>Invariant\<close>

lemma mset_bt_insert_new:
  "bt_get m k = None \<Longrightarrow> mset (bt_insert k v m) = add_mset (k, v) (mset m)"
  by (induction m) (auto simp: bt_get_def split: if_splits)

lemma mset_bt_insert_old:
  "bt_wf m \<Longrightarrow> bt_get m k = Some w \<Longrightarrow> add_mset (k, w) (mset (bt_insert k v m)) = add_mset (k, v) (mset m)"
proof (induction m)
  case (Cons e m)
  obtain k' v' where e: "e = (k', v')" by (cases e)
  have wfm: "bt_wf m" and above: "\<forall>x\<in>fst ` set m. k' < x" using Cons.prems(1) by (auto simp: bt_wf_def e)
  show ?case
  proof (cases "k = k'")
    case True
    then show ?thesis using Cons.prems(2) by (simp add: e bt_get_def add_mset_commute)
  next
    case False
    with Cons.prems(2) have get: "bt_get m k = Some w" by (simp add: e bt_get_def)
    then have "k \<in> fst ` set m" using dom_bt_get[of m] by (metis domI)
    with above have "k' < k" by blast
    with Cons.IH[OF wfm get] False show ?thesis by (simp add: e add_mset_commute)
  qed
qed (simp add: bt_get_def)

lemma mset_bt_remove:
  "bt_wf m \<Longrightarrow> bt_get m k = Some w \<Longrightarrow> mset m = add_mset (k, w) (mset (bt_remove k m))"
proof (induction m)
  case (Cons e m)
  obtain k' v' where e: "e = (k', v')" by (cases e)
  have wfm: "bt_wf m" and above: "\<forall>x\<in>fst ` set m. k' < x" using Cons.prems(1) by (auto simp: bt_wf_def e)
  show ?case
  proof (cases "k = k'")
    case True
    with above have "bt_remove k m = m" by (auto simp: bt_remove_def intro!: filter_True)
    then show ?thesis using True Cons.prems(2) by (simp add: e bt_get_def bt_remove_def)
  next
    case False
    then show ?thesis using Cons.IH[OF wfm] Cons.prems(2) by (simp add: e bt_get_def bt_remove_def add_mset_commute)
  qed
qed (simp add: bt_get_def)

lemma bt_remove_absent: "bt_get m k = None \<Longrightarrow> bt_remove k m = m"
  by (induction m) (auto simp: bt_get_def bt_remove_def split: if_splits)

definition leaf_mset :: "crypto_env \<Rightarrow> (outpoint, cell_entry) btree \<Rightarrow> bytes multiset" where
  "leaf_mset E cells = {#compute_leaf_hash E k e. (k, e) \<in># mset cells#}"

text \<open>\<open>R\<close> collects the leaves that were added and removed again.\<close>

definition tree_rep :: "crypto_env \<Rightarrow> cell_state_tree \<Rightarrow> bytes multiset \<Rightarrow> bool" where
  "tree_rep E t R =
     (bt_wf (ct_cells t) \<and> bt_wf (ct_leaf_hashes t)
      \<and> (\<forall>k. bt_get (ct_leaf_hashes t) k = map_option (compute_leaf_hash E k) (bt_get (ct_cells t) k))
      \<and> mh_rep E (ct_muhash t) (leaf_mset E (ct_cells t) + R) R
      \<and> (\<forall>r. ct_cached_root t = Some r \<longrightarrow> r = fst (mh_finalize E (ct_muhash t))))"

definition tree_inv :: "crypto_env \<Rightarrow> cell_state_tree \<Rightarrow> bool" where
  "tree_inv E t = (\<exists>R. tree_rep E t R)"

lemma tree_rep_new: "tree_rep E tree_new {#}"
  by (simp add: tree_rep_def tree_new_def leaf_mset_def bt_simps mu.rep_new)

lemma tree_rep_clear: "tree_rep E (tree_clear t) {#}"
  by (simp add: tree_rep_def tree_clear_def leaf_mset_def bt_simps mu.rep_new)

lemma leaf_mset_insert_new:
  "bt_get m k = None \<Longrightarrow> leaf_mset E (bt_insert k e m) = add_mset (compute_leaf_hash E k e) (leaf_mset E m)"
  by (simp add: leaf_mset_def mset_bt_insert_new)

lemma leaf_mset_insert_old:
  assumes "bt_wf m" "bt_get m k = Some w"
  shows "add_mset (compute_leaf_hash E k w) (leaf_mset E (bt_insert k e m))
    = add_mset (compute_leaf_hash E k e) (leaf_mset E m)"
  using arg_cong[OF mset_bt_insert_old[OF assms, of e], of "image_mset (\<lambda>(k, e). compute_leaf_hash E k e)"]
  by (simp add: leaf_mset_def)

lemma leaf_mset_remove:
  assumes "bt_wf m" "bt_get m k = Some w"
  shows "leaf_mset E m = add_mset (compute_leaf_hash E k w) (leaf_mset E (bt_remove k m))"
  using arg_cong[OF mset_bt_remove[OF assms], of "image_mset (\<lambda>(k, e). compute_leaf_hash E k e)"]
  by (simp add: leaf_mset_def)

text \<open>The leaf that an insertion replaces, if any.\<close>

definition replaced :: "crypto_env \<Rightarrow> outpoint \<Rightarrow> cell_state_tree \<Rightarrow> bytes multiset" where
  "replaced E p t = (case bt_get (ct_cells t) p of None \<Rightarrow> {#} | Some e \<Rightarrow> {#compute_leaf_hash E p e#})"

lemma tree_rep_insert:
  assumes "tree_rep E t R"
  shows "tree_rep E (tree_insert E p e t) (R + replaced E p t)"
proof (cases "bt_get (ct_cells t) p")
  case None
  with assms have "mh_rep E (mh_add_element E (compute_leaf_hash E p e) (ct_muhash t))
      (leaf_mset E (bt_insert p e (ct_cells t)) + R) R"
    by (auto simp: tree_rep_def leaf_mset_insert_new dest: mu.rep_add)
  with None assms show ?thesis
    by (auto simp: tree_rep_def tree_insert_def Let_def replaced_def bt_simps)
next
  case (Some w)
  let ?n = "compute_leaf_hash E p e" and ?o = "compute_leaf_hash E p w"
  from assms Some have "mh_rep E (mh_add_element E ?n (mh_remove_element E ?o (ct_muhash t)))
      (add_mset ?n (leaf_mset E (ct_cells t) + R)) (add_mset ?o R)"
    by (auto simp: tree_rep_def dest: mu.rep_add mu.rep_remove)
  moreover have "add_mset ?n (leaf_mset E (ct_cells t) + R)
      = leaf_mset E (bt_insert p e (ct_cells t)) + add_mset ?o R"
    using leaf_mset_insert_old[of "ct_cells t" p w E e] assms Some by (simp add: tree_rep_def)
  ultimately show ?thesis
    using assms Some by (auto simp: tree_rep_def tree_insert_def Let_def replaced_def bt_simps)
qed

lemma tree_rep_remove:
  assumes "tree_rep E t R"
  shows "tree_rep E (snd (tree_remove E p t)) (R + replaced E p t)"
proof (cases "bt_get (ct_cells t) p")
  case None
  then show ?thesis using assms
    by (simp add: tree_remove_def Let_def bt_remove_absent replaced_def)
next
  case (Some w)
  let ?o = "compute_leaf_hash E p w"
  from assms Some have "mh_rep E (mh_remove_element E ?o (ct_muhash t))
      (leaf_mset E (ct_cells t) + R) (add_mset ?o R)"
    by (auto simp: tree_rep_def dest: mu.rep_remove)
  moreover have "leaf_mset E (ct_cells t) + R = leaf_mset E (bt_remove p (ct_cells t)) + add_mset ?o R"
    using leaf_mset_remove[of "ct_cells t" p w E] assms Some by (simp add: tree_rep_def)
  ultimately show ?thesis
    using assms Some by (auto simp: tree_rep_def tree_remove_def Let_def replaced_def bt_simps)
qed

lemma tree_rep_root: "tree_rep E t R \<Longrightarrow> tree_rep E (snd (tree_root E t)) R"
  by (auto simp: tree_rep_def tree_root_def Let_def split: option.splits)

lemma tree_root_fst: "tree_rep E t R \<Longrightarrow> fst (tree_root E t) = fst (mh_finalize E (ct_muhash t))"
  by (auto simp: tree_rep_def tree_root_def Let_def split: option.splits)

lemma ct_cells_ops [simp]:
  "ct_cells (tree_insert E p e t) = bt_insert p e (ct_cells t)"
  "ct_cells (snd (tree_remove E p t)) = bt_remove p (ct_cells t)"
  "ct_cells (snd (tree_root E t)) = ct_cells t"
  "fst (tree_remove E p t) = tree_get t p"
  by (auto simp: tree_insert_def tree_remove_def tree_root_def tree_get_def Let_def split: option.splits)

interpretation celltree: kv_store tree_get "\<lambda>p e. tree_insert E p e" "\<lambda>p t. snd (tree_remove E p t)" "tree_inv E" for E
  by unfold_locales (auto simp: tree_get_def[abs_def] bt_simps tree_inv_def
      dest: tree_rep_insert tree_rep_remove)

section \<open>The root is the set hash of the live cells\<close>

definition cells_digest :: "crypto_env \<Rightarrow> (outpoint, cell_entry) btree \<Rightarrow> hash32" where
  "cells_digest E cells = mh_digest E (leaf_mset E cells)"

lemma tree_root_digest:
  assumes "hash_env_ok E" "tree_rep E t R"
    and "\<forall>d\<in>#leaf_mset E (ct_cells t) + R. mh_good E d"
  shows "fst (tree_root E t) = cells_digest E (ct_cells t)"
proof -
  from assms(2) have "mh_rep E (ct_muhash t) (leaf_mset E (ct_cells t) + R) R" by (simp add: tree_rep_def)
  from mu.rep_final[OF assms(1) this] assms(3) show ?thesis
    by (simp add: tree_root_fst[OF assms(2)] cells_digest_def)
qed

datatype tree_op = Insert outpoint cell_entry | Remove outpoint | Root | Clear

definition tree_step :: "crypto_env \<Rightarrow> tree_op \<Rightarrow> cell_state_tree \<Rightarrow> cell_state_tree" where
  "tree_step E op t =
     (case op of
        Insert p e \<Rightarrow> tree_insert E p e t
      | Remove p \<Rightarrow> snd (tree_remove E p t)
      | Root \<Rightarrow> snd (tree_root E t)
      | Clear \<Rightarrow> tree_clear t)"

definition inserted_leaves :: "crypto_env \<Rightarrow> tree_op list \<Rightarrow> bytes set" where
  "inserted_leaves E ops = {compute_leaf_hash E p e |p e. Insert p e \<in> set ops}"

lemma leaf_mset_members: "set_mset (leaf_mset E m) = {compute_leaf_hash E k e |k e. (k, e) \<in> set m}"
  by (auto simp: leaf_mset_def)

lemma set_bt_insert_subset: "set (bt_insert k v m) \<subseteq> insert (k, v) (set m)"
  by (induction m) auto

text \<open>\<open>G\<close> bounds every leaf the accumulator has seen.\<close>

definition tree_over :: "crypto_env \<Rightarrow> bytes set \<Rightarrow> cell_state_tree \<Rightarrow> bool" where
  "tree_over E G t =
     (\<exists>R. tree_rep E t R \<and> set_mset (leaf_mset E (ct_cells t)) \<subseteq> G \<and> set_mset R \<subseteq> G)"

lemma replaced_over:
  assumes "set_mset (leaf_mset E (ct_cells t)) \<subseteq> G"
  shows "set_mset (replaced E p t) \<subseteq> G"
proof (cases "bt_get (ct_cells t) p")
  case (Some e)
  then have "(p, e) \<in> set (ct_cells t)" by (auto simp: bt_get_def dest: map_of_SomeD)
  then have "compute_leaf_hash E p e \<in># leaf_mset E (ct_cells t)" by (auto simp: leaf_mset_members)
  with assms Some show ?thesis by (simp add: replaced_def subsetD)
qed (simp add: replaced_def)

lemma tree_over_insert:
  assumes "tree_over E G t" "compute_leaf_hash E p e \<in> G"
  shows "tree_over E G (tree_insert E p e t)"
proof -
  from assms(1) obtain R where r: "tree_rep E t R" "set_mset (leaf_mset E (ct_cells t)) \<subseteq> G" "set_mset R \<subseteq> G"
    unfolding tree_over_def by blast
  have "set_mset (leaf_mset E (bt_insert p e (ct_cells t))) \<subseteq> insert (compute_leaf_hash E p e) (set_mset (leaf_mset E (ct_cells t)))"
    using set_bt_insert_subset[of p e "ct_cells t"] unfolding leaf_mset_members by blast
  with r(2) assms(2) have "set_mset (leaf_mset E (bt_insert p e (ct_cells t))) \<subseteq> G" by blast
  moreover have "set_mset (R + replaced E p t) \<subseteq> G" using r(3) replaced_over[OF r(2)] by simp
  ultimately show ?thesis using tree_rep_insert[OF r(1), of p e] unfolding tree_over_def ct_cells_ops by blast
qed

lemma tree_over_remove:
  assumes "tree_over E G t"
  shows "tree_over E G (snd (tree_remove E p t))"
proof -
  from assms(1) obtain R where r: "tree_rep E t R" "set_mset (leaf_mset E (ct_cells t)) \<subseteq> G" "set_mset R \<subseteq> G"
    unfolding tree_over_def by blast
  have "set (bt_remove p (ct_cells t)) \<subseteq> set (ct_cells t)" by (simp add: bt_remove_def)
  then have "set_mset (leaf_mset E (bt_remove p (ct_cells t))) \<subseteq> G"
    using r(2) unfolding leaf_mset_members by blast
  moreover have "set_mset (R + replaced E p t) \<subseteq> G" using r(3) replaced_over[OF r(2)] by simp
  ultimately show ?thesis using tree_rep_remove[OF r(1), of p] unfolding tree_over_def ct_cells_ops by blast
qed

lemma tree_over_root: "tree_over E G t \<Longrightarrow> tree_over E G (snd (tree_root E t))"
  unfolding tree_over_def ct_cells_ops using tree_rep_root by blast

lemma tree_over_new: "tree_over E G tree_new" and tree_over_clear: "tree_over E G (tree_clear t)"
  using tree_rep_new[of E] tree_rep_clear[of E t] unfolding tree_over_def
  by (auto simp: tree_new_def tree_clear_def leaf_mset_def intro!: exI[of _ "{#}"])

lemma tree_over_step:
  "tree_over E G t \<Longrightarrow> inserted_leaves E [op] \<subseteq> G \<Longrightarrow> tree_over E G (tree_step E op t)"
  by (cases op) (auto simp: tree_step_def inserted_leaves_def
      intro!: tree_over_insert tree_over_remove tree_over_root tree_over_clear)

lemma tree_over_run:
  "tree_over E G t \<Longrightarrow> inserted_leaves E ops \<subseteq> G \<Longrightarrow> tree_over E G (fold (tree_step E) ops t)"
proof (induction ops arbitrary: t)
  case (Cons op ops)
  from Cons.prems(2) have "inserted_leaves E [op] \<subseteq> G" "inserted_leaves E ops \<subseteq> G"
    by (auto simp: inserted_leaves_def)
  with tree_over_step[OF Cons.prems(1)] Cons.IH show ?case by simp
qed simp

lemma tree_over_inv: "tree_over E G t \<Longrightarrow> tree_inv E t"
  unfolding tree_over_def tree_inv_def by blast

lemma tree_over_digest:
  assumes "hash_env_ok E" "tree_over E G t" "\<And>d. d \<in> G \<Longrightarrow> mh_good E d"
  shows "fst (tree_root E t) = cells_digest E (ct_cells t)"
proof -
  from assms(2) obtain R where r: "tree_rep E t R" "set_mset (leaf_mset E (ct_cells t)) \<subseteq> G" "set_mset R \<subseteq> G"
    unfolding tree_over_def by blast
  then have "\<forall>d\<in>#leaf_mset E (ct_cells t) + R. mh_good E d" using assms(3) by auto
  from tree_root_digest[OF assms(1) r(1) this] show ?thesis .
qed

text \<open>
  \<^bold>\<open>C4\<close>. After any sequence of insertions, replacements, removals, root computations and
  clears, the root returned by the incrementally maintained accumulator is the set hash of the
  live cells alone: it does not depend on the order of the operations, on cells that were
  removed again, or on when roots were cached. The field elements of the inserted leaves have
  to be invertible.
\<close>

theorem state_root_is_set_hash:
  assumes "hash_env_ok E" "\<forall>d\<in>inserted_leaves E ops. mh_good E d"
  shows "fst (tree_root E (fold (tree_step E) ops tree_new))
       = cells_digest E (ct_cells (fold (tree_step E) ops tree_new))"
  using assms(2)
  by (intro tree_over_digest[OF assms(1) tree_over_run[OF tree_over_new subset_refl]]) blast

lemma toy_element: "data_to_element toy_env d = 2 # replicate 47 0"
proof -
  have "u3072_from_le_bytes (take 384 (2 # replicate 384 0)) = 2 # replicate 47 0" by code_simp
  then show ?thesis by (simp add: data_to_element_def toy_env_def toy_stream_def ELEMENT_BYTE_SIZE_def)
qed

lemma toy_good: "mh_good toy_env d"
proof -
  have "element_val toy_env d = 2" unfolding element_val_def toy_element limbs_val.simps limbs_val_zeros by simp
  moreover have "odd MUHASH_PRIME"
  proof -
    have "even (BB ^ LIMBS)" by (simp add: LIMBS_def)
    then show ?thesis using prime_sum by (metis odd_add odd_numeral_BitM semiring_norm(26) numeral_BitM odd_one odd_numeral)
  qed
  ultimately show ?thesis by (simp add: mh_good_def)
qed

definition sample_entry :: "u64 \<Rightarrow> cell_entry" where
  "sample_entry c = cell_entry_new c 0 (replicate 32 1) None (replicate 32 2) 0 False"

theorem state_root_is_set_hash_witness:
  "fst (tree_root toy_env (fold (tree_step toy_env)
      [Insert (OutPoint (replicate 32 9) 0) (sample_entry 5), Root,
       Insert (OutPoint (replicate 32 9) 0) (sample_entry 6), Remove (OutPoint (replicate 32 9) 0)] tree_new))
   = fst (tree_root toy_env (fold (tree_step toy_env) [] tree_new))"
proof -
  let ?ops = "[Insert (OutPoint (replicate 32 9) 0) (sample_entry 5), Root,
       Insert (OutPoint (replicate 32 9) 0) (sample_entry 6), Remove (OutPoint (replicate 32 9) 0)]"
  have "ct_cells (fold (tree_step toy_env) ?ops tree_new) = ct_cells (fold (tree_step toy_env) [] tree_new)"
    by (simp add: tree_step_def) (simp add: tree_new_def bt_remove_def)
  then show ?thesis
    using state_root_is_set_hash[OF toy_env_ok, of ?ops] state_root_is_set_hash[OF toy_env_ok, of "[]"] toy_good
    by simp
qed

end
