(* ===== verification/Transition.thy ===== *)
theory Transition
  imports Cell_Tree
begin

text \<open>
  Atomic state transitions (\<open>state/src/transition.rs\<close>). The engine owns the live-cell tree;
  \<open>apply_transaction\<close> returns the receipt or the rejection together with the tree it leaves
  behind, which differs from the old one in the cached root even when the transaction is
  rejected. The script verifier is an argument.
\<close>

section \<open>Model\<close>

record state_transition_context =
  sx_block_number :: u64
  sx_allow_cellbase :: bool

definition ctx_ordinary :: "u64 \<Rightarrow> state_transition_context" where
  "ctx_ordinary n = \<lparr>sx_block_number = n, sx_allow_cellbase = False\<rparr>"

definition ctx_cellbase :: "u64 \<Rightarrow> state_transition_context" where
  "ctx_cellbase n = \<lparr>sx_block_number = n, sx_allow_cellbase = True\<rparr>"

record resolved_state_input =
  ri_outpoint :: outpoint
  ri_cell :: cell_entry

record state_transition_receipt =
  sr_txid :: hash32
  sr_state_root_before :: hash32
  sr_state_root_after :: hash32
  sr_consumed :: "outpoint list"
  sr_created :: "outpoint list"
  sr_fee :: u64
  sr_cycles :: u64

record verified_state_transaction =
  vt_tx :: cell_tx
  vt_txid :: hash32
  vt_state_root :: hash32
  vt_state_root_after :: hash32
  vt_fee :: u64
  vt_cycles :: u64

datatype state_transition_error =
    UnauthorizedCellbase
  | DuplicateInput outpoint
  | MissingInput outpoint
  | OutputAlreadyExists outpoint
  | InvalidOutputCapacity nat capacity_error
  | CapacityOverflow
  | InsufficientInputCapacity u64 u64
  | InvalidOutputMetadata nat molecule_error
  | ScriptVerification string

type_synonym verifier = "cell_tx \<Rightarrow> resolved_state_input list \<Rightarrow> string + u64"

text \<open>One round of the input loop; the state is the seen inputs, the resolved inputs and their capacity.\<close>

definition resolve_input ::
  "cell_state_tree \<Rightarrow> outpoint list \<times> resolved_state_input list \<times> u64 \<Rightarrow> cell_input
     \<Rightarrow> state_transition_error + (outpoint list \<times> resolved_state_input list \<times> u64)" where
  "resolve_input state st input =
     (let (seen, resolved, input_capacity) = st; p = ci_previous_output input
      in if p \<in> set seen then Err (DuplicateInput p)
         else res_bind (ok_or (MissingInput p) (tree_get state p)) (\<lambda>cell.
              res_bind (ok_or CapacityOverflow (checked_add input_capacity (ce_capacity cell))) (\<lambda>cap.
              Ok (p # seen, resolved @ [\<lparr>ri_outpoint = p, ri_cell = cell\<rparr>], cap))))"

text \<open>One round of the output loop; the state is the capacity so far and the entries created.\<close>

definition create_output ::
  "crypto_env \<Rightarrow> cell_state_tree \<Rightarrow> cell_tx \<Rightarrow> state_transition_context \<Rightarrow> u64 \<times> (outpoint \<times> cell_entry) list
     \<Rightarrow> nat \<times> cell_output \<times> bytes \<Rightarrow> state_transition_error + (u64 \<times> (outpoint \<times> cell_entry) list)" where
  "create_output E state tx ctx st item =
     (let (output_capacity, created) = st; (index, out, data) = item
      in res_bind (map_err (InvalidOutputCapacity index) (verify_capacity out (length data))) (\<lambda>_.
         res_bind (ok_or CapacityOverflow (checked_add output_capacity (co_capacity out))) (\<lambda>cap.
         let p = OutPoint (tx_id E tx) (as_u32 index)
         in if tree_get state p \<noteq> None then Err (OutputAlreadyExists p)
            else res_bind (map_err (InvalidOutputMetadata index)
                     (entry_from_output E out data (sx_block_number ctx) (tx_inputs tx = []))) (\<lambda>entry.
                 Ok (cap, created @ [(p, entry)])))))"

definition commit_cells ::
  "crypto_env \<Rightarrow> resolved_state_input list \<Rightarrow> (outpoint \<times> cell_entry) list \<Rightarrow> cell_state_tree \<Rightarrow> cell_state_tree" where
  "commit_cells E resolved created state =
     fold (\<lambda>(p, e). tree_insert E p e) created
       (fold (\<lambda>p t. snd (tree_remove E p t)) (map ri_outpoint resolved) state)"

definition check_transaction ::
  "crypto_env \<Rightarrow> cell_state_tree \<Rightarrow> cell_tx \<Rightarrow> state_transition_context \<Rightarrow> verifier
     \<Rightarrow> state_transition_error + (resolved_state_input list \<times> u64 \<times> (outpoint \<times> cell_entry) list \<times> u64 \<times> u64)" where
  "check_transaction E state tx ctx verifier =
     res_bind (fold_res (resolve_input state) ([], [], 0) (tx_inputs tx)) (\<lambda>(_, resolved, input_capacity).
     res_bind (fold_res (create_output E state tx ctx) (0, [])
                 (enumerate 0 (zip (tx_outputs tx) (tx_outputs_data tx)))) (\<lambda>(output_capacity, created).
     if tx_inputs tx \<noteq> [] \<and> input_capacity < output_capacity
     then Err (InsufficientInputCapacity input_capacity output_capacity)
     else res_bind (map_err ScriptVerification (verifier tx resolved)) (\<lambda>cycles.
          Ok (resolved, input_capacity, created, output_capacity, cycles))))"

definition apply_transaction ::
  "crypto_env \<Rightarrow> cell_state_tree \<Rightarrow> cell_tx \<Rightarrow> state_transition_context \<Rightarrow> verifier
     \<Rightarrow> (state_transition_error + state_transition_receipt) \<times> cell_state_tree" where
  "apply_transaction E state tx ctx verifier =
     (if tx_inputs tx = [] \<and> \<not> sx_allow_cellbase ctx then (Err UnauthorizedCellbase, state)
      else
        let (root_before, state) = tree_root E state
        in case check_transaction E state tx ctx verifier of
             Inl e \<Rightarrow> (Err e, state)
           | Inr (resolved, input_capacity, created, output_capacity, cycles) \<Rightarrow>
               let (root_after, next) = tree_root E (commit_cells E resolved created state)
               in (Ok \<lparr>sr_txid = tx_id E tx, sr_state_root_before = root_before, sr_state_root_after = root_after,
                       sr_consumed = map ri_outpoint resolved, sr_created = map fst created,
                       sr_fee = saturating_sub input_capacity output_capacity, sr_cycles = cycles\<rparr>, next))"

definition verify_transaction ::
  "crypto_env \<Rightarrow> cell_state_tree \<Rightarrow> cell_tx \<Rightarrow> state_transition_context \<Rightarrow> verifier
     \<Rightarrow> state_transition_error + verified_state_transaction" where
  "verify_transaction E state tx ctx verifier =
     (case fst (apply_transaction E state tx ctx verifier) of
        Inl e \<Rightarrow> Err e
      | Inr r \<Rightarrow> Ok \<lparr>vt_tx = tx, vt_txid = sr_txid r, vt_state_root = sr_state_root_before r,
                     vt_state_root_after = sr_state_root_after r, vt_fee = sr_fee r, vt_cycles = sr_cycles r\<rparr>)"

section \<open>The input loop\<close>

abbreviation input_points :: "cell_tx \<Rightarrow> outpoint list" where
  "input_points tx \<equiv> map ci_previous_output (tx_inputs tx)"

definition cell_capacity :: "cell_state_tree \<Rightarrow> outpoint \<Rightarrow> nat" where
  "cell_capacity t p = (case tree_get t p of Some e \<Rightarrow> unat (ce_capacity e) | None \<Rightarrow> 0)"

lemma resolve_input_Ok:
  "resolve_input t (seen, rs, cap) i = Ok st \<longleftrightarrow>
     (\<exists>cell cap'. ci_previous_output i \<notin> set seen \<and> tree_get t (ci_previous_output i) = Some cell
        \<and> checked_add cap (ce_capacity cell) = Some cap'
        \<and> st = (ci_previous_output i # seen, rs @ [\<lparr>ri_outpoint = ci_previous_output i, ri_cell = cell\<rparr>], cap'))"
  by (auto simp: resolve_input_def Let_def res_simps)

lemma resolve_inputs_Ok:
  "fold_res (resolve_input t) (seen, rs, cap) is = Ok (seen', rs', cap') \<Longrightarrow>
     distinct (map ci_previous_output is) \<and> set (map ci_previous_output is) \<inter> set seen = {}
     \<and> rs' = rs @ map (\<lambda>p. \<lparr>ri_outpoint = p, ri_cell = the (tree_get t p)\<rparr>) (map ci_previous_output is)
     \<and> (\<forall>p\<in>set (map ci_previous_output is). tree_get t p \<noteq> None)
     \<and> unat cap' = unat cap + (\<Sum>p\<leftarrow>map ci_previous_output is. cell_capacity t p)"
proof (induction "is" arbitrary: seen rs cap)
  case (Cons i "is")
  let ?p = "ci_previous_output i"
  from Cons.prems obtain cell cap1 where
    i: "?p \<notin> set seen" "tree_get t ?p = Some cell" "checked_add cap (ce_capacity cell) = Some cap1" and
    rest: "fold_res (resolve_input t) (?p # seen, rs @ [\<lparr>ri_outpoint = ?p, ri_cell = cell\<rparr>], cap1) is = Ok (seen', rs', cap')"
    by (auto simp: res_simps resolve_input_Ok)
  note IH = Cons.IH[OF rest]
  have "unat cap1 = unat cap + cell_capacity t ?p"
    using i(2,3) by (simp add: cell_capacity_def checked_add_eq_Some)
  with IH i(1,2) show ?case by auto
qed simp

section \<open>The output loop\<close>

definition created_entry :: "crypto_env \<Rightarrow> cell_tx \<Rightarrow> state_transition_context \<Rightarrow> cell_output \<times> bytes \<Rightarrow> cell_entry" where
  "created_entry E tx ctx od =
     (case od of (out, data) \<Rightarrow>
        \<lparr>ce_capacity = co_capacity out, ce_data_bytes = as_u64 (length data),
         ce_lock_hash = cr_blake2b E (serialize_script_molecule (co_lock out)),
         ce_type_hash = map_option (\<lambda>t. cr_blake2b E (serialize_script_molecule t)) (co_type out),
         ce_data_hash = ckb_cell_data_hash E data, ce_created_block_number = sx_block_number ctx,
         ce_is_cellbase = (tx_inputs tx = []), ce_lock_script = Some (co_lock out),
         ce_type_script = co_type out, ce_data = Some data\<rparr>)"

definition created_cells :: "crypto_env \<Rightarrow> cell_tx \<Rightarrow> state_transition_context \<Rightarrow> (outpoint \<times> cell_entry) list" where
  "created_cells E tx ctx =
     map (\<lambda>(i, od). (OutPoint (tx_id E tx) (as_u32 i), created_entry E tx ctx od))
       (enumerate 0 (zip (tx_outputs tx) (tx_outputs_data tx)))"

lemma entry_from_output_eq:
  "entry_from_output E out data (sx_block_number ctx) (tx_inputs tx = []) = Ok (created_entry E tx ctx (out, data))"
  by (simp add: entry_from_output_def ckb_script_hash_molecule_def with_resolved_metadata_def cell_entry_new_def
      created_entry_def split: option.splits)

lemma create_output_Ok:
  "create_output E t tx ctx (cap, cs) (i, out, data) = Ok st \<longleftrightarrow>
     (\<exists>cap'. verify_capacity out (length data) = Ok () \<and> checked_add cap (co_capacity out) = Some cap'
        \<and> tree_get t (OutPoint (tx_id E tx) (as_u32 i)) = None
        \<and> st = (cap', cs @ [(OutPoint (tx_id E tx) (as_u32 i), created_entry E tx ctx (out, data))]))"
  by (auto simp: create_output_def Let_def res_simps entry_from_output_eq)

lemma create_outputs_Ok:
  "fold_res (create_output E t tx ctx) (cap, cs) items = Ok (cap', cs') \<Longrightarrow>
     cs' = cs @ map (\<lambda>(i, od). (OutPoint (tx_id E tx) (as_u32 i), created_entry E tx ctx od)) items
     \<and> (\<forall>(i, out, data)\<in>set items. verify_capacity out (length data) = Ok ()
          \<and> tree_get t (OutPoint (tx_id E tx) (as_u32 i)) = None)
     \<and> unat cap' = unat cap + (\<Sum>(i, out, data)\<leftarrow>items. unat (co_capacity out))"
proof (induction items arbitrary: cap cs)
  case (Cons item items)
  obtain i out data where item: "item = (i, out, data)" by (cases item)
  from Cons.prems obtain cap1 where
    i: "verify_capacity out (length data) = Ok ()" "checked_add cap (co_capacity out) = Some cap1"
      "tree_get t (OutPoint (tx_id E tx) (as_u32 i)) = None" and
    rest: "fold_res (create_output E t tx ctx)
      (cap1, cs @ [(OutPoint (tx_id E tx) (as_u32 i), created_entry E tx ctx (out, data))]) items = Ok (cap', cs')"
    by (auto simp: item res_simps create_output_Ok)
  note IH = Cons.IH[OF rest]
  have "unat cap1 = unat cap + unat (co_capacity out)" using i(2) by (simp add: checked_add_eq_Some)
  with IH i(1,3) show ?case by (auto simp: item)
qed simp

section \<open>When the loops succeed\<close>

definition outputs_total :: "cell_tx \<Rightarrow> nat" where
  "outputs_total tx = (\<Sum>(out, data)\<leftarrow>zip (tx_outputs tx) (tx_outputs_data tx). unat (co_capacity out))"

definition inputs_total :: "cell_state_tree \<Rightarrow> cell_tx \<Rightarrow> nat" where
  "inputs_total t tx = (\<Sum>p\<leftarrow>input_points tx. cell_capacity t p)"

definition resolved_inputs :: "cell_state_tree \<Rightarrow> cell_tx \<Rightarrow> resolved_state_input list" where
  "resolved_inputs t tx = map (\<lambda>p. \<lparr>ri_outpoint = p, ri_cell = the (tree_get t p)\<rparr>) (input_points tx)"

text \<open>The acceptance condition of a transaction, apart from its scripts.\<close>

definition transition_ok :: "crypto_env \<Rightarrow> cell_state_tree \<Rightarrow> cell_tx \<Rightarrow> state_transition_context \<Rightarrow> bool" where
  "transition_ok E t tx ctx =
     ((tx_inputs tx = [] \<longrightarrow> sx_allow_cellbase ctx)
      \<and> distinct (input_points tx) \<and> (\<forall>p\<in>set (input_points tx). tree_get t p \<noteq> None)
      \<and> inputs_total t tx < 2 ^ 64
      \<and> (\<forall>(out, data)\<in>set (zip (tx_outputs tx) (tx_outputs_data tx)). verify_capacity out (length data) = Ok ())
      \<and> (\<forall>p\<in>set (map fst (created_cells E tx ctx)). tree_get t p = None)
      \<and> outputs_total tx < 2 ^ 64
      \<and> (tx_inputs tx \<noteq> [] \<longrightarrow> outputs_total tx \<le> inputs_total t tx))"

lemma resolve_inputs_total:
  "distinct (map ci_previous_output is) \<Longrightarrow> set (map ci_previous_output is) \<inter> set seen = {} \<Longrightarrow>
   \<forall>p\<in>set (map ci_previous_output is). tree_get t p \<noteq> None \<Longrightarrow>
   unat cap + (\<Sum>p\<leftarrow>map ci_previous_output is. cell_capacity t p) < 2 ^ 64 \<Longrightarrow>
   \<exists>st. fold_res (resolve_input t) (seen, rs, cap) is = Ok st"
proof (induction "is" arbitrary: seen rs cap)
  case (Cons i "is")
  let ?p = "ci_previous_output i"
  from Cons.prems(3) obtain cell where cell: "tree_get t ?p = Some cell" by auto
  have fit: "unat cap + unat (ce_capacity cell) < 2 ^ 64"
    using Cons.prems(4) cell by (simp add: cell_capacity_def)
  then obtain cap1 where cap1: "checked_add cap (ce_capacity cell) = Some cap1"
    "unat cap1 = unat cap + unat (ce_capacity cell)"
    by (cases "checked_add cap (ce_capacity cell)") (auto simp: checked_add_eq_None checked_add_eq_Some)
  have step: "resolve_input t (seen, rs, cap) i
      = Ok (?p # seen, rs @ [\<lparr>ri_outpoint = ?p, ri_cell = cell\<rparr>], cap1)"
    using Cons.prems(2) cell cap1(1) by (simp add: resolve_input_Ok)
  have "\<exists>st. fold_res (resolve_input t) (?p # seen, rs @ [\<lparr>ri_outpoint = ?p, ri_cell = cell\<rparr>], cap1) is = Ok st"
    using Cons.prems cell cap1(2) by (intro Cons.IH) (auto simp: cell_capacity_def)
  with step show ?case by simp
qed simp

lemma create_outputs_total:
  "\<forall>(i, out, data)\<in>set items. verify_capacity out (length data) = Ok ()
      \<and> tree_get t (OutPoint (tx_id E tx) (as_u32 i)) = None \<Longrightarrow>
   unat cap + (\<Sum>(i, out, data)\<leftarrow>items. unat (co_capacity out)) < 2 ^ 64 \<Longrightarrow>
   \<exists>st. fold_res (create_output E t tx ctx) (cap, cs) items = Ok st"
proof (induction items arbitrary: cap cs)
  case (Cons item items)
  obtain i out data where item: "item = (i, out, data)" by (cases item)
  have "unat cap + unat (co_capacity out) < 2 ^ 64" using Cons.prems(2) by (simp add: item)
  then obtain cap1 where cap1: "checked_add cap (co_capacity out) = Some cap1"
    "unat cap1 = unat cap + unat (co_capacity out)"
    by (cases "checked_add cap (co_capacity out)") (auto simp: checked_add_eq_None checked_add_eq_Some)
  let ?c = "cs @ [(OutPoint (tx_id E tx) (as_u32 i), created_entry E tx ctx (out, data))]"
  have step: "create_output E t tx ctx (cap, cs) item = Ok (cap1, ?c)"
    using Cons.prems(1) cap1(1) by (simp add: item create_output_Ok)
  have "\<exists>st. fold_res (create_output E t tx ctx) (cap1, ?c) items = Ok st"
    using Cons.prems cap1(2) by (intro Cons.IH) (auto simp: item)
  with step show ?case by simp
qed simp

lemma sum_list_enumerate: "(\<Sum>(i, x)\<leftarrow>enumerate n xs. f x) = (\<Sum>x\<leftarrow>xs. f x)"
  by (induction xs arbitrary: n) simp_all

lemma outputs_total_enumerate:
  "(\<Sum>(i, out, data)\<leftarrow>enumerate n (zip (tx_outputs tx) (tx_outputs_data tx)). unat (co_capacity out)) = outputs_total tx"
  using sum_list_enumerate[of "\<lambda>(out, data). unat (co_capacity out)" n "zip (tx_outputs tx) (tx_outputs_data tx)"]
  by (simp add: outputs_total_def case_prod_unfold)

lemma enumerate_Ball:
  "(\<forall>(i, out, data)\<in>set (enumerate n xs). P out data \<and> Q i) \<longleftrightarrow>
     (\<forall>(out, data)\<in>set xs. P out data) \<and> (\<forall>i\<in>{n..<n + length xs}. Q i)"
proof (induction xs arbitrary: n)
  case (Cons x xs)
  have "{n..<n + length (x # xs)} = insert n {Suc n..<Suc n + length xs}" by auto
  with Cons[of "Suc n"] show ?case by (cases x) auto
qed simp

lemma created_fresh:
  "(\<forall>p\<in>set (map fst (created_cells E tx ctx)). tree_get t p = None) \<longleftrightarrow>
   (\<forall>i\<in>{0..<length (zip (tx_outputs tx) (tx_outputs_data tx))}. tree_get t (OutPoint (tx_id E tx) (as_u32 i)) = None)"
proof -
  have "map fst (created_cells E tx ctx) = map (\<lambda>i. OutPoint (tx_id E tx) (as_u32 i))
      (map fst (enumerate 0 (zip (tx_outputs tx) (tx_outputs_data tx))))"
    by (simp only: created_cells_def map_map comp_def case_prod_unfold fst_conv)
  then show ?thesis by simp
qed

text \<open>The outcome of the checks, in closed form.\<close>

lemma check_transaction_Ok:
  assumes "tx_inputs tx = [] \<longrightarrow> sx_allow_cellbase ctx"
  shows "check_transaction E t tx ctx v = Ok res \<longleftrightarrow>
    transition_ok E t tx ctx \<and> (\<exists>cycles inc outc. v tx (resolved_inputs t tx) = Ok cycles
      \<and> unat inc = inputs_total t tx \<and> unat outc = outputs_total tx
      \<and> res = (resolved_inputs t tx, inc, created_cells E tx ctx, outc, cycles))"
    (is "?l \<longleftrightarrow> ?r")
proof -
  let ?items = "enumerate 0 (zip (tx_outputs tx) (tx_outputs_data tx))"
  have created: "map (\<lambda>(i, od). (OutPoint (tx_id E tx) (as_u32 i), created_entry E tx ctx od)) ?items
      = created_cells E tx ctx"
    by (simp add: created_cells_def)
  have outs_ok: "(\<forall>(i, out, data)\<in>set ?items. verify_capacity out (length data) = Ok ()
          \<and> tree_get t (OutPoint (tx_id E tx) (as_u32 i)) = None) \<longleftrightarrow>
      (\<forall>(out, data)\<in>set (zip (tx_outputs tx) (tx_outputs_data tx)). verify_capacity out (length data) = Ok ())
      \<and> (\<forall>p\<in>set (map fst (created_cells E tx ctx)). tree_get t p = None)"
    unfolding created_fresh enumerate_Ball by simp
  show ?thesis
  proof
    assume ?l
    then obtain seen rs inc outc cs cycles where
      ins: "fold_res (resolve_input t) ([], [], 0) (tx_inputs tx) = Ok (seen, rs, inc)" and
      outs: "fold_res (create_output E t tx ctx) (0, []) ?items = Ok (outc, cs)" and
      suff: "tx_inputs tx \<noteq> [] \<longrightarrow> outc \<le> inc" and
      ver: "v tx rs = Ok cycles" and res: "res = (rs, inc, cs, outc, cycles)"
      by (auto simp: check_transaction_def res_simps not_less split: if_splits)
    note i = resolve_inputs_Ok[OF ins] and o = create_outputs_Ok[OF outs]
    have totals: "unat inc = inputs_total t tx" "unat outc = outputs_total tx"
      using i o by (simp_all add: inputs_total_def outputs_total_enumerate)
    have "unat inc < 2 ^ 64" "unat outc < 2 ^ 64" by simp_all
    then have bounds: "inputs_total t tx < 2 ^ 64" "outputs_total tx < 2 ^ 64" by (simp_all only: totals)
    moreover have "rs = resolved_inputs t tx" "cs = created_cells E tx ctx"
      using i o by (simp_all add: resolved_inputs_def created)
    moreover have "transition_ok E t tx ctx"
      unfolding transition_ok_def
      using i o assms suff[unfolded word_le_nat totals] outs_ok bounds by blast
    ultimately show ?r using ver res totals by blast
  next
    assume r: ?r
    then have ok: "transition_ok E t tx ctx" by blast
    then obtain st where "fold_res (resolve_input t) ([], [], 0) (tx_inputs tx) = Ok st"
      using resolve_inputs_total[of "tx_inputs tx" "[]" t 0 "[]"]
      by (auto simp: transition_ok_def inputs_total_def)
    then obtain seen rs inc where ins: "fold_res (resolve_input t) ([], [], 0) (tx_inputs tx) = Ok (seen, rs, inc)"
      by (cases st) auto
    obtain st' where "fold_res (create_output E t tx ctx) (0, []) ?items = Ok st'"
      using create_outputs_total[of ?items t E tx 0 ctx "[]"] ok outs_ok
      by (auto simp: transition_ok_def outputs_total_enumerate)
    then obtain outc cs where outs: "fold_res (create_output E t tx ctx) (0, []) ?items = Ok (outc, cs)"
      by (cases st') auto
    note i = resolve_inputs_Ok[OF ins] and o = create_outputs_Ok[OF outs]
    have rs: "rs = resolved_inputs t tx" "cs = created_cells E tx ctx"
      using i o by (simp_all add: resolved_inputs_def created)
    have totals: "unat inc = inputs_total t tx" "unat outc = outputs_total tx"
      using i o by (simp_all add: inputs_total_def outputs_total_enumerate)
    then have suff: "\<not> (tx_inputs tx \<noteq> [] \<and> inc < outc)"
      using ok by (auto simp: transition_ok_def word_less_nat)
    from r totals obtain cycles where "v tx (resolved_inputs t tx) = Ok cycles"
      "res = (resolved_inputs t tx, inc, created_cells E tx ctx, outc, cycles)"
      by (auto simp: word_unat_eq_iff)
    with ins outs suff rs show ?l by (simp add: check_transaction_def)
  qed
qed

section \<open>The effect on the live cells\<close>

definition live_capacity :: "cell_state_tree \<Rightarrow> nat" where
  "live_capacity t = map_total (\<lambda>_ e. unat (ce_capacity e)) (tree_get t)"

text \<open>The specification: the live cells as a map, spent and extended in one step.\<close>

definition spend_and_create ::
  "outpoint list \<Rightarrow> (outpoint \<times> cell_entry) list \<Rightarrow> (outpoint \<Rightarrow> cell_entry option) \<Rightarrow> outpoint \<Rightarrow> cell_entry option" where
  "spend_and_create spent created live = (\<lambda>p. if p \<in> set spent then None else live p) ++ map_of created"

lemma ri_outpoint_resolved [simp]: "map ri_outpoint (resolved_inputs t tx) = input_points tx"
  by (simp add: resolved_inputs_def comp_def)

lemma created_cells_distinct:
  assumes "length (tx_outputs tx) \<le> 2 ^ 32"
  shows "distinct (map fst (created_cells E tx ctx))"
proof -
  let ?n = "length (zip (tx_outputs tx) (tx_outputs_data tx))"
  have "map fst (created_cells E tx ctx) = map (\<lambda>i. OutPoint (tx_id E tx) (as_u32 i))
      (map fst (enumerate 0 (zip (tx_outputs tx) (tx_outputs_data tx))))"
    by (simp only: created_cells_def map_map comp_def case_prod_unfold fst_conv)
  moreover have "inj_on as_u32 {0..<?n}"
    by (rule inj_onI, rule as_u32_inj) (use assms in auto)
  then have "inj_on (\<lambda>i. OutPoint (tx_id E tx) (as_u32 i)) {0..<?n}"
    unfolding inj_on_def by simp
  ultimately show ?thesis by (simp add: distinct_map)
qed

lemma created_capacity:
  "(\<Sum>(p, e)\<leftarrow>created_cells E tx ctx. unat (ce_capacity e)) = outputs_total tx"
proof -
  have "(\<Sum>(p, e)\<leftarrow>created_cells E tx ctx. unat (ce_capacity e))
      = (\<Sum>(i, out, data)\<leftarrow>enumerate 0 (zip (tx_outputs tx) (tx_outputs_data tx)). unat (co_capacity out))"
    unfolding created_cells_def map_map comp_def
    by (rule arg_cong[of _ _ sum_list], rule map_cong) (auto simp: created_entry_def)
  then show ?thesis by (simp only: outputs_total_enumerate)
qed

lemma commit_cells_spec:
  assumes "tree_inv E t" "distinct (map fst created)"
  shows "tree_inv E (commit_cells E rs created t)"
    "tree_get (commit_cells E rs created t) = spend_and_create (map ri_outpoint rs) created (tree_get t)"
proof -
  note d = celltree.dels_get[OF assms(1), of "map ri_outpoint rs"]
  note i = celltree.inss_get[OF conjunct1[OF d] assms(2)]
  show "tree_inv E (commit_cells E rs created t)" unfolding commit_cells_def using i by blast
  show "tree_get (commit_cells E rs created t) = spend_and_create (map ri_outpoint rs) created (tree_get t)"
    unfolding commit_cells_def conjunct2[OF i] conjunct2[OF d] spend_and_create_def ..
qed

lemma commit_cells_capacity:
  assumes "tree_inv E t" "transition_ok E t tx ctx" "length (tx_outputs tx) \<le> 2 ^ 32"
  shows "live_capacity (commit_cells E (resolved_inputs t tx) (created_cells E tx ctx) t) + inputs_total t tx
    = live_capacity t + outputs_total tx"
proof -
  let ?f = "\<lambda>(_::outpoint) e. unat (ce_capacity e)" and ?ps = "input_points tx"
  let ?t1 = "fold (\<lambda>p t. snd (tree_remove E p t)) ?ps t"
  note d = celltree.dels_get[OF assms(1), of ?ps]
  from assms(2) have live: "tree_get t p = Some (the (tree_get t p))" if "p \<in> set ?ps" for p
    using that by (auto simp: transition_ok_def)
  have "distinct ?ps" using assms(2) by (simp add: transition_ok_def)
  then have "live_capacity t = (\<Sum>p\<leftarrow>?ps. unat (ce_capacity (the (tree_get t p)))) + live_capacity ?t1"
    unfolding live_capacity_def using live by (intro celltree.total_dels[OF assms(1)])
  moreover have "(\<Sum>p\<leftarrow>?ps. unat (ce_capacity (the (tree_get t p)))) = inputs_total t tx"
    unfolding inputs_total_def
    by (rule arg_cong[of _ _ sum_list], rule map_cong[OF refl])
      (use assms(2) in \<open>auto simp: cell_capacity_def transition_ok_def split: option.splits\<close>)
  moreover have "live_capacity (commit_cells E (resolved_inputs t tx) (created_cells E tx ctx) t)
      = (\<Sum>(p, e)\<leftarrow>created_cells E tx ctx. unat (ce_capacity e)) + live_capacity ?t1"
    unfolding live_capacity_def commit_cells_def ri_outpoint_resolved
  proof (rule celltree.total_inss[OF conjunct1[OF d] created_cells_distinct[OF assms(3)]])
    fix p assume "p \<in> fst ` set (created_cells E tx ctx)"
    then have "tree_get t p = None" using assms(2) by (auto simp: transition_ok_def)
    then show "tree_get ?t1 p = None" unfolding conjunct2[OF d] by simp
  qed
  ultimately show ?thesis by (simp add: created_capacity)
qed

section \<open>Outcomes of the whole handler\<close>

lemma tree_get_root [simp]: "tree_get (snd (tree_root E t)) = tree_get t"
  by (simp add: tree_get_def fun_eq_iff)

lemma totals_root [simp]:
  "resolved_inputs (snd (tree_root E t)) tx = resolved_inputs t tx"
  "inputs_total (snd (tree_root E t)) tx = inputs_total t tx"
  "transition_ok E' (snd (tree_root E t)) tx ctx = transition_ok E' t tx ctx"
  "live_capacity (snd (tree_root E t)) = live_capacity t"
  by (simp_all add: resolved_inputs_def inputs_total_def cell_capacity_def[abs_def] transition_ok_def live_capacity_def)

lemma tree_inv_root [simp]: "tree_inv E t \<Longrightarrow> tree_inv E (snd (tree_root E t))"
  unfolding tree_inv_def using tree_rep_root by blast

lemma apply_transaction_cases:
  "apply_transaction E t tx ctx v = (res, t') \<longleftrightarrow>
     (if tx_inputs tx = [] \<and> \<not> sx_allow_cellbase ctx then res = Err UnauthorizedCellbase \<and> t' = t
      else case check_transaction E (snd (tree_root E t)) tx ctx v of
             Inl e \<Rightarrow> res = Err e \<and> t' = snd (tree_root E t)
           | Inr (rs, inc, cs, outc, cycles) \<Rightarrow>
               t' = snd (tree_root E (commit_cells E rs cs (snd (tree_root E t))))
               \<and> res = Ok \<lparr>sr_txid = tx_id E tx, sr_state_root_before = fst (tree_root E t),
                     sr_state_root_after = fst (tree_root E (commit_cells E rs cs (snd (tree_root E t)))),
                     sr_consumed = map ri_outpoint rs, sr_created = map fst cs,
                     sr_fee = saturating_sub inc outc, sr_cycles = cycles\<rparr>)"
  by (auto simp: apply_transaction_def Let_def case_prod_unfold split: sum.splits)

lemma apply_transaction_Ok:
  assumes "apply_transaction E t tx ctx v = (Ok r, t')"
  obtains cycles inc outc where
    "transition_ok E t tx ctx" "v tx (resolved_inputs t tx) = Ok cycles"
    "unat inc = inputs_total t tx" "unat outc = outputs_total tx"
    "t' = snd (tree_root E (commit_cells E (resolved_inputs t tx) (created_cells E tx ctx) (snd (tree_root E t))))"
    "sr_txid r = tx_id E tx" "sr_consumed r = input_points tx" "sr_created r = map fst (created_cells E tx ctx)"
    "sr_fee r = saturating_sub inc outc" "sr_cycles r = cycles"
    "sr_state_root_before r = fst (tree_root E t)"
    "sr_state_root_after r = fst (tree_root E (commit_cells E (resolved_inputs t tx) (created_cells E tx ctx) (snd (tree_root E t))))"
proof -
  from assms have base: "tx_inputs tx = [] \<longrightarrow> sx_allow_cellbase ctx"
    by (auto simp: apply_transaction_cases split: if_splits)
  then obtain chk where chk: "check_transaction E (snd (tree_root E t)) tx ctx v = Ok chk"
    using assms by (auto simp: apply_transaction_cases split: sum.splits if_splits)
  from check_transaction_Ok[OF base, THEN iffD1, OF chk] obtain cycles inc outc where
    ok: "transition_ok E t tx ctx" "v tx (resolved_inputs t tx) = Ok cycles"
    "unat inc = inputs_total t tx" "unat outc = outputs_total tx"
    "chk = (resolved_inputs t tx, inc, created_cells E tx ctx, outc, cycles)"
    by auto
  have "\<not> (tx_inputs tx = [] \<and> \<not> sx_allow_cellbase ctx)" using base by blast
  with assms chk ok(5) show ?thesis
    by (intro that[OF ok(1-4)]) (simp_all add: apply_transaction_cases)
qed

lemma unat_fee:
  assumes "transition_ok E t tx ctx" "unat inc = inputs_total t tx" "unat outc = outputs_total tx"
  shows "unat (saturating_sub inc outc) = inputs_total t tx - outputs_total tx"
  using assms by (simp add: unat_saturating_sub)

lemma apply_transaction_total:
  assumes "transition_ok E t tx ctx" "v tx (resolved_inputs t tx) = Ok cycles"
  shows "\<exists>r t'. apply_transaction E t tx ctx v = (Ok r, t')"
proof -
  have base: "tx_inputs tx = [] \<longrightarrow> sx_allow_cellbase ctx" using assms(1) by (simp add: transition_ok_def)
  have "inputs_total t tx < 2 ^ 64" "outputs_total tx < 2 ^ 64" using assms(1) by (auto simp: transition_ok_def)
  then have "unat (as_u64 (inputs_total t tx)) = inputs_total t tx" "unat (as_u64 (outputs_total tx)) = outputs_total tx"
    by (simp_all add: unat_as_u64)
  then have "check_transaction E (snd (tree_root E t)) tx ctx v
      = Ok (resolved_inputs t tx, as_u64 (inputs_total t tx), created_cells E tx ctx, as_u64 (outputs_total tx), cycles)"
    using assms by (auto simp: check_transaction_Ok[OF base])
  with base show ?thesis
    by (cases "apply_transaction E t tx ctx v") (auto simp: apply_transaction_def Let_def case_prod_unfold)
qed

section \<open>Properties of the engine\<close>

definition sample_point :: outpoint where "sample_point = OutPoint (replicate 32 9) 0"

definition sample_state :: cell_state_tree where
  "sample_state = tree_insert toy_env sample_point (sample_entry 1000) tree_new"

definition accept_all :: verifier where "accept_all tx rs = Ok 7"

lemma sample_state_inv: "tree_inv toy_env sample_state"
  unfolding sample_state_def by (rule celltree.inv_ins) (use tree_rep_new in \<open>auto simp: tree_inv_def\<close>)

lemma tree_get_sample: "tree_get sample_state = [sample_point \<mapsto> sample_entry 1000]"
  by (auto simp: fun_eq_iff sample_state_def tree_get_def bt_get_def tree_new_def)

lemma sample_transition_ok: "transition_ok toy_env sample_state (sample_tx 900 []) (ctx_ordinary 7)"
proof -
  have id: "tx_id toy_env (sample_tx 900 []) \<noteq> replicate 32 9" by code_simp
  have cap: "\<forall>(out, data)\<in>set (zip (tx_outputs (sample_tx 900 [])) (tx_outputs_data (sample_tx 900 []))).
      verify_capacity out (length data) = Ok ()" by code_simp
  have points: "input_points (sample_tx 900 []) = [sample_point]" by (simp add: sample_tx_def sample_point_def)
  have "inputs_total sample_state (sample_tx 900 []) = 1000"
    unfolding inputs_total_def points
    by (simp add: cell_capacity_def tree_get_sample sample_entry_def cell_entry_new_def)
  moreover have "outputs_total (sample_tx 900 []) = 900" by (simp add: outputs_total_def sample_tx_def)
  moreover have "\<forall>p\<in>set (map fst (created_cells toy_env (sample_tx 900 []) (ctx_ordinary 7))). tree_get sample_state p = None"
    using id by (auto simp: created_cells_def tree_get_sample sample_point_def)
  ultimately show ?thesis
    unfolding transition_ok_def points using cap by (simp add: tree_get_sample sample_tx_def)
qed

text \<open>
  \<^bold>\<open>C1\<close>. An accepted transaction has exactly the specified effect: the live cells become the
  old ones with every input spent and every output created under the transaction id and its
  index, the receipt lists the spent and created outpoints in order, its fee is what the inputs
  carry beyond the outputs, its cycles are the verifier's on the inputs resolved from the
  pre-state, its roots are those before and after, and the tree invariant holds again.
\<close>

theorem apply_transaction_effect:
  assumes "tree_inv E t" "length (tx_outputs tx) \<le> 2 ^ 32" "apply_transaction E t tx ctx v = (Ok r, t')"
  shows "tree_get t' = spend_and_create (input_points tx) (created_cells E tx ctx) (tree_get t)
    \<and> tree_inv E t' \<and> sr_txid r = tx_id E tx
    \<and> sr_consumed r = input_points tx \<and> sr_created r = map fst (created_cells E tx ctx)
    \<and> unat (sr_fee r) = inputs_total t tx - outputs_total tx
    \<and> v tx (resolved_inputs t tx) = Ok (sr_cycles r)
    \<and> sr_state_root_before r = fst (tree_root E t) \<and> sr_state_root_after r = fst (tree_root E t')"
  using assms(3)
proof (rule apply_transaction_Ok)
  fix cycles inc outc
  let ?s = "snd (tree_root E t)"
  let ?c = "commit_cells E (resolved_inputs t tx) (created_cells E tx ctx) ?s"
  assume ok: "transition_ok E t tx ctx" "unat inc = inputs_total t tx" "unat outc = outputs_total tx"
    and rest: "v tx (resolved_inputs t tx) = Ok cycles" "t' = snd (tree_root E ?c)"
    "sr_txid r = tx_id E tx" "sr_consumed r = input_points tx" "sr_created r = map fst (created_cells E tx ctx)"
    "sr_fee r = saturating_sub inc outc" "sr_cycles r = cycles" "sr_state_root_before r = fst (tree_root E t)"
    "sr_state_root_after r = fst (tree_root E ?c)"
  note spec = commit_cells_spec[OF tree_inv_root[OF assms(1)] created_cells_distinct[OF assms(2), of E ctx],
      of "resolved_inputs t tx"]
  have "fst (tree_root E (snd (tree_root E ?c))) = fst (tree_root E ?c)"
    by (simp add: tree_root_def Let_def split: option.splits)
  with spec unat_fee[OF ok] rest show ?thesis by simp
qed

theorem apply_transaction_effect_witness:
  "\<exists>r t'. apply_transaction toy_env sample_state (sample_tx 900 []) (ctx_ordinary 7) accept_all = (Ok r, t')
     \<and> tree_get t' sample_point = None \<and> sr_consumed r = [sample_point] \<and> unat (sr_fee r) = 100"
proof -
  obtain r t' where a: "apply_transaction toy_env sample_state (sample_tx 900 []) (ctx_ordinary 7) accept_all = (Ok r, t')"
    using apply_transaction_total[OF sample_transition_ok, of accept_all 7] by (auto simp: accept_all_def)
  have len: "length (tx_outputs (sample_tx 900 [])) \<le> 2 ^ 32" by (simp add: sample_tx_def)
  have points: "input_points (sample_tx 900 []) = [sample_point]" by (simp add: sample_tx_def sample_point_def)
  have totals: "inputs_total sample_state (sample_tx 900 []) = 1000" "outputs_total (sample_tx 900 []) = 900"
    unfolding inputs_total_def points
    by (simp_all add: cell_capacity_def tree_get_sample sample_entry_def cell_entry_new_def outputs_total_def sample_tx_def)
  have fresh: "map_of (created_cells toy_env (sample_tx 900 []) (ctx_ordinary 7)) sample_point = None"
    using sample_transition_ok tree_get_sample by (force simp: transition_ok_def map_of_eq_None_iff)
  from apply_transaction_effect[OF sample_state_inv len a] a fresh show ?thesis
    unfolding points totals by (auto simp: spend_and_create_def map_add_def)
qed

text \<open>
  \<^bold>\<open>C2\<close>. A transaction is accepted exactly when it is authorised in its context, spends
  distinct live cells, creates outpoints that are not live, gives every output the capacity it
  occupies, overflows no capacity sum, creates no more capacity than it spends unless it is an
  authorised cellbase, and its scripts verify against the resolved pre-state.
\<close>

theorem apply_transaction_accepts_iff:
  "(\<exists>r t'. apply_transaction E t tx ctx v = (Ok r, t')) \<longleftrightarrow>
     transition_ok E t tx ctx \<and> (\<exists>cycles. v tx (resolved_inputs t tx) = Ok cycles)"
  using apply_transaction_total apply_transaction_Ok by metis

text \<open>
  \<^bold>\<open>C5\<close>. A rejected transaction leaves the live cells, the state root and the invariant as
  they were, whatever the reason of the rejection.
\<close>

theorem apply_transaction_rejection_atomic:
  assumes "tree_inv E t" "apply_transaction E t tx ctx v = (Err e, t')"
  shows "ct_cells t' = ct_cells t \<and> fst (tree_root E t') = fst (tree_root E t) \<and> tree_inv E t'"
proof -
  from assms(2) have "t' = t \<or> t' = snd (tree_root E t)"
    by (auto simp: apply_transaction_cases split: if_splits sum.splits prod.splits)
  moreover have "fst (tree_root E (snd (tree_root E t))) = fst (tree_root E t)"
    by (simp add: tree_root_def Let_def split: option.splits)
  ultimately show ?thesis using assms(1) by auto
qed

theorem apply_transaction_rejection_atomic_witness:
  "\<exists>e t'. apply_transaction toy_env sample_state (sample_tx 900 []) (ctx_ordinary 7) (\<lambda>_ _. Err ''no'') = (Err e, t')
     \<and> ct_cells t' = ct_cells sample_state"
proof -
  have "\<not> (\<exists>r t'. apply_transaction toy_env sample_state (sample_tx 900 []) (ctx_ordinary 7) (\<lambda>_ _. Err ''no'') = (Ok r, t'))"
    by (auto elim: apply_transaction_Ok)
  then obtain e t' where a: "apply_transaction toy_env sample_state (sample_tx 900 []) (ctx_ordinary 7) (\<lambda>_ _. Err ''no'') = (Err e, t')"
    by (metis old.sum.exhaust surj_pair)
  with apply_transaction_rejection_atomic[OF sample_state_inv a] show ?thesis by blast
qed

section \<open>Conservation of capacity\<close>

type_synonym request = "cell_tx \<times> state_transition_context \<times> verifier"

fun run_transactions ::
  "crypto_env \<Rightarrow> cell_state_tree \<Rightarrow> request list \<Rightarrow> (state_transition_error + state_transition_receipt) list \<times> cell_state_tree" where
  "run_transactions E t [] = ([], t)"
| "run_transactions E t ((tx, ctx, v) # reqs) =
     (let (res, t') = apply_transaction E t tx ctx v; (rest, t'') = run_transactions E t' reqs
      in (res # rest, t''))"

definition fee_of :: "state_transition_error + state_transition_receipt \<Rightarrow> nat" where
  "fee_of res = (case res of Inl e \<Rightarrow> 0 | Inr r \<Rightarrow> unat (sr_fee r))"

definition minted :: "request \<times> (state_transition_error + state_transition_receipt) \<Rightarrow> nat" where
  "minted rr = (case rr of ((tx, ctx, v), res) \<Rightarrow>
     (case res of Inl e \<Rightarrow> 0 | Inr r \<Rightarrow> (if tx_inputs tx = [] then outputs_total tx else 0)))"

lemma apply_transaction_capacity:
  assumes "tree_inv E t" "length (tx_outputs tx) \<le> 2 ^ 32" "apply_transaction E t tx ctx v = (res, t')"
  shows "live_capacity t' + fee_of res = live_capacity t + minted ((tx, ctx, v), res) \<and> tree_inv E t'"
proof (cases res)
  case (Inl e)
  with assms(3) have "t' = t \<or> t' = snd (tree_root E t)"
    by (auto simp: apply_transaction_cases split: if_splits sum.splits prod.splits)
  with Inl assms(1) show ?thesis by (auto simp: fee_of_def minted_def)
next
  case (Inr r)
  from assms(3)[unfolded Inr] show ?thesis
  proof (rule apply_transaction_Ok)
    fix cycles inc outc
    let ?s = "snd (tree_root E t)"
    let ?c = "commit_cells E (resolved_inputs t tx) (created_cells E tx ctx) ?s"
    assume ok: "transition_ok E t tx ctx" "unat inc = inputs_total t tx" "unat outc = outputs_total tx"
      and t': "t' = snd (tree_root E ?c)" and fee: "sr_fee r = saturating_sub inc outc"
    have "live_capacity ?c + inputs_total t tx = live_capacity t + outputs_total tx"
      using commit_cells_capacity[OF tree_inv_root[OF assms(1)] _ assms(2), where ctx = ctx] ok(1) by simp
    moreover have "tree_inv E t'"
      using commit_cells_spec(1)[OF tree_inv_root[OF assms(1)] created_cells_distinct[OF assms(2)]] t' by simp
    moreover have "tx_inputs tx = [] \<longrightarrow> inputs_total t tx = 0" by (simp add: inputs_total_def)
    moreover have "tx_inputs tx \<noteq> [] \<longrightarrow> outputs_total tx \<le> inputs_total t tx"
      using ok(1) by (simp add: transition_ok_def)
    ultimately show ?thesis
      using unat_fee[OF ok] by (auto simp: Inr fee_of_def minted_def t' fee)
  qed
qed

text \<open>
  \<^bold>\<open>C3\<close>. Over any sequence of transactions, accepted and rejected ones mixed, the capacity
  of the live cells plus the fees charged equals the capacity at the start plus what accepted
  cellbase transactions issued: capacity is neither created nor lost.
\<close>

theorem capacity_conserved:
  assumes "tree_inv E t" "\<forall>(tx, ctx, v)\<in>set reqs. length (tx_outputs tx) \<le> 2 ^ 32"
    and "run_transactions E t reqs = (results, t')"
  shows "live_capacity t' + (\<Sum>res\<leftarrow>results. fee_of res)
    = live_capacity t + (\<Sum>rr\<leftarrow>zip reqs results. minted rr)"
  using assms
proof (induction reqs arbitrary: t results)
  case (Cons req reqs)
  obtain tx ctx v where req: "req = (tx, ctx, v)" by (cases req)
  obtain res t1 where a: "apply_transaction E t tx ctx v = (res, t1)" by fastforce
  obtain rest where run: "run_transactions E t1 reqs = (rest, t')" "results = res # rest"
    using Cons.prems(3) by (auto simp: req a split: prod.splits)
  have len: "length (tx_outputs tx) \<le> 2 ^ 32" using Cons.prems(2) by (simp add: req)
  note step = apply_transaction_capacity[OF Cons.prems(1) len a]
  have "live_capacity t' + (\<Sum>res\<leftarrow>rest. fee_of res) = live_capacity t1 + (\<Sum>rr\<leftarrow>zip reqs rest. minted rr)"
    using step Cons.prems(2) run(1) by (intro Cons.IH) auto
  with step run(2) show ?case by (simp add: req)
qed simp

theorem capacity_conserved_witness:
  "live_capacity (snd (run_transactions toy_env sample_state [(sample_tx 900 [], ctx_ordinary 7, accept_all)]))
     + fee_of (hd (fst (run_transactions toy_env sample_state [(sample_tx 900 [], ctx_ordinary 7, accept_all)]))) = 1000"
proof -
  let ?reqs = "[(sample_tx 900 [], ctx_ordinary 7, accept_all)]"
  have "dom (tree_get sample_state) = {sample_point}" by (auto simp: tree_get_sample)
  then have cap: "live_capacity sample_state = 1000"
    by (simp add: live_capacity_def map_total_def tree_get_sample sample_entry_def cell_entry_new_def)
  obtain res t' where a: "apply_transaction toy_env sample_state (sample_tx 900 []) (ctx_ordinary 7) accept_all = (res, t')"
    by fastforce
  then have run: "run_transactions toy_env sample_state ?reqs = ([res], t')" by simp
  have "\<forall>(tx, ctx, v)\<in>set ?reqs. length (tx_outputs tx) \<le> 2 ^ 32" by (simp add: sample_tx_def)
  from capacity_conserved[OF sample_state_inv this run] run cap show ?thesis
    by (simp add: minted_def sample_tx_def split: sum.splits)
qed

end
