(* ===== verification/Dag.thy ===== *)
theory Dag
  imports Sighash
begin

text \<open>
  The transaction dependency graph (\<open>exec/src/scheduler/dag.rs\<close>): scheduler plans, edge
  construction from outputs to inputs and dependencies, conflict-domain edges, the layered
  topological sort and the path search. Edges and their reverses are \<open>BTreeMap\<close>s from nodes to
  vectors, as in the code.
\<close>

section \<open>Model\<close>

type_synonym node_id = nat

datatype dag_edge = Dependency | ReadDep
datatype access_mode = ReadAccess | WriteAccess

record conflict_entry =
  en_node_id :: node_id
  en_mode :: access_mode

datatype dag_error =
    CycleDetected
  | InvalidRWSet string
  | DoubleSpend outpoint node_id node_id
  | DuplicateTransaction hash32 node_id node_id
  | SchedulerPlanCountMismatch nat nat
  | SchedulerPlanTxidMismatch node_id hash32 hash32
  | InvalidSchedulerPlan string

record scheduler_plan =
  sp_txid :: hash32
  sp_accesses :: "(hash32 \<times> access_mode) list"

definition plan_step ::
  "(hash32, access_mode) btree \<Rightarrow> hash32 \<times> access_mode \<Rightarrow> dag_error + (hash32, access_mode) btree" where
  "plan_step aggregated access =
     (let (conflict_hash, mode) = access
      in if conflict_hash = replicate 32 0 then Err (InvalidSchedulerPlan ''zero conflict hash'')
         else Ok (case bt_get aggregated conflict_hash of
                    Some current \<Rightarrow>
                      (if mode = WriteAccess then bt_insert conflict_hash WriteAccess aggregated else aggregated)
                  | None \<Rightarrow> bt_insert conflict_hash mode aggregated))"

definition scheduler_plan_new ::
  "crypto_env \<Rightarrow> cell_tx \<Rightarrow> (hash32 \<times> access_mode) list \<Rightarrow> dag_error + scheduler_plan" where
  "scheduler_plan_new E tx accesses =
     res_bind (fold_res plan_step [] accesses) (\<lambda>aggregated.
     Ok \<lparr>sp_txid = tx_id E tx, sp_accesses = aggregated\<rparr>)"

definition scheduler_plan_empty :: "crypto_env \<Rightarrow> cell_tx \<Rightarrow> scheduler_plan" where
  "scheduler_plan_empty E tx = \<lparr>sp_txid = tx_id E tx, sp_accesses = []\<rparr>"

type_synonym edge_map = "(node_id, (node_id \<times> dag_edge) list) btree"
type_synonym reverse_map = "(node_id, node_id list) btree"

record cell_dag =
  dg_node_count :: nat
  dg_edges :: edge_map
  dg_reverse_edges :: reverse_map
  dg_conflict_hash_conflicts :: "(hash32, conflict_entry list) btree"
  dg_layers :: "node_id list list"

text \<open>\<open>get(..).unwrap_or_default()\<close> and \<open>entry(..).or_default().push(..)\<close>.\<close>

definition bt_list :: "('k, 'v list) btree \<Rightarrow> 'k \<Rightarrow> 'v list" where
  "bt_list m k = (case bt_get m k of Some vs \<Rightarrow> vs | None \<Rightarrow> [])"

definition bt_push :: "'k::linorder \<Rightarrow> 'v \<Rightarrow> ('k, 'v list) btree \<Rightarrow> ('k, 'v list) btree" where
  "bt_push k v m = bt_insert k (bt_list m k @ [v]) m"

definition add_edge ::
  "edge_map \<times> reverse_map \<Rightarrow> node_id \<Rightarrow> node_id \<Rightarrow> dag_edge \<Rightarrow> dag_error + edge_map \<times> reverse_map" where
  "add_edge er from to edge =
     (let (edges, reverse_edges) = er
      in if from = to then Err (InvalidRWSet ''self-dependency for transaction node'')
         else if list_ex (\<lambda>(successor, _). successor = to) (bt_list edges from) then Ok (edges, reverse_edges)
         else Ok (bt_push from (to, edge) edges, bt_push to from reverse_edges))"

definition register_producer ::
  "crypto_env \<Rightarrow> (hash32, node_id) btree \<times> (outpoint, node_id) btree \<Rightarrow> nat \<times> cell_tx
     \<Rightarrow> dag_error + (hash32, node_id) btree \<times> (outpoint, node_id) btree" where
  "register_producer E st item =
     (let (txids, producers) = st; (node_id, tx) = item; tx_hash = tx_id E tx
      in case bt_get txids tx_hash of
           Some first_node \<Rightarrow> Err (DuplicateTransaction tx_hash first_node node_id)
         | None \<Rightarrow>
             Ok (bt_insert tx_hash node_id txids,
                 fold (\<lambda>(idx, _) ps. bt_insert (OutPoint tx_hash (as_u32 idx)) node_id ps)
                   (enumerate 0 (tx_outputs tx)) producers))"

definition link_input ::
  "(outpoint, node_id) btree \<Rightarrow> node_id \<Rightarrow> (edge_map \<times> reverse_map) \<times> (outpoint, node_id) btree \<Rightarrow> cell_input
     \<Rightarrow> dag_error + (edge_map \<times> reverse_map) \<times> (outpoint, node_id) btree" where
  "link_input producers consumer_id st input =
     (let (er, consumers) = st; p = ci_previous_output input
      in res_bind (case bt_get producers p of
                     Some producer_id \<Rightarrow> add_edge er producer_id consumer_id Dependency
                   | None \<Rightarrow> Ok er) (\<lambda>er.
         case bt_get consumers p of
           Some first_consumer \<Rightarrow> Err (DoubleSpend p first_consumer consumer_id)
         | None \<Rightarrow> Ok (er, bt_insert p consumer_id consumers)))"

definition link_dep ::
  "(outpoint, node_id) btree \<Rightarrow> node_id \<Rightarrow> edge_map \<times> reverse_map \<Rightarrow> cell_dep
     \<Rightarrow> dag_error + edge_map \<times> reverse_map" where
  "link_dep producers consumer_id er dep =
     (case bt_get producers (cd_out_point dep) of
        Some producer_id \<Rightarrow> add_edge er producer_id consumer_id ReadDep
      | None \<Rightarrow> Ok er)"

definition link_transaction ::
  "(outpoint, node_id) btree \<Rightarrow> (edge_map \<times> reverse_map) \<times> (outpoint, node_id) btree \<Rightarrow> nat \<times> cell_tx
     \<Rightarrow> dag_error + (edge_map \<times> reverse_map) \<times> (outpoint, node_id) btree" where
  "link_transaction producers st item =
     (let (consumer_id, tx) = item
      in res_bind (fold_res (link_input producers consumer_id) st (tx_inputs tx)) (\<lambda>(er, consumers).
         res_bind (fold_res (link_dep producers consumer_id) er (tx_cell_deps tx)) (\<lambda>er.
         Ok (er, consumers))))"

section \<open>Layers\<close>

definition relax :: "nat list \<times> node_id list \<Rightarrow> node_id \<Rightarrow> dag_error + nat list \<times> node_id list" where
  "relax st successor =
     (let (in_degree, next_layer) = st
      in if length in_degree \<le> successor then Err (InvalidRWSet ''successor node is out of bounds'')
         else if in_degree ! successor = 0 then Err (InvalidRWSet ''successor node reached zero in-degree too early'')
         else let degree = in_degree ! successor - 1
              in Ok (in_degree[successor := degree],
                     if degree = 0 then next_layer @ [successor] else next_layer))"

definition relax_layer ::
  "edge_map \<Rightarrow> nat list \<Rightarrow> node_id list \<Rightarrow> dag_error + nat list \<times> node_id list" where
  "relax_layer edges in_degree layer =
     fold_res relax (in_degree, []) (concat (map (\<lambda>node. map fst (bt_list edges node)) layer))"

lemma relax_decreases:
  assumes "relax (deg, next) v = Ok (deg', next')"
  shows "sum_list deg' < sum_list deg"
proof -
  from assms have v: "v < length deg" and pos: "deg ! v \<noteq> 0" and deg': "deg' = deg[v := deg ! v - 1]"
    by (auto simp: relax_def Let_def split: if_splits)
  from elem_le_sum_list[OF v] v pos show ?thesis
    unfolding deg' by (simp add: sum_list_update)
qed

lemma relax_fold_decreases:
  assumes "fold_res relax (deg, next) vs = Ok (deg', next')"
  shows "sum_list deg' + length vs \<le> sum_list deg"
  using assms
proof (induction vs arbitrary: deg "next")
  case (Cons v vs)
  from Cons.prems obtain d n where 1: "relax (deg, next) v = Ok (d, n)"
    and 2: "fold_res relax (d, n) vs = Ok (deg', next')"
    by (cases "relax (deg, next) v") (auto simp: res_simps)
  from relax_decreases[OF 1] Cons.IH[OF 2] show ?case by simp
qed (simp add: res_simps)

lemma relax_layer_decreases:
  assumes "relax_layer edges deg layer = Ok (deg', next)" "next \<noteq> []"
  shows "sum_list deg' < sum_list deg"
proof -
  obtain vs where f: "fold_res relax (deg, []) vs = Ok (deg', next)"
    using assms(1) by (auto simp: relax_layer_def)
  then have "vs \<noteq> []" using assms(2) by (auto simp: res_simps)
  with relax_fold_decreases[OF f] show ?thesis by (cases vs) auto
qed

lemma relax_layer_mono:
  "relax_layer edges deg layer = Ok (deg', next) \<Longrightarrow> sum_list deg' \<le> sum_list deg"
  using relax_fold_decreases by (fastforce simp: relax_layer_def)

function layers_loop ::
  "edge_map \<Rightarrow> nat list \<Rightarrow> node_id list \<Rightarrow> node_id list list \<Rightarrow> nat
     \<Rightarrow> dag_error + node_id list list \<times> nat" where
  "layers_loop edges in_degree current_layer layers processed =
     (if current_layer = [] then Ok (layers, processed)
      else let current_layer = sort current_layer
           in res_bind (relax_layer edges in_degree current_layer) (\<lambda>(in_degree, next_layer).
              layers_loop edges in_degree next_layer (layers @ [current_layer])
                (processed + length current_layer)))"
  by pat_completeness auto
termination
proof (relation "measure (\<lambda>(_, deg, cur, _, _). 2 * sum_list deg + (if cur = [] then 0 else 1))")
qed (auto dest: relax_layer_decreases relax_layer_mono)

declare layers_loop.simps [simp del]

definition compute_layers :: "edge_map \<Rightarrow> reverse_map \<Rightarrow> nat \<Rightarrow> dag_error + node_id list list" where
  "compute_layers edges reverse_edges node_count =
     (if node_count = 0 then Ok []
      else let in_degree = map (\<lambda>node. length (bt_list reverse_edges node)) [0..<node_count];
               current_layer = filter (\<lambda>node. in_degree ! node = 0) [0..<node_count]
           in res_bind (layers_loop edges in_degree current_layer [] 0) (\<lambda>(layers, processed).
              if processed \<noteq> node_count then Err CycleDetected else Ok layers))"

section \<open>Building the graph\<close>

definition build :: "crypto_env \<Rightarrow> cell_tx list \<Rightarrow> dag_error + cell_dag" where
  "build E txs =
     res_bind (fold_res (register_producer E) ([], []) (enumerate 0 txs)) (\<lambda>(txids, producers).
     res_bind (fold_res (link_transaction producers) (([], []), []) (enumerate 0 txs)) (\<lambda>(er, consumers).
     res_bind (compute_layers (fst er) (snd er) (length txs)) (\<lambda>layers.
     Ok \<lparr>dg_node_count = length txs, dg_edges = fst er, dg_reverse_edges = snd er,
          dg_conflict_hash_conflicts = [], dg_layers = layers\<rparr>)))"

definition collect_plan ::
  "crypto_env \<Rightarrow> (hash32, conflict_entry list) btree \<Rightarrow> nat \<times> cell_tx \<times> scheduler_plan
     \<Rightarrow> dag_error + (hash32, conflict_entry list) btree" where
  "collect_plan E conflicts item =
     (let (node_id, tx, plan) = item; actual_txid = tx_id E tx
      in if sp_txid plan \<noteq> actual_txid
         then Err (SchedulerPlanTxidMismatch node_id actual_txid (sp_txid plan))
         else Ok (fold (\<lambda>(conflict_hash, mode). bt_push conflict_hash \<lparr>en_node_id = node_id, en_mode = mode\<rparr>)
                   (sp_accesses plan) conflicts))"

definition conflict_edge ::
  "edge_map \<times> reverse_map \<Rightarrow> conflict_entry \<times> conflict_entry \<Rightarrow> dag_error + edge_map \<times> reverse_map" where
  "conflict_edge er pair =
     (let (left, right) = pair
      in if en_mode left = ReadAccess \<and> en_mode right = ReadAccess then Ok er
         else if en_node_id left < en_node_id right
         then add_edge er (en_node_id left) (en_node_id right) Dependency
         else add_edge er (en_node_id right) (en_node_id left) Dependency)"

text \<open>The pairs \<open>(entries[i], entries[j])\<close> with \<open>i < j\<close>, in the order of the nested loops.\<close>

fun pairs :: "'a list \<Rightarrow> ('a \<times> 'a) list" where
  "pairs [] = []"
| "pairs (x # xs) = map (Pair x) xs @ pairs xs"

definition build_with_scheduler_plans ::
  "crypto_env \<Rightarrow> cell_tx list \<Rightarrow> scheduler_plan list \<Rightarrow> dag_error + cell_dag" where
  "build_with_scheduler_plans E txs plans =
     (if length txs \<noteq> length plans then Err (SchedulerPlanCountMismatch (length txs) (length plans))
      else res_bind (build E txs) (\<lambda>dag.
           res_bind (fold_res (collect_plan E) [] (enumerate 0 (zip txs plans))) (\<lambda>conflicts.
           res_bind (fold_res conflict_edge (dg_edges dag, dg_reverse_edges dag)
                       (concat (map pairs (bt_values conflicts)))) (\<lambda>er.
           res_bind (compute_layers (fst er) (snd er) (dg_node_count dag)) (\<lambda>layers.
           Ok (dag\<lparr>dg_edges := fst er, dg_reverse_edges := snd er,
                   dg_conflict_hash_conflicts := conflicts, dg_layers := layers\<rparr>))))))"

definition upgrade_access ::
  "hash32 \<times> access_mode \<Rightarrow> (hash32, access_mode) btree \<Rightarrow> (hash32, access_mode) btree" where
  "upgrade_access access a_map =
     (let (hash, mode) = access;
          entry = (case bt_get a_map hash of Some m \<Rightarrow> m | None \<Rightarrow> ReadAccess)
      in bt_insert hash (if mode = WriteAccess then WriteAccess else entry) a_map)"

definition can_parallel :: "(hash32 \<times> access_mode) list \<Rightarrow> (hash32 \<times> access_mode) list \<Rightarrow> bool" where
  "can_parallel accesses_a accesses_b =
     (let a_map = fold upgrade_access accesses_a []
      in list_all (\<lambda>(hash, mode_b).
           case bt_get a_map hash of
             Some mode_a \<Rightarrow> \<not> (mode_a = WriteAccess \<or> mode_b = WriteAccess)
           | None \<Rightarrow> True) accesses_b)"

definition successors :: "cell_dag \<Rightarrow> node_id \<Rightarrow> (node_id \<times> dag_edge) list" where
  "successors dag node = bt_list (dg_edges dag) node"

definition predecessors :: "cell_dag \<Rightarrow> node_id \<Rightarrow> node_id list" where
  "predecessors dag node = bt_list (dg_reverse_edges dag) node"

text \<open>The depth-first search of \<open>has_path\<close>; the head of the list is the top of the stack.\<close>

function path_loop :: "edge_map \<Rightarrow> node_id \<Rightarrow> node_id set \<Rightarrow> node_id list \<Rightarrow> bool" where
  "path_loop edges to visited [] = False"
| "path_loop edges to visited (node # stack) =
     (if node = to then True
      else if node \<in> visited then path_loop edges to visited stack
      else path_loop edges to (insert node visited) (rev (map fst (bt_list edges node)) @ stack))"
  by pat_completeness auto

lemma bt_list_not_key: "k \<notin> fst ` set m \<Longrightarrow> bt_list m k = []"
  by (simp add: bt_list_def bt_get_def map_of_eq_None_iff[THEN iffD2])

termination path_loop
proof (relation "measures [\<lambda>(edges, _, visited, _). card (fst ` set edges - visited),
                           \<lambda>(_, _, _, stack). length stack]", goal_cases)
  case (3 edges to visited node stack)
  show ?case
  proof (cases "node \<in> fst ` set edges")
    case True
    with 3 have "fst ` set edges - insert node visited \<subset> fst ` set edges - visited" by blast
    then have "card (fst ` set edges - insert node visited) < card (fst ` set edges - visited)"
      by (intro psubset_card_mono) auto
    then show ?thesis by simp
  next
    case False
    then have "fst ` set edges - insert node visited = fst ` set edges - visited" by blast
    with False show ?thesis by (simp add: bt_list_not_key)
  qed
qed simp_all

definition has_path :: "cell_dag \<Rightarrow> node_id \<Rightarrow> node_id \<Rightarrow> bool" where
  "has_path dag from to = (if from = to then True else path_loop (dg_edges dag) to {} [from])"

section \<open>Edges\<close>

named_theorems dag_simps

definition edge_rel :: "edge_map \<Rightarrow> (node_id \<times> node_id) set" where
  "edge_rel edges = {(u, v). v \<in> fst ` set (bt_list edges u)}"

definition graph_ok :: "nat \<Rightarrow> edge_map \<times> reverse_map \<Rightarrow> bool" where
  "graph_ok n er = (let (edges, reverse_edges) = er in
     (\<forall>u v. u \<in> set (bt_list reverse_edges v) \<longleftrightarrow> (u, v) \<in> edge_rel edges) \<and>
     (\<forall>u. distinct (map fst (bt_list edges u))) \<and> (\<forall>v. distinct (bt_list reverse_edges v)) \<and>
     edge_rel edges \<subseteq> {..<n} \<times> {..<n} \<and> irrefl (edge_rel edges))"

lemma bt_list_empty [dag_simps]: "bt_list [] k = []"
  by (simp add: bt_list_def bt_simps)

lemma bt_list_push [dag_simps]:
  "bt_list (bt_push k v m) k' = (if k' = k then bt_list m k @ [v] else bt_list m k')"
  by (simp add: bt_push_def bt_list_def bt_simps)

lemma edge_rel_empty [dag_simps]: "edge_rel [] = {}"
  by (simp add: edge_rel_def dag_simps)

lemma edge_rel_push [dag_simps]: "edge_rel (bt_push u (v, k) e) = insert (u, v) (edge_rel e)"
proof -
  have "fst ` set (bt_list (bt_push u (v, k) e) a) =
      (if a = u then insert v (fst ` set (bt_list e u)) else fst ` set (bt_list e a))" for a
    by (simp add: dag_simps)
  then have "(a, b) \<in> edge_rel (bt_push u (v, k) e) \<longleftrightarrow> (a, b) \<in> insert (u, v) (edge_rel e)" for a b
    by (simp add: edge_rel_def)
  then show ?thesis by auto
qed

lemma graph_ok_empty [simp]: "graph_ok n ([], [])"
  by (simp add: graph_ok_def dag_simps irrefl_def)

lemma add_edge_eq:
  "add_edge (e, r) u v k =
     (if u = v then Err (InvalidRWSet ''self-dependency for transaction node'')
      else if (u, v) \<in> edge_rel e then Ok (e, r)
      else Ok (bt_push u (v, k) e, bt_push v u r))"
proof -
  have "list_ex (\<lambda>(successor, _). successor = v) (bt_list e u) \<longleftrightarrow> (u, v) \<in> edge_rel e"
    by (force simp: edge_rel_def list_ex_iff)
  then show ?thesis by (simp add: add_edge_def)
qed

lemma graph_ok_push:
  assumes "graph_ok n (e, r)" "(u, v) \<notin> edge_rel e" "u \<noteq> v" "u < n" "v < n"
  shows "graph_ok n (bt_push u (v, k) e, bt_push v u r)"
proof -
  have "v \<notin> fst ` set (bt_list e u)" using assms(2) by (simp add: edge_rel_def)
  moreover have "u \<notin> set (bt_list r v)" using assms(1,2) by (simp add: graph_ok_def)
  ultimately show ?thesis
    using assms unfolding graph_ok_def by (auto simp: dag_simps irrefl_def)
qed

lemma add_edge_ok:
  assumes "add_edge er u v k = Ok er'" "graph_ok n er" "u < n" "v < n"
  shows "graph_ok n er' \<and> edge_rel (fst er') = insert (u, v) (edge_rel (fst er)) \<and> u \<noteq> v"
proof -
  obtain e r where er: "er = (e, r)" by (cases er)
  show ?thesis
    using assms unfolding er by (auto simp: add_edge_eq dag_simps graph_ok_push split: if_splits)
qed

lemma add_edge_total: "u \<noteq> v \<Longrightarrow> \<exists>er'. add_edge er u v k = Ok er'"
  by (cases er) (simp add: add_edge_eq)

lemma graph_okD:
  assumes "graph_ok n (e, r)"
  shows "set (bt_list r v) = {u. (u, v) \<in> edge_rel e}" "distinct (bt_list r v)"
    "distinct (map fst (bt_list e u))" "(a, b) \<in> edge_rel e \<Longrightarrow> a < n \<and> b < n"
  using assms by (auto simp: graph_ok_def)

lemma graph_ok_finite: "graph_ok n (e, r) \<Longrightarrow> finite (edge_rel e)"
  by (rule finite_subset[of _ "{..<n} \<times> {..<n}"]) (auto simp: graph_ok_def)

section \<open>The layered topological sort\<close>

lemma count_list_distinct: "distinct xs \<Longrightarrow> count_list xs v = of_bool (v \<in> set xs)"
  by (induction xs) auto

lemma count_list_0: "count_list xs v = 0 \<longleftrightarrow> v \<notin> set xs"
  by (rule count_list_0_iff)

lemma relax_fold_spec:
  assumes "\<forall>v\<in>set vs. v < length deg" "\<forall>v<length deg. count_list vs v \<le> deg ! v"
  shows "\<exists>deg' nx. fold_res relax (deg, next) vs = Ok (deg', next @ nx) \<and> length deg' = length deg \<and>
           (\<forall>v<length deg. deg' ! v = deg ! v - count_list vs v) \<and>
           distinct nx \<and> set nx = {v \<in> set vs. deg ! v = count_list vs v}"
  using assms
proof (induction vs arbitrary: deg "next")
  case (Cons v vs)
  let ?d = "deg[v := deg ! v - 1]"
  let ?n = "if deg ! v - 1 = 0 then next @ [v] else next"
  have v: "v < length deg" using Cons.prems(1) by simp
  have cv: "count_list vs v < deg ! v" using Cons.prems(2) v by (auto simp: Suc_le_eq)
  have step: "relax (deg, next) v = Ok (?d, ?n)"
    using v cv by (simp add: relax_def Let_def)
  have A: "\<forall>w\<in>set vs. w < length ?d" using Cons.prems(1) by simp
  have B: "\<forall>w<length ?d. count_list vs w \<le> ?d ! w"
  proof (intro allI impI)
    fix w assume w: "w < length ?d"
    show "count_list vs w \<le> ?d ! w"
      using Cons.prems(2)[rule_format, of w] w cv by (cases "w = v") auto
  qed
  obtain deg' nx where IH: "fold_res relax (?d, ?n) vs = Ok (deg', ?n @ nx)" "length deg' = length ?d"
    "\<forall>w<length ?d. deg' ! w = ?d ! w - count_list vs w" "distinct nx"
    "set nx = {w \<in> set vs. ?d ! w = count_list vs w}"
    using Cons.IH[OF A B] by blast
  let ?nx = "if deg ! v - 1 = 0 then v # nx else nx"
  have eq: "?n @ nx = next @ ?nx" by simp
  have run: "fold_res relax (deg, next) (v # vs) = Ok (deg', next @ ?nx)"
    using step IH(1) by simp
  have degs: "\<forall>w<length deg. deg' ! w = deg ! w - count_list (v # vs) w"
  proof (intro allI impI)
    fix w assume w: "w < length deg"
    then show "deg' ! w = deg ! w - count_list (v # vs) w"
      using IH(3) by (cases "w = v") auto
  qed
  have notin: "v \<notin> set vs" if "deg ! v - 1 = 0"
    using that cv by (simp add: count_list_0[symmetric])
  have isin: "v \<in> set vs" if "deg ! v = Suc (count_list vs v)" "deg ! v - 1 \<noteq> 0"
    using that count_list_0[of vs v] by force
  have sets: "set ?nx = {w \<in> set (v # vs). deg ! w = count_list (v # vs) w}"
  proof (rule set_eqI)
    fix w
    show "w \<in> set ?nx \<longleftrightarrow> w \<in> {w \<in> set (v # vs). deg ! w = count_list (v # vs) w}"
    proof (cases "w = v")
      case True
      have "v \<in> set nx \<longleftrightarrow> v \<in> set vs \<and> deg ! v = Suc (count_list vs v)"
        using IH(5) v cv by auto
      moreover have "deg ! v = Suc (count_list vs v)" if "deg ! v - 1 = 0"
        using that cv by simp
      ultimately show ?thesis using True notin isin by auto
    next
      case False
      then show ?thesis using IH(5) by auto
    qed
  qed
  have dist: "distinct ?nx" using IH(4,5) notin by auto
  show ?case using run IH(2) degs sets dist by (intro exI[of _ deg'] exI[of _ ?nx]) simp
qed simp

definition ready :: "nat \<Rightarrow> (node_id \<times> node_id) set \<Rightarrow> node_id set \<Rightarrow> node_id set" where
  "ready n R D = {v. v < n \<and> v \<notin> D \<and> (\<forall>u. (u, v) \<in> R \<longrightarrow> u \<in> D)}"

definition layered :: "nat \<Rightarrow> (node_id \<times> node_id) set \<Rightarrow> node_id list list \<Rightarrow> bool" where
  "layered n R Ls \<longleftrightarrow> (\<forall>i<length Ls. Ls ! i \<noteq> [] \<and> sorted (Ls ! i) \<and> distinct (Ls ! i) \<and>
     set (Ls ! i) = ready n R (set (concat (take i Ls))))"

lemma layered_Nil [simp]: "layered n R []"
  by (simp add: layered_def)

lemma layered_snoc:
  "layered n R (Ls @ [l]) \<longleftrightarrow> layered n R Ls \<and> l \<noteq> [] \<and> sorted l \<and> distinct l \<and>
     set l = ready n R (set (concat Ls))"
  unfolding layered_def by (auto simp: nth_append less_Suc_eq simp del: set_concat)

lemma layered_closed:
  "layered n R Ls \<Longrightarrow> v \<in> set (concat Ls) \<Longrightarrow> v < n \<and> (\<forall>u. (u, v) \<in> R \<longrightarrow> u \<in> set (concat Ls))"
proof (induction Ls rule: rev_induct)
  case (snoc l Ls)
  then have "layered n R Ls" "set l = ready n R (set (concat Ls))" by (auto simp: layered_snoc)
  with snoc show ?case by (auto simp: ready_def)
qed simp

lemma layered_distinct: "layered n R Ls \<Longrightarrow> distinct (concat Ls)"
proof (induction Ls rule: rev_induct)
  case (snoc l Ls)
  then have "set l = ready n R (set (concat Ls))" "distinct l" by (auto simp: layered_snoc)
  with snoc show ?case by (auto simp: layered_snoc ready_def)
qed simp

abbreviation layer_targets :: "edge_map \<Rightarrow> node_id list \<Rightarrow> node_id list" where
  "layer_targets e cur \<equiv> concat (map (\<lambda>node. map fst (bt_list e node)) cur)"

lemma layer_targets_count:
  assumes "graph_ok n (e, r)" "distinct cur"
  shows "count_list (layer_targets e cur) v = card {u \<in> set cur. (u, v) \<in> edge_rel e}"
  using assms(2)
proof (induction cur)
  case (Cons c cur)
  have one: "count_list (map fst (bt_list e c)) v = of_bool ((c, v) \<in> edge_rel e)"
    using count_list_distinct[OF graph_okD(3)[OF assms(1)]] by (simp add: edge_rel_def)
  have split: "{u \<in> set (c # cur). (u, v) \<in> edge_rel e} =
      (if (c, v) \<in> edge_rel e then insert c {u \<in> set cur. (u, v) \<in> edge_rel e}
       else {u \<in> set cur. (u, v) \<in> edge_rel e})" by auto
  from Cons show ?case unfolding split by (simp add: one)
qed simp

lemma layer_targets_set: "set (layer_targets e cur) = {v. \<exists>u\<in>set cur. (u, v) \<in> edge_rel e}"
  by (auto simp: edge_rel_def)

definition kahn_inv ::
  "nat \<Rightarrow> (node_id \<times> node_id) set \<Rightarrow> nat list \<Rightarrow> node_id list \<Rightarrow> node_id list list \<Rightarrow> bool" where
  "kahn_inv n R deg cur Ls \<longleftrightarrow> layered n R Ls \<and> length deg = n \<and>
     (\<forall>v<n. deg ! v = card {u. (u, v) \<in> R \<and> u \<notin> set (concat Ls)}) \<and>
     distinct cur \<and> set cur = ready n R (set (concat Ls))"

lemma kahn_snoc_layer:
  assumes "kahn_inv n R deg cur Ls" "cur \<noteq> []"
  shows "layered n R (Ls @ [sort cur])"
  using assms by (auto simp: kahn_inv_def layered_snoc simp del: set_concat) (metis set_empty set_sort)

lemma kahn_degree:
  assumes g: "graph_ok n (e, r)" and k: "kahn_inv n (edge_rel e) deg cur Ls" and v: "v < n"
  shows "deg ! v = card {u \<in> set cur. (u, v) \<in> edge_rel e}
            + card {u. (u, v) \<in> edge_rel e \<and> u \<notin> set (concat Ls) \<union> set cur}" (is "_ = card ?C + card ?N")
proof -
  have fin: "finite {u. (u, v) \<in> edge_rel e}"
    using graph_ok_finite[OF g] by (rule finite_subset[OF _ finite_imageI[of _ fst], rotated]) force
  have "{u. (u, v) \<in> edge_rel e \<and> u \<notin> set (concat Ls)} = ?C \<union> ?N"
    using k by (auto simp: kahn_inv_def ready_def)
  moreover have "card (?C \<union> ?N) = card ?C + card ?N"
    by (rule card_Un_disjoint) (auto intro: finite_subset[OF _ fin])
  ultimately show ?thesis using k v by (simp add: kahn_inv_def)
qed

lemma kahn_step:
  assumes g: "graph_ok n (e, r)" and k: "kahn_inv n (edge_rel e) deg cur Ls" and ne: "cur \<noteq> []"
  shows "\<exists>deg' nx. relax_layer e deg (sort cur) = Ok (deg', nx) \<and>
           kahn_inv n (edge_rel e) deg' nx (Ls @ [sort cur])"
proof -
  let ?R = "edge_rel e" and ?D = "set (concat Ls)" and ?vs = "layer_targets e (sort cur)"
  have len: "length deg = n" and dc: "distinct (sort cur)" and sc: "set cur = ready n ?R ?D"
    using k by (auto simp: kahn_inv_def)
  have cnt: "count_list ?vs v = card {u \<in> set cur. (u, v) \<in> ?R}" for v
    using layer_targets_count[OF g dc] by simp
  have A: "\<forall>v\<in>set ?vs. v < length deg"
    unfolding layer_targets_set len using graph_okD(4)[OF g] by blast
  have B: "\<forall>v<length deg. count_list ?vs v \<le> deg ! v"
    unfolding cnt len using kahn_degree[OF g k] by simp
  obtain deg' nx where run: "fold_res relax (deg, []) ?vs = Ok (deg', [] @ nx)"
    and len': "length deg' = length deg"
    and deg': "\<forall>v<length deg. deg' ! v = deg ! v - count_list ?vs v" and dn: "distinct nx"
    and sn: "set nx = {v \<in> set ?vs. deg ! v = count_list ?vs v}"
    using relax_fold_spec[OF A B, of "[]"] by blast
  let ?D' = "set (concat (Ls @ [sort cur]))"
  have D': "?D' = ?D \<union> set cur" by simp
  have degs: "deg' ! v = card {u. (u, v) \<in> ?R \<and> u \<notin> ?D'}" if "v < n" for v
    using deg'[rule_format, of v] kahn_degree[OF g k that] that len unfolding cnt D' by simp
  have fin: "finite {u. (u, v) \<in> ?R \<and> u \<notin> ?D'}" for v
    using graph_ok_finite[OF g] by (rule finite_subset[OF _ finite_imageI[of _ fst], rotated]) force
  have "set nx = ready n ?R ?D'"
  proof (rule set_eqI)
    fix v
    have "v \<in> set nx \<longleftrightarrow> (\<exists>u\<in>set cur. (u, v) \<in> ?R) \<and> v < n \<and> {u. (u, v) \<in> ?R \<and> u \<notin> ?D'} = {}"
    proof -
      have "v \<in> set nx \<longleftrightarrow> v \<in> set ?vs \<and> v < n \<and> deg ! v = count_list ?vs v"
        using sn A len by auto
      also have "\<dots> \<longleftrightarrow> v \<in> set ?vs \<and> v < n \<and> card {u. (u, v) \<in> ?R \<and> u \<notin> ?D'} = 0"
        using kahn_degree[OF g k, of v] unfolding cnt D' by auto
      also have "\<dots> \<longleftrightarrow> v \<in> set ?vs \<and> v < n \<and> {u. (u, v) \<in> ?R \<and> u \<notin> ?D'} = {}"
        using fin by (simp only: card_0_eq)
      finally show ?thesis unfolding layer_targets_set by simp
    qed
    moreover have "(\<exists>u\<in>set cur. (u, v) \<in> ?R) \<longleftrightarrow> v \<notin> ?D'"
      if "v < n" "{u. (u, v) \<in> ?R \<and> u \<notin> ?D'} = {}"
    proof -
      have "u \<in> ?D" if "v \<in> ?D" "(u, v) \<in> ?R" for u
        using layered_closed[of n ?R Ls v] that k by (auto simp: kahn_inv_def)
      then show ?thesis using that unfolding D' sc ready_def by blast
    qed
    ultimately show "v \<in> set nx \<longleftrightarrow> v \<in> ready n ?R ?D'" by (auto simp: ready_def)
  qed
  then have "kahn_inv n ?R deg' nx (Ls @ [sort cur])"
    using kahn_snoc_layer[OF k ne] len len' degs dn by (simp add: kahn_inv_def)
  then show ?thesis using run by (simp add: relax_layer_def)
qed

lemma layers_loop_spec:
  assumes "graph_ok n (e, r)" "kahn_inv n (edge_rel e) deg cur Ls"
  shows "\<exists>Ls'. layers_loop e deg cur Ls (length (concat Ls)) = Ok (Ls', length (concat Ls')) \<and>
           layered n (edge_rel e) Ls' \<and> ready n (edge_rel e) (set (concat Ls')) = {}"
  using assms(2)
proof (induction "2 * sum_list deg + (if cur = [] then 0 else 1)" arbitrary: deg cur Ls rule: less_induct)
  case less
  show ?case
  proof (cases "cur = []")
    case True
    with less.prems show ?thesis
      by (intro exI[of _ Ls]) (auto simp: layers_loop.simps kahn_inv_def simp del: set_concat)
  next
    case False
    obtain deg' nx where step: "relax_layer e deg (sort cur) = Ok (deg', nx)"
      and inv': "kahn_inv n (edge_rel e) deg' nx (Ls @ [sort cur])"
      using kahn_step[OF assms(1) less.prems False] by blast
    have "2 * sum_list deg' + (if nx = [] then 0 else 1) < 2 * sum_list deg + (if cur = [] then 0 else 1)"
      using relax_layer_decreases[OF step] relax_layer_mono[OF step] False by auto
    from less.hyps[OF this inv'] show ?thesis
      by (subst layers_loop.simps) (simp add: False step del: set_concat)
  qed
qed

definition layer_of :: "node_id list list \<Rightarrow> node_id \<Rightarrow> nat" where
  "layer_of Ls v = length (takeWhile (\<lambda>l. v \<notin> set l) Ls)"

lemma layer_of_less: "v \<in> set (concat (take i Ls)) \<Longrightarrow> layer_of Ls v < i"
proof (induction Ls arbitrary: i)
  case (Cons l Ls)
  then obtain j where "i = Suc j" by (cases i) auto
  with Cons show ?case by (auto simp: layer_of_def)
qed (simp add: layer_of_def)

lemma layer_of_eq:
  "i < length Ls \<Longrightarrow> v \<in> set (Ls ! i) \<Longrightarrow> v \<notin> set (concat (take i Ls)) \<Longrightarrow> layer_of Ls v = i"
proof (induction Ls arbitrary: i)
  case (Cons l Ls)
  then show ?case by (cases i) (auto simp: layer_of_def)
qed simp

lemma layered_layer_of:
  assumes "layered n R Ls" "i < length Ls" "v \<in> set (Ls ! i)"
  shows "layer_of Ls v = i" "\<And>u. (u, v) \<in> R \<Longrightarrow> layer_of Ls u < i \<and> u \<in> set (concat (take i Ls))"
proof -
  have v: "v \<in> ready n R (set (concat (take i Ls)))"
    using assms unfolding layered_def by blast
  then show "layer_of Ls v = i"
    using layer_of_eq[OF assms(2,3)] unfolding ready_def by blast
  show "layer_of Ls u < i \<and> u \<in> set (concat (take i Ls))" if "(u, v) \<in> R" for u
    using v that layer_of_less[of u i Ls] unfolding ready_def by blast
qed

lemma concat_nth_ex: "v \<in> set (concat Ls) \<Longrightarrow> \<exists>i<length Ls. v \<in> set (Ls ! i)"
  by (auto simp: in_set_conv_nth[of _ Ls])

definition layers_ok :: "nat \<Rightarrow> (node_id \<times> node_id) set \<Rightarrow> node_id list list \<Rightarrow> bool" where
  "layers_ok n R Ls \<longleftrightarrow> layered n R Ls \<and> set (concat Ls) = {..<n}"

lemma layers_ok_forward:
  assumes "layers_ok n R Ls" "(u, v) \<in> R" "v < n"
  shows "layer_of Ls u < layer_of Ls v"
proof -
  obtain i where "i < length Ls" "v \<in> set (Ls ! i)"
    using assms concat_nth_ex[of v Ls] by (auto simp: layers_ok_def)
  with layered_layer_of[of n R Ls i v] assms show ?thesis by (simp add: layers_ok_def)
qed

lemma layers_ok_acyclic:
  assumes "layers_ok n R Ls" "R \<subseteq> {..<n} \<times> {..<n}"
  shows "acyclic R"
proof -
  have "R \<subseteq> measure (layer_of Ls)" using assms layers_ok_forward by fastforce
  then show ?thesis by (meson acyclic_subset wf_acyclic wf_measure)
qed

lemma acyclic_covers:
  assumes "acyclic R" "finite R" "R \<subseteq> {..<n} \<times> {..<n}" "D \<subseteq> {..<n}" "ready n R D = {}"
  shows "D = {..<n}"
proof (rule ccontr)
  assume "D \<noteq> {..<n}"
  then obtain x where x: "x \<in> {..<n} - D" using assms(4) by blast
  have "wf R" using assms(1,2) by (rule finite_acyclic_wf[rotated])
  then obtain z where "z \<in> {..<n} - D" "\<And>y. (y, z) \<in> R \<Longrightarrow> y \<notin> {..<n} - D"
    using x by (rule wfE_min) blast
  then have "z \<in> ready n R D" using assms(3) by (auto simp: ready_def)
  with assms(5) show False by simp
qed

lemma kahn_init:
  assumes "graph_ok n (e, r)"
  defines "deg \<equiv> map (\<lambda>node. length (bt_list r node)) [0..<n]"
  shows "kahn_inv n (edge_rel e) deg (filter (\<lambda>node. deg ! node = 0) [0..<n]) []"
proof -
  have d: "deg ! v = card {u. (u, v) \<in> edge_rel e}" if "v < n" for v
    using that graph_okD(1,2)[OF assms(1), of v] distinct_card[of "bt_list r v"] by (simp add: deg_def)
  have "finite {u. (u, v) \<in> edge_rel e}" for v
    unfolding graph_okD(1)[OF assms(1), symmetric] by simp
  then have z: "v \<in> ready n (edge_rel e) {} \<longleftrightarrow> v < n \<and> deg ! v = 0" for v
    by (cases "v < n") (simp_all add: ready_def d)
  have "set (filter (\<lambda>node. deg ! node = 0) [0..<n]) = ready n (edge_rel e) {}"
    by (rule set_eqI) (auto simp: z)
  moreover have "length deg = n" by (simp add: deg_def)
  ultimately show ?thesis using d by (simp add: kahn_inv_def)
qed

lemma compute_layers_spec:
  assumes "graph_ok n (e, r)"
  shows "res_iff (acyclic (edge_rel e)) (layers_ok n (edge_rel e)) (compute_layers e r n) \<and>
         (\<not> acyclic (edge_rel e) \<longrightarrow> compute_layers e r n = Err CycleDetected)"
proof -
  let ?R = "edge_rel e" and ?deg = "map (\<lambda>node. length (bt_list r node)) [0..<n]"
  let ?cur = "filter (\<lambda>node. ?deg ! node = 0) [0..<n]"
  have R: "?R \<subseteq> {..<n} \<times> {..<n}" using assms by (simp add: graph_ok_def)
  obtain Ls where run: "layers_loop e ?deg ?cur [] 0 = Ok (Ls, length (concat Ls))"
    and L: "layered n ?R Ls" and none: "ready n ?R (set (concat Ls)) = {}"
    using layers_loop_spec[OF assms kahn_init[OF assms]] by (auto simp del: length_concat set_concat)
  have sub: "set (concat Ls) \<subseteq> {..<n}" using layered_closed[OF L] by blast
  have len: "length (concat Ls) = card (set (concat Ls))"
    using layered_distinct[OF L] by (simp only: distinct_card)
  have full: "length (concat Ls) = n \<longleftrightarrow> set (concat Ls) = {..<n}"
    unfolding len using sub card_subset_eq[of "{..<n}" "set (concat Ls)"] by (metis card_lessThan finite_lessThan)
  have "acyclic ?R \<longleftrightarrow> set (concat Ls) = {..<n}"
    using acyclic_covers[OF _ graph_ok_finite[OF assms] R sub none] layers_ok_acyclic[OF _ R, of Ls] L
    unfolding layers_ok_def by blast
  moreover have "compute_layers e r n = (if length (concat Ls) = n then Ok Ls else Err CycleDetected)"
  proof (cases "n = 0")
    case True
    then have "Ls = []" using run by (simp add: layers_loop.simps)
    then show ?thesis using True by (simp add: compute_layers_def)
  next
    case False
    then show ?thesis unfolding compute_layers_def Let_def run by (simp del: length_concat)
  qed
  ultimately show ?thesis using L full by (auto simp: layers_ok_def simp del: length_concat set_concat)
qed

section \<open>Reachability\<close>

lemma visited_reaches:
  assumes "\<forall>x\<in>V. x \<noteq> to \<and> (\<forall>y. (x, y) \<in> R \<longrightarrow> y \<in> V \<or> y \<in> S)"
    and "(x, to) \<in> R\<^sup>*" "x \<in> V"
  shows "\<exists>s\<in>S. (s, to) \<in> R\<^sup>*"
  using assms(2,3) by (induction rule: converse_rtrancl_induct) (use assms(1) in blast)+

lemma path_loop_spec:
  assumes "\<forall>x\<in>V. x \<noteq> to \<and> (\<forall>y. (x, y) \<in> edge_rel e \<longrightarrow> y \<in> V \<or> y \<in> set stack)"
  shows "path_loop e to V stack \<longleftrightarrow> (\<exists>s\<in>set stack. (s, to) \<in> (edge_rel e)\<^sup>*)"
  using assms
proof (induction e to V stack rule: path_loop.induct)
  case (2 e to V node stack)
  let ?R = "edge_rel e"
  consider "node = to" | "node \<noteq> to" "node \<in> V" | "node \<noteq> to" "node \<notin> V" by blast
  then show ?case
  proof cases
    case 2
    have inv': "\<forall>x\<in>V. x \<noteq> to \<and> (\<forall>y. (x, y) \<in> ?R \<longrightarrow> y \<in> V \<or> y \<in> set stack)"
      using "2.prems" 2 by auto
    show ?thesis using "2.IH"(1)[OF 2 inv'] visited_reaches[OF inv' _ 2(2)] 2 by auto
  next
    case 3
    have succ: "set (rev (map fst (bt_list e node))) = {y. (node, y) \<in> ?R}" by (auto simp: edge_rel_def)
    have inv': "\<forall>x\<in>insert node V. x \<noteq> to \<and> (\<forall>y. (x, y) \<in> ?R \<longrightarrow> y \<in> insert node V \<or>
        y \<in> set (rev (map fst (bt_list e node)) @ stack))"
      unfolding set_append succ using "2.prems" 3 by auto
    have "(node, to) \<in> ?R\<^sup>* \<longleftrightarrow> (\<exists>y. (node, y) \<in> ?R \<and> (y, to) \<in> ?R\<^sup>*)"
      using 3(1) by (meson converse_rtranclE converse_rtrancl_into_rtrancl)
    then show ?thesis using "2.IH"(2)[OF 3 inv'] 3 unfolding set_append succ by auto
  qed simp
qed simp

lemma has_path_rtrancl: "has_path dag u v \<longleftrightarrow> (u, v) \<in> (edge_rel (dg_edges dag))\<^sup>*"
  by (simp add: has_path_def path_loop_spec del: path_loop.simps)

section \<open>What the edges say\<close>

definition spent_points :: "cell_tx \<Rightarrow> outpoint list" where
  "spent_points tx = map ci_previous_output (tx_inputs tx)"

definition referenced_points :: "cell_tx \<Rightarrow> outpoint set" where
  "referenced_points tx = set (spent_points tx) \<union> cd_out_point ` set (tx_cell_deps tx)"

definition output_points :: "crypto_env \<Rightarrow> cell_tx \<Rightarrow> outpoint set" where
  "output_points E tx = (\<lambda>i. OutPoint (tx_id E tx) (as_u32 i)) ` {..<length (tx_outputs tx)}"

text \<open>\<open>(u, v)\<close>: transaction \<open>v\<close> consumes or reads an output of transaction \<open>u\<close>.\<close>

definition depends :: "crypto_env \<Rightarrow> cell_tx list \<Rightarrow> (node_id \<times> node_id) set" where
  "depends E txs = {(u, v). u < length txs \<and> v < length txs \<and>
     output_points E (txs ! u) \<inter> referenced_points (txs ! v) \<noteq> {}}"

definition registered :: "crypto_env \<Rightarrow> cell_tx list \<Rightarrow> (hash32, node_id) btree \<times> (outpoint, node_id) btree \<Rightarrow> bool" where
  "registered E txs st = (let (txids, producers) = st in
     (\<forall>h u. bt_get txids h = Some u \<longleftrightarrow> u < length txs \<and> tx_id E (txs ! u) = h) \<and>
     (\<forall>p u. bt_get producers p = Some u \<longleftrightarrow> u < length txs \<and> p \<in> output_points E (txs ! u)))"

lemma register_outputs:
  "bt_get (fold (\<lambda>(idx, _) ps. bt_insert (OutPoint h (as_u32 idx)) node ps) (enumerate 0 outs) pm) p =
     (if p \<in> (\<lambda>i. OutPoint h (as_u32 i)) ` {..<length outs} then Some node else bt_get pm p)"
  by (induction outs rule: rev_induct) (auto simp: enumerate_append_eq bt_simps lessThan_Suc)

lemma output_points_id: "p \<in> output_points E tx \<Longrightarrow> \<exists>i. p = OutPoint (tx_id E tx) i"
  by (auto simp: output_points_def)

lemma register_step:
  assumes "registered E txs st" "distinct (map (tx_id E) txs)"
  shows "res_iff (tx_id E tx \<notin> set (map (tx_id E) txs)) (registered E (txs @ [tx]))
           (register_producer E st (length txs, tx))"
proof -
  obtain tm pm where st: "st = (tm, pm)" by (cases st)
  have tm: "bt_get tm h = Some u \<longleftrightarrow> u < length txs \<and> tx_id E (txs ! u) = h"
    and pm: "bt_get pm p = Some u \<longleftrightarrow> u < length txs \<and> p \<in> output_points E (txs ! u)" for h p u
    using assms(1) by (simp_all add: st registered_def)
  let ?pm = "fold (\<lambda>(idx, _) ps. bt_insert (OutPoint (tx_id E tx) (as_u32 idx)) (length txs) ps)
    (enumerate 0 (tx_outputs tx)) pm"
  show ?thesis
  proof (cases "bt_get tm (tx_id E tx)")
    case None
    then have new: "tx_id E tx \<noteq> tx_id E (txs ! u)" if "u < length txs" for u
      using tm[of "tx_id E tx" u] that by auto
    have old: "p \<notin> output_points E (txs ! u)" if "u < length txs" "p \<in> output_points E tx" for p u
      using new[OF that(1)] output_points_id[OF that(2)] output_points_id[of p E "txs ! u"] by auto
    have "registered E (txs @ [tx]) (bt_insert (tx_id E tx) (length txs) tm, ?pm)"
      unfolding registered_def Let_def split_conv register_outputs output_points_def[of E tx, symmetric]
      using old new new[THEN not_sym] by (auto simp: bt_simps tm pm nth_append less_Suc_eq)
    moreover have "tx_id E tx \<notin> set (map (tx_id E) txs)"
      using new by (auto simp: in_set_conv_nth dest: new)
    ultimately show ?thesis using None by (simp add: st register_producer_def Let_def)
  next
    case (Some u)
    then have "tx_id E tx \<in> set (map (tx_id E) txs)"
      using tm[of "tx_id E tx" u] by (metis length_map nth_map nth_mem)
    then show ?thesis using Some by (simp add: st register_producer_def Let_def)
  qed
qed

lemma register_spec:
  "res_iff (distinct (map (tx_id E) txs)) (registered E txs)
     (fold_res (register_producer E) ([], []) (enumerate 0 txs))"
proof (induction txs rule: rev_induct)
  case Nil
  then show ?case by (simp add: registered_def bt_simps)
next
  case (snoc tx txs)
  have "res_iff (distinct (map (tx_id E) txs) \<and> tx_id E tx \<notin> set (map (tx_id E) txs)) (registered E (txs @ [tx]))
      (res_bind (fold_res (register_producer E) ([], []) (enumerate 0 txs))
         (\<lambda>st. register_producer E st (length txs, tx)))"
    by (rule res_iff_bind[OF snoc.IH]) (rule register_step)
  then show ?case by (simp add: fold_res_enumerate_snoc conj_commute)
qed

definition linked ::
  "nat \<Rightarrow> (node_id \<times> node_id) set \<Rightarrow> outpoint set \<Rightarrow> (edge_map \<times> reverse_map) \<times> (outpoint, node_id) btree \<Rightarrow> bool" where
  "linked n R P st = (let (er, consumers) = st in
     graph_ok n er \<and> edge_rel (fst er) = R \<and> dom (bt_get consumers) = P)"

lemma link_point:
  assumes "graph_ok n er" "v < n" "\<And>p u. bt_get producers p = Some u \<Longrightarrow> u < n"
  shows "res_iff (bt_get producers p \<noteq> Some v)
           (\<lambda>er'. graph_ok n er' \<and> edge_rel (fst er') = edge_rel (fst er) \<union> {(u, v) |u. bt_get producers p = Some u})
           (case bt_get producers p of Some u \<Rightarrow> add_edge er u v k | None \<Rightarrow> Ok er)"
proof (cases "bt_get producers p")
  case (Some u)
  show ?thesis
  proof (cases "u = v")
    case True
    with Some show ?thesis by (cases er) (simp add: add_edge_eq)
  next
    case False
    then obtain er' where "add_edge er u v k = Ok er'" using add_edge_total by blast
    with add_edge_ok[OF this assms(1) assms(3)[OF Some] assms(2)] Some show ?thesis by auto
  qed
qed (use assms in simp)

abbreviation in_range :: "nat \<Rightarrow> (outpoint, node_id) btree \<Rightarrow> bool" where
  "in_range n producers \<equiv> \<forall>p u. bt_get producers p = Some u \<longrightarrow> u < n"

abbreviation edges_from :: "(outpoint, node_id) btree \<Rightarrow> outpoint set \<Rightarrow> node_id \<Rightarrow> (node_id \<times> node_id) set" where
  "edges_from producers P v \<equiv> {(u, v) |u. \<exists>p\<in>P. bt_get producers p = Some u}"

lemma link_input_step:
  assumes "linked n R P st" "v < n" "in_range n producers"
  shows "res_iff (bt_get producers (ci_previous_output i) \<noteq> Some v \<and> ci_previous_output i \<notin> P)
           (linked n (R \<union> edges_from producers {ci_previous_output i} v) (insert (ci_previous_output i) P))
           (link_input producers v st i)"
proof -
  obtain er cm where st: "st = (er, cm)" by (cases st)
  have g: "graph_ok n er" "edge_rel (fst er) = R" "dom (bt_get cm) = P"
    using assms(1) by (simp_all add: st linked_def)
  show ?thesis
    unfolding link_input_def st Let_def split_conv
  proof (rule res_iff_bind[OF link_point[OF g(1) assms(2)]])
    fix er' assume "graph_ok n er' \<and> edge_rel (fst er') =
      edge_rel (fst er) \<union> {(u, v) |u. bt_get producers (ci_previous_output i) = Some u}"
    then show "res_iff (ci_previous_output i \<notin> P)
        (linked n (R \<union> edges_from producers {ci_previous_output i} v) (insert (ci_previous_output i) P))
        (case bt_get cm (ci_previous_output i) of
           Some first_consumer \<Rightarrow> Err (DoubleSpend (ci_previous_output i) first_consumer v)
         | None \<Rightarrow> Ok (er', bt_insert (ci_previous_output i) v cm))"
      using g(2,3) by (cases "bt_get cm (ci_previous_output i)") (auto simp: linked_def bt_simps)
  qed (use assms(3) in auto)
qed

lemma link_inputs:
  assumes "linked n R P st" "v < n" "in_range n producers"
  defines "pts is \<equiv> map ci_previous_output is"
  shows "res_iff ((\<forall>p\<in>set (pts is). bt_get producers p \<noteq> Some v) \<and> distinct (pts is) \<and> set (pts is) \<inter> P = {})
           (linked n (R \<union> edges_from producers (set (pts is)) v) (P \<union> set (pts is)))
           (fold_res (link_input producers v) st is)"
  using assms(1)
proof (induction "is" arbitrary: R P st)
  case (Cons i "is")
  let ?p = "ci_previous_output i"
  have "res_iff ((bt_get producers ?p \<noteq> Some v \<and> ?p \<notin> P) \<and>
      ((\<forall>p\<in>set (pts is). bt_get producers p \<noteq> Some v) \<and> distinct (pts is) \<and> set (pts is) \<inter> insert ?p P = {}))
      (linked n ((R \<union> edges_from producers {?p} v) \<union> edges_from producers (set (pts is)) v)
         (insert ?p P \<union> set (pts is)))
      (fold_res (link_input producers v) st (i # is))"
    unfolding fold_res.simps
    by (rule res_iff_bind[OF link_input_step[OF Cons.prems assms(2,3)]]) (rule Cons.IH)
  then show ?case
  proof (rule res_iff_cong)
    fix x assume "linked n ((R \<union> edges_from producers {?p} v) \<union> edges_from producers (set (pts is)) v)
         (insert ?p P \<union> set (pts is)) x"
    moreover have "(R \<union> edges_from producers {?p} v) \<union> edges_from producers (set (pts is)) v =
       R \<union> edges_from producers (set (pts (i # is))) v" by (auto simp: pts_def)
    moreover have "insert ?p P \<union> set (pts is) = P \<union> set (pts (i # is))" by (auto simp: pts_def)
    ultimately show "linked n (R \<union> edges_from producers (set (pts (i # is))) v) (P \<union> set (pts (i # is))) x"
      by simp
  qed (auto simp: pts_def)
qed (simp add: pts_def linked_def)

lemma link_deps:
  assumes "graph_ok n er" "edge_rel (fst er) = R" "v < n" "in_range n producers"
  defines "pts ds \<equiv> cd_out_point ` set ds"
  shows "res_iff (\<forall>p\<in>pts ds. bt_get producers p \<noteq> Some v)
           (\<lambda>er'. graph_ok n er' \<and> edge_rel (fst er') = R \<union> edges_from producers (pts ds) v)
           (fold_res (link_dep producers v) er ds)"
  using assms(1,2)
proof (induction ds arbitrary: R er)
  case (Cons d ds)
  let ?p = "cd_out_point d"
  have step: "res_iff (bt_get producers ?p \<noteq> Some v)
      (\<lambda>er'. graph_ok n er' \<and> edge_rel (fst er') = R \<union> {(u, v) |u. bt_get producers ?p = Some u})
      (link_dep producers v er d)"
    unfolding link_dep_def Cons.prems(2)[symmetric]
    by (rule link_point[OF Cons.prems(1) assms(3)]) (use assms(4) in blast)
  have "res_iff (bt_get producers ?p \<noteq> Some v \<and> (\<forall>p\<in>pts ds. bt_get producers p \<noteq> Some v))
      (\<lambda>er'. graph_ok n er' \<and> edge_rel (fst er') =
         (R \<union> {(u, v) |u. bt_get producers ?p = Some u}) \<union> edges_from producers (pts ds) v)
      (fold_res (link_dep producers v) er (d # ds))"
    unfolding fold_res.simps by (rule res_iff_bind[OF step]) (rule Cons.IH; blast)
  then show ?case
    by (rule res_iff_cong) (auto simp: pts_def)
qed (simp add: pts_def)

lemma link_transaction_step:
  assumes "linked n R P st" "v < n" "in_range n producers"
  shows "res_iff (distinct (spent_points tx) \<and> set (spent_points tx) \<inter> P = {} \<and>
             (\<forall>p\<in>referenced_points tx. bt_get producers p \<noteq> Some v))
           (linked n (R \<union> edges_from producers (referenced_points tx) v) (P \<union> set (spent_points tx)))
           (link_transaction producers st (v, tx))"
proof -
  let ?I = "set (spent_points tx)" and ?D = "cd_out_point ` set (tx_cell_deps tx)"
  have "res_iff (((\<forall>p\<in>?I. bt_get producers p \<noteq> Some v) \<and> distinct (spent_points tx) \<and> ?I \<inter> P = {}) \<and>
        (\<forall>p\<in>?D. bt_get producers p \<noteq> Some v))
      (linked n (R \<union> edges_from producers ?I v \<union> edges_from producers ?D v) (P \<union> ?I))
      (link_transaction producers st (v, tx))"
    unfolding link_transaction_def Let_def split_conv
  proof (rule res_iff_bind[OF link_inputs[OF assms, of "tx_inputs tx", folded spent_points_def]])
    fix x assume x: "linked n (R \<union> edges_from producers ?I v) (P \<union> ?I) x"
    obtain er cm where [simp]: "x = (er, cm)" by (cases x)
    have "res_iff ((\<forall>p\<in>?D. bt_get producers p \<noteq> Some v) \<and> True)
        (linked n (R \<union> edges_from producers ?I v \<union> edges_from producers ?D v) (P \<union> ?I))
        (res_bind (fold_res (link_dep producers v) er (tx_cell_deps tx)) (\<lambda>er. Ok (er, cm)))"
      by (rule res_iff_bind[OF link_deps[OF _ _ assms(2,3)]]) (use x in \<open>auto simp: linked_def\<close>)
    then show "res_iff (\<forall>p\<in>?D. bt_get producers p \<noteq> Some v)
        (linked n (R \<union> edges_from producers ?I v \<union> edges_from producers ?D v) (P \<union> ?I))
        (case x of (er, consumers) \<Rightarrow>
           res_bind (fold_res (link_dep producers v) er (tx_cell_deps tx)) (\<lambda>er. Ok (er, consumers)))"
      by simp
  qed
  moreover have "R \<union> edges_from producers ?I v \<union> edges_from producers ?D v =
      R \<union> edges_from producers (referenced_points tx) v" by (auto simp: referenced_points_def)
  ultimately show ?thesis
    by (elim res_iff_cong) (auto simp: referenced_points_def)
qed

definition no_double_spend :: "cell_tx list \<Rightarrow> bool" where
  "no_double_spend txs = distinct (concat (map spent_points txs))"

definition links :: "(outpoint, node_id) btree \<Rightarrow> cell_tx list \<Rightarrow> (node_id \<times> node_id) set" where
  "links producers txs =
     {(u, v). v < length txs \<and> (\<exists>p\<in>referenced_points (txs ! v). bt_get producers p = Some u)}"

lemma links_snoc:
  "links producers (txs @ [tx]) =
     links producers txs \<union> edges_from producers (referenced_points tx) (length txs)"
  unfolding links_def by (auto simp: nth_append less_Suc_eq)

lemma link_transactions:
  assumes "in_range n producers" "length txs \<le> n"
  shows "res_iff (no_double_spend txs \<and> irrefl (links producers txs))
           (linked n (links producers txs) (set (concat (map spent_points txs))))
           (fold_res (link_transaction producers) (([], []), []) (enumerate 0 txs))"
  using assms(2)
proof (induction txs rule: rev_induct)
  case Nil
  then show ?case by (simp add: linked_def links_def no_double_spend_def irrefl_def dag_simps bt_simps)
next
  case (snoc tx txs)
  let ?P = "set (concat (map spent_points txs))" and ?v = "length txs"
  have len: "length txs \<le> n" "?v < n" using snoc.prems by auto
  have "res_iff ((no_double_spend txs \<and> irrefl (links producers txs)) \<and>
        (distinct (spent_points tx) \<and> set (spent_points tx) \<inter> ?P = {} \<and>
         (\<forall>p\<in>referenced_points tx. bt_get producers p \<noteq> Some ?v)))
      (linked n (links producers txs \<union> edges_from producers (referenced_points tx) ?v)
         (?P \<union> set (spent_points tx)))
      (fold_res (link_transaction producers) (([], []), []) (enumerate 0 (txs @ [tx])))"
    unfolding fold_res_enumerate_snoc
    by (rule res_iff_bind[OF snoc.IH[OF len(1)]]) (rule link_transaction_step[OF _ len(2) assms(1)])
  then show ?case
    unfolding links_snoc by (rule res_iff_cong) (auto simp: no_double_spend_def irrefl_def)
qed

lemma links_registered:
  "registered E txs (txids, producers) \<Longrightarrow> links producers txs = depends E txs"
  by (auto simp: registered_def links_def depends_def)

lemma acyclic_irrefl': "acyclic R \<Longrightarrow> irrefl R"
  by (auto simp: acyclic_def irrefl_def)

definition dag_for :: "nat \<Rightarrow> (node_id \<times> node_id) set \<Rightarrow> cell_dag \<Rightarrow> bool" where
  "dag_for n R dag \<longleftrightarrow> dg_node_count dag = n \<and> graph_ok n (dg_edges dag, dg_reverse_edges dag) \<and>
     edge_rel (dg_edges dag) = R \<and> layers_ok n R (dg_layers dag)"

lemma build_spec:
  "res_iff (distinct (map (tx_id E) txs) \<and> no_double_spend txs \<and> acyclic (depends E txs))
     (dag_for (length txs) (depends E txs)) (build E txs)"
proof -
  let ?n = "length txs" and ?R = "depends E txs"
  have "res_iff (distinct (map (tx_id E) txs) \<and> ((no_double_spend txs \<and> irrefl ?R) \<and> (acyclic ?R \<and> True)))
     (dag_for ?n ?R) (build E txs)"
    unfolding build_def
  proof (rule res_iff_bind[OF register_spec], goal_cases)
    case (1 x)
    obtain tm pm where x: "x = (tm, pm)" by (cases x)
    have range: "in_range ?n pm" and R: "links pm txs = ?R"
      using 1 links_registered[of E txs tm pm] by (auto simp: x registered_def)
    show ?case
      unfolding x split_conv
    proof (rule res_iff_bind[OF link_transactions[OF range order_refl, unfolded R]], goal_cases)
      case (1 y)
      obtain er cm where y: "y = (er, cm)" by (cases y)
      have er: "graph_ok ?n (fst er, snd er)" "edge_rel (fst er) = ?R"
        using 1 by (simp_all add: y linked_def)
      show ?case
        unfolding y split_conv
        by (rule res_iff_bind[OF conjunct1[OF compute_layers_spec[OF er(1)], unfolded er(2)]])
           (use er in \<open>simp add: dag_for_def\<close>)
    qed
  qed
  then show ?thesis
    by (rule res_iff_cong) (auto dest: acyclic_irrefl')
qed

section \<open>Conflict domains\<close>

definition conflicting :: "(hash32 \<times> access_mode) list \<Rightarrow> (hash32 \<times> access_mode) list \<Rightarrow> bool" where
  "conflicting a b \<longleftrightarrow>
     (\<exists>h m m'. (h, m) \<in> set a \<and> (h, m') \<in> set b \<and> (m = WriteAccess \<or> m' = WriteAccess))"

lemma upgrade_access_get:
  "bt_get (fold upgrade_access accs []) h =
     (if (h, WriteAccess) \<in> set accs then Some WriteAccess
      else if h \<in> fst ` set accs then Some ReadAccess else None)"
proof (induction accs rule: rev_induct)
  case (snoc a accs)
  obtain k m where a: "a = (k, m)" by (cases a)
  show ?case
    by (cases m) (use snoc in \<open>auto simp: a upgrade_access_def Let_def bt_simps\<close>)
qed (simp add: bt_simps)

lemma not_write: "m \<noteq> WriteAccess \<longleftrightarrow> m = ReadAccess"
  by (cases m) simp_all

lemma can_parallel_iff: "can_parallel a b \<longleftrightarrow> \<not> conflicting a b"
proof -
  have "(case bt_get (fold upgrade_access a []) h of
      Some mode_a \<Rightarrow> \<not> (mode_a = WriteAccess \<or> m' = WriteAccess) | None \<Rightarrow> True) \<longleftrightarrow>
      \<not> (\<exists>m. (h, m) \<in> set a \<and> (m = WriteAccess \<or> m' = WriteAccess))" for h m'
    by (cases "h \<in> fst ` set a"; cases m') (force simp: upgrade_access_get, force simp: upgrade_access_get,
      (auto simp: upgrade_access_get rev_image_eqI)[2])
  then show ?thesis
    unfolding can_parallel_def Let_def list_all_iff conflicting_def by blast
qed

definition plan_wf :: "scheduler_plan \<Rightarrow> bool" where
  "plan_wf plan = distinct (map fst (sp_accesses plan))"

lemma plan_step_wf: "plan_step m a = Ok m' \<Longrightarrow> bt_wf m \<Longrightarrow> bt_wf m'"
  by (auto simp: plan_step_def Let_def split: if_splits option.splits prod.splits)

lemma scheduler_plan_new_wf:
  assumes "scheduler_plan_new E tx accs = Ok plan"
  shows "plan_wf plan"
proof -
  obtain m where m: "fold_res plan_step [] accs = Ok m" and plan: "sp_accesses plan = m"
    using assms by (auto simp: scheduler_plan_new_def res_simps)
  have "bt_wf m" by (rule fold_res_invariant[OF m]) (auto intro: plan_step_wf)
  then show ?thesis by (simp add: plan_wf_def plan bt_wf_distinct)
qed

definition collected :: "scheduler_plan list \<Rightarrow> (hash32, conflict_entry list) btree \<Rightarrow> bool" where
  "collected plans cm \<longleftrightarrow> bt_wf cm \<and>
     (\<forall>h. sorted_wrt (<) (map en_node_id (bt_list cm h)) \<and>
       set (bt_list cm h) = {\<lparr>en_node_id = v, en_mode = m\<rparr> |v m. v < length plans \<and> (h, m) \<in> set (sp_accesses (plans ! v))})"

lemma collect_accesses:
  "distinct (map fst accs) \<Longrightarrow>
   bt_list (fold (\<lambda>(h, m). bt_push h \<lparr>en_node_id = v, en_mode = m\<rparr>) accs cm) h' =
     bt_list cm h' @ (case map_of accs h' of Some m \<Rightarrow> [\<lparr>en_node_id = v, en_mode = m\<rparr>] | None \<Rightarrow> [])"
proof (induction accs arbitrary: cm)
  case (Cons a accs)
  obtain h m where a: "a = (h, m)" by (cases a)
  have "map_of accs h = None" using Cons.prems by (simp add: a map_of_eq_None_iff)
  with Cons show ?case by (auto simp: a dag_simps split: option.splits)
qed simp

lemma collect_wf: "bt_wf cm \<Longrightarrow> bt_wf (fold (\<lambda>(h, m). bt_push h \<lparr>en_node_id = v, en_mode = m\<rparr>) accs cm)"
  by (induction accs arbitrary: cm) (simp_all add: bt_push_def bt_wf_insert split_beta)

lemma collect_step:
  assumes "collected plans cm" "plan_wf plan"
  shows "res_iff (sp_txid plan = tx_id E tx) (collected (plans @ [plan]))
           (collect_plan E cm (length plans, tx, plan))"
proof -
  let ?v = "length plans"
  let ?cm = "fold (\<lambda>(h, m). bt_push h \<lparr>en_node_id = ?v, en_mode = m\<rparr>) (sp_accesses plan) cm"
  have w: "distinct (map fst (sp_accesses plan))" using assms(2) by (simp add: plan_wf_def)
  have l: "bt_list ?cm h = bt_list cm h @
      (case map_of (sp_accesses plan) h of Some m \<Rightarrow> [\<lparr>en_node_id = ?v, en_mode = m\<rparr>] | None \<Rightarrow> [])" for h
    by (rule collect_accesses[OF w])
  have m: "map_of (sp_accesses plan) h = Some m \<longleftrightarrow> (h, m) \<in> set (sp_accesses plan)" for h m
    using w by (rule map_of_eq_Some_iff)
  have less: "en_node_id x < ?v" if "x \<in> set (bt_list cm h)" for x h
    using that assms(1) by (auto simp: collected_def)
  have "collected (plans @ [plan]) ?cm"
    unfolding collected_def
  proof (intro conjI allI)
    show "bt_wf ?cm" using assms(1) by (simp add: collected_def collect_wf)
    fix h
    show "sorted_wrt (<) (map en_node_id (bt_list ?cm h))"
      using assms(1) less unfolding l by (auto simp: collected_def sorted_wrt_append split: option.splits)
    have "set (case map_of (sp_accesses plan) h of Some m \<Rightarrow> [\<lparr>en_node_id = ?v, en_mode = m\<rparr>] | None \<Rightarrow> []) =
        {\<lparr>en_node_id = ?v, en_mode = m\<rparr> |m. (h, m) \<in> set (sp_accesses plan)}"
      by (auto simp: m[symmetric] split: option.splits)
    moreover have "set (bt_list cm h) = {\<lparr>en_node_id = v, en_mode = m\<rparr> |v m. v < ?v \<and> (h, m) \<in> set (sp_accesses (plans ! v))}"
      using assms(1) by (simp add: collected_def)
    ultimately show "set (bt_list ?cm h) = {\<lparr>en_node_id = v, en_mode = m\<rparr> |v m.
        v < length (plans @ [plan]) \<and> (h, m) \<in> set (sp_accesses ((plans @ [plan]) ! v))}"
      unfolding l set_append by (auto simp: nth_append less_Suc_eq)
  qed
  then show ?thesis by (simp add: collect_plan_def Let_def)
qed

lemma collect_spec:
  assumes "\<forall>plan\<in>set (map snd ps). plan_wf plan"
  shows "res_iff (map (sp_txid \<circ> snd) ps = map (tx_id E \<circ> fst) ps) (collected (map snd ps))
           (fold_res (collect_plan E) [] (enumerate 0 ps))"
  using assms
proof (induction ps rule: rev_induct)
  case Nil
  then show ?case by (simp add: collected_def dag_simps)
next
  case (snoc p ps)
  obtain tx plan where p: "p = (tx, plan)" by (cases p)
  have prems: "\<forall>plan\<in>set (map snd ps). plan_wf plan" "plan_wf plan"
    using snoc.prems by (simp_all add: p)
  have step: "res_iff (sp_txid plan = tx_id E tx) (collected (map snd ps @ [plan]))
      (collect_plan E cm (length ps, tx, plan))" if "collected (map snd ps) cm" for cm
    using collect_step[OF that prems(2), of E tx] by simp
  have "res_iff (map (sp_txid \<circ> snd) ps = map (tx_id E \<circ> fst) ps \<and> sp_txid plan = tx_id E tx)
      (collected (map snd ps @ [plan])) (fold_res (collect_plan E) [] (enumerate 0 (ps @ [p])))"
    unfolding fold_res_enumerate_snoc p by (rule res_iff_bind[OF snoc.IH[OF prems(1)]]) (rule step)
  then show ?case by (simp add: p)
qed

lemma pairs_set: "(a, b) \<in> set (pairs xs) \<Longrightarrow> a \<in> set xs \<and> b \<in> set xs"
  by (induction xs) auto

lemma pairs_sorted:
  "sorted_wrt (<) (map f xs) \<Longrightarrow>
   (a, b) \<in> set (pairs xs) \<longleftrightarrow> a \<in> set xs \<and> b \<in> set xs \<and> f a < (f b :: nat)"
proof (induction xs)
  case (Cons x xs)
  then have less: "\<forall>y\<in>set xs. f x < f y" by simp
  have "(a, b) \<in> set (pairs xs) \<longleftrightarrow> a \<in> set xs \<and> b \<in> set xs \<and> f a < f b"
    using Cons by simp
  with less show ?case using order_less_asym by fastforce
qed simp

lemma conflict_edges:
  assumes "graph_ok n er" "\<forall>(a, b)\<in>set ps. en_node_id a < en_node_id b \<and> en_node_id b < n"
  shows "\<exists>er'. fold_res conflict_edge er ps = Ok er' \<and> graph_ok n er' \<and>
     edge_rel (fst er') = edge_rel (fst er) \<union>
       {(en_node_id a, en_node_id b) |a b. (a, b) \<in> set ps \<and> (en_mode a = WriteAccess \<or> en_mode b = WriteAccess)}"
  using assms
proof (induction ps arbitrary: er)
  case (Cons p ps)
  obtain a b where p: "p = (a, b)" by (cases p)
  have lt: "en_node_id a < en_node_id b" "en_node_id b < n" using Cons.prems(2) by (auto simp: p)
  let ?w = "en_mode a = WriteAccess \<or> en_mode b = WriteAccess"
  obtain er1 where er1: "conflict_edge er p = Ok er1" "graph_ok n er1"
    "edge_rel (fst er1) = edge_rel (fst er) \<union> (if ?w then {(en_node_id a, en_node_id b)} else {})"
  proof (cases ?w)
    case True
    obtain er' where er': "add_edge er (en_node_id a) (en_node_id b) Dependency = Ok er'"
      using add_edge_total[OF less_imp_neq[OF lt(1)]] by blast
    from add_edge_ok[OF this Cons.prems(1)] lt
    have "graph_ok n er'" "edge_rel (fst er') = insert (en_node_id a, en_node_id b) (edge_rel (fst er))" by auto
    then show thesis using that[of er'] True er' lt by (auto simp: p conflict_edge_def)
  next
    case False
    then show thesis using that[of er] Cons.prems(1) by (auto simp: p conflict_edge_def not_write)
  qed
  have rest: "\<forall>(a, b)\<in>set ps. en_node_id a < en_node_id b \<and> en_node_id b < n" using Cons.prems(2) by auto
  from Cons.IH[OF er1(2) rest] obtain er2 where
    "fold_res conflict_edge er1 ps = Ok er2" "graph_ok n er2" "edge_rel (fst er2) = edge_rel (fst er1) \<union>
       {(en_node_id a, en_node_id b) |a b. (a, b) \<in> set ps \<and> (en_mode a = WriteAccess \<or> en_mode b = WriteAccess)}"
    by blast
  then show ?case using er1(1) by (intro exI[of _ er2]) (auto simp: er1(3) p split: if_splits)
qed simp

definition plan_conflicts :: "scheduler_plan list \<Rightarrow> (node_id \<times> node_id) set" where
  "plan_conflicts plans = {(u, v). u < v \<and> v < length plans \<and>
     conflicting (sp_accesses (plans ! u)) (sp_accesses (plans ! v))}"

lemma conflict_pairs:
  assumes "collected plans cm"
  shows "(a, b) \<in> set (concat (map pairs (bt_values cm))) \<longleftrightarrow>
    en_node_id a < en_node_id b \<and> en_node_id b < length plans \<and>
    (\<exists>h. (h, en_mode a) \<in> set (sp_accesses (plans ! en_node_id a)) \<and>
         (h, en_mode b) \<in> set (sp_accesses (plans ! en_node_id b)))"
proof -
  have w: "bt_wf cm" and s: "sorted_wrt (<) (map en_node_id (bt_list cm h))" for h
    using assms by (simp_all add: collected_def)
  have mem: "x \<in> set (bt_list cm h) \<longleftrightarrow>
      en_node_id x < length plans \<and> (h, en_mode x) \<in> set (sp_accesses (plans ! en_node_id x))" for x h
    using assms unfolding collected_def by (cases x) auto
  have "(a, b) \<in> set (concat (map pairs (bt_values cm))) \<longleftrightarrow> (\<exists>h xs. bt_get cm h = Some xs \<and> (a, b) \<in> set (pairs xs))"
    by (force simp: bt_values_def bt_get_eq_Some[OF w])
  also have "\<dots> \<longleftrightarrow> (\<exists>h. (a, b) \<in> set (pairs (bt_list cm h)))"
  proof -
    have "(\<exists>xs. bt_get cm h = Some xs \<and> (a, b) \<in> set (pairs xs)) \<longleftrightarrow> (a, b) \<in> set (pairs (bt_list cm h))" for h
      by (cases "bt_get cm h") (simp_all add: bt_list_def)
    then show ?thesis by simp
  qed
  also have "\<dots> \<longleftrightarrow> (\<exists>h. a \<in> set (bt_list cm h) \<and> b \<in> set (bt_list cm h) \<and> en_node_id a < en_node_id b)"
    by (simp only: pairs_sorted[OF s])
  finally show ?thesis unfolding mem by auto
qed

lemma plan_conflicts_eq:
  assumes "collected plans cm"
  shows "{(en_node_id a, en_node_id b) |a b. (a, b) \<in> set (concat (map pairs (bt_values cm))) \<and>
      (en_mode a = WriteAccess \<or> en_mode b = WriteAccess)} = plan_conflicts plans" (is "?L = ?R")
proof
  show "?L \<subseteq> ?R"
    unfolding conflict_pairs[OF assms] plan_conflicts_def conflicting_def by blast
  show "?R \<subseteq> ?L"
  proof
    fix x assume "x \<in> ?R"
    then obtain u v h m m' where x: "x = (u, v)" "u < v" "v < length plans"
      "(h, m) \<in> set (sp_accesses (plans ! u))" "(h, m') \<in> set (sp_accesses (plans ! v))"
      "m = WriteAccess \<or> m' = WriteAccess"
      by (auto simp: plan_conflicts_def conflicting_def)
    show "x \<in> ?L"
      unfolding conflict_pairs[OF assms] mem_Collect_eq
      by (intro exI[of _ "\<lparr>en_node_id = u, en_mode = m\<rparr>"] exI[of _ "\<lparr>en_node_id = v, en_mode = m'\<rparr>"])
         (use x in auto)
  qed
qed

lemma build_with_plans_spec:
  assumes "list_all plan_wf plans"
  shows "res_iff (map sp_txid plans = map (tx_id E) txs \<and> distinct (map (tx_id E) txs) \<and> no_double_spend txs \<and>
             acyclic (depends E txs \<union> plan_conflicts plans))
           (dag_for (length txs) (depends E txs \<union> plan_conflicts plans))
           (build_with_scheduler_plans E txs plans)"
proof (cases "length txs = length plans")
  case True
  let ?n = "length txs" and ?D = "depends E txs" and ?C = "plan_conflicts plans"
  let ?ps = "zip txs plans"
  have wf: "\<forall>plan\<in>set (map snd ?ps). plan_wf plan" and snds: "map snd ?ps = plans"
    using assms True by (auto simp: list_all_iff)
  have ids: "map (sp_txid \<circ> snd) ?ps = map (tx_id E \<circ> fst) ?ps \<longleftrightarrow> map sp_txid plans = map (tx_id E) txs"
    unfolding map_map[symmetric] snds using True by simp
  have "res_iff ((distinct (map (tx_id E) txs) \<and> no_double_spend txs \<and> acyclic ?D) \<and>
      (map sp_txid plans = map (tx_id E) txs \<and> (True \<and> (acyclic (?D \<union> ?C) \<and> True))))
      (dag_for ?n (?D \<union> ?C)) (build_with_scheduler_plans E txs plans)"
    unfolding build_with_scheduler_plans_def eqTrueI[OF True] not_True_eq_False if_False
  proof (rule res_iff_bind[OF build_spec], goal_cases)
    case (1 dag)
    then have dag: "dg_node_count dag = ?n" "graph_ok ?n (dg_edges dag, dg_reverse_edges dag)"
      "edge_rel (dg_edges dag) = ?D" by (simp_all add: dag_for_def)
    show ?case
    proof (rule res_iff_bind[OF collect_spec[OF wf, of E, unfolded snds ids]], goal_cases)
      case (1 cm)
      have range: "\<forall>(a, b)\<in>set (concat (map pairs (bt_values cm))). en_node_id a < en_node_id b \<and> en_node_id b < ?n"
        unfolding True by (auto simp only: conflict_pairs[OF 1(2)])
      obtain er where er: "fold_res conflict_edge (dg_edges dag, dg_reverse_edges dag) (concat (map pairs (bt_values cm))) = Ok er"
        "graph_ok ?n (fst er, snd er)" "edge_rel (fst er) = ?D \<union> ?C"
        using conflict_edges[OF dag(2) range] unfolding plan_conflicts_eq[OF 1(2)] fst_conv dag(3) by auto
      have "res_iff (acyclic (?D \<union> ?C) \<and> True) (dag_for ?n (?D \<union> ?C))
          (res_bind (compute_layers (fst er) (snd er) ?n) (\<lambda>layers.
             Ok (dag\<lparr>dg_edges := fst er, dg_reverse_edges := snd er,
                   dg_conflict_hash_conflicts := cm, dg_layers := layers\<rparr>)))"
        by (rule res_iff_bind[OF conjunct1[OF compute_layers_spec[OF er(2)], unfolded er(3)]])
           (use er dag in \<open>simp add: dag_for_def\<close>)
      then show ?case by (simp add: er(1) dag(1))
    qed
  qed
  then show ?thesis by (rule res_iff_cong) (auto intro: acyclic_subset)
next
  case False
  then have "map sp_txid plans \<noteq> map (tx_id E) txs" by (metis length_map)
  with False show ?thesis by (simp add: build_with_scheduler_plans_def)
qed

section \<open>Properties\<close>

text \<open>
  \<^bold>\<open>C11\<close>. Building the graph succeeds exactly when the transaction ids are distinct, no
  outpoint is spent twice in the batch and the relation "consumes or reads an output of" has no
  cycle. The graph it then returns has one node per transaction, its edges (and their reverses)
  are exactly that relation, and its layers are sorted, disjoint, cover all nodes, and each layer
  holds exactly the nodes whose predecessors all lie in earlier layers.
\<close>

theorem build_exact:
  "res_iff (distinct (map (tx_id E) txs) \<and> no_double_spend txs \<and> acyclic (depends E txs))
     (\<lambda>dag. dg_node_count dag = length txs \<and> edge_rel (dg_edges dag) = depends E txs \<and>
        (\<forall>v. set (predecessors dag v) = {u. (u, v) \<in> depends E txs}) \<and>
        distinct (concat (dg_layers dag)) \<and> set (concat (dg_layers dag)) = {..<length txs} \<and>
        layered (length txs) (depends E txs) (dg_layers dag))
     (build E txs)"
  by (rule res_iff_cong[OF build_spec[of E txs]])
     (auto simp: dag_for_def predecessors_def layers_ok_def layered_distinct
        simp del: set_concat distinct_concat_iff dest: graph_okD(1))

definition sample_spend :: "u8 \<Rightarrow> cell_tx" where
  "sample_spend b = (sample_tx 900 [])\<lparr>tx_outputs_data := [[b]],
     tx_inputs := [\<lparr>ci_previous_output = OutPoint (replicate 32 b) 0, ci_since = 0\<rparr>]\<rparr>"

definition sample_batch :: "cell_tx list" where
  "sample_batch = map sample_spend [7, 8, 9]"

definition sample_plans :: "scheduler_plan list" where
  "sample_plans = map2 (\<lambda>tx accs. \<lparr>sp_txid = tx_id toy_env tx, sp_accesses = accs\<rparr>) sample_batch
     [[(replicate 32 3, WriteAccess), (replicate 32 4, ReadAccess)], [(replicate 32 3, ReadAccess)],
      [(replicate 32 4, ReadAccess)]]"

definition sample_dag :: cell_dag where
  "sample_dag = projr (build_with_scheduler_plans toy_env sample_batch sample_plans)"

lemma sample_batch_len [simp]: "length sample_batch = 3" "length sample_plans = 3"
  by (simp_all add: sample_batch_def sample_plans_def)

lemma sample_plans_wf: "list_all plan_wf sample_plans"
  by (simp add: sample_plans_def plan_wf_def sample_batch_def)

lemma sample_ids:
  "let ids = map (tx_id toy_env) sample_batch
   in distinct ids \<and> list_all (\<lambda>h. h \<noteq> replicate 32 7 \<and> h \<noteq> replicate 32 8 \<and> h \<noteq> replicate 32 9) ids"
  by code_simp

lemma sample_referenced: "v < 3 \<Longrightarrow> referenced_points (sample_batch ! v) = {OutPoint (replicate 32 (of_nat v + 7)) 0}"
  by (auto simp: less_Suc_eq numeral_3_eq_3 sample_batch_def sample_spend_def sample_tx_def
      referenced_points_def spent_points_def)

lemma sample_depends: "depends toy_env sample_batch = {}"
proof -
  have "output_points toy_env (sample_batch ! u) \<inter> referenced_points (sample_batch ! v) = {}" if "u < 3" "v < 3" for u v
  proof -
    have "tx_id toy_env (sample_batch ! u) \<in> set (map (tx_id toy_env) sample_batch)" using that(1) by simp
    then have "tx_id toy_env (sample_batch ! u) \<noteq> replicate 32 (of_nat v + 7)"
      using sample_ids that(2) by (auto simp: Let_def list_all_iff less_Suc_eq numeral_3_eq_3)
    then show ?thesis by (auto simp: sample_referenced[OF that(2)] output_points_def)
  qed
  then show ?thesis by (auto simp: depends_def)
qed

lemma sample_conflicts: "plan_conflicts sample_plans = {(0, 1)}"
proof -
  have "conflicting (sp_accesses (sample_plans ! u)) (sp_accesses (sample_plans ! v)) \<longleftrightarrow> u = 0 \<and> v = 1"
    if "u < v" "v < 3" for u v
    using that by (auto simp: less_Suc_eq numeral_3_eq_3 sample_plans_def sample_batch_def conflicting_def replicate_eq_replicate)
  then show ?thesis by (auto simp: plan_conflicts_def)
qed

lemma sample_dag_for:
  "build_with_scheduler_plans toy_env sample_batch sample_plans = Ok sample_dag \<and> dag_for 3 {(0, 1)} sample_dag"
proof -
  have "acyclic {(0::nat, 1::nat)}" by (auto simp: acyclic_def trancl_insert)
  moreover have "no_double_spend sample_batch"
    by (simp add: no_double_spend_def sample_batch_def sample_spend_def sample_tx_def spent_points_def)
  moreover have "map sp_txid sample_plans = map (tx_id toy_env) sample_batch"
    by (simp add: sample_plans_def sample_batch_def)
  ultimately obtain dag where "build_with_scheduler_plans toy_env sample_batch sample_plans = Ok dag" "dag_for 3 {(0, 1)} dag"
    using res_iff_total[OF build_with_plans_spec[OF sample_plans_wf, of toy_env sample_batch]] sample_ids
    by (auto simp: sample_depends sample_conflicts Let_def)
  then show ?thesis by (simp add: sample_dag_def)
qed

lemmas sample_dag_built = conjunct1[OF sample_dag_for]

lemma sample_first_layer: "\<exists>L\<in>set (dg_layers sample_dag). set L = {0, 2}"
proof -
  have l: "layered 3 {(0, 1)} (dg_layers sample_dag)" "set (concat (dg_layers sample_dag)) = {..<3}"
    using sample_dag_for by (simp_all add: dag_for_def layers_ok_def)
  have "0 \<in> set (concat (dg_layers sample_dag))" unfolding l(2) by simp
  then have "0 < length (dg_layers sample_dag)" by (cases "dg_layers sample_dag") simp_all
  moreover have "ready 3 {(0, 1)} {} = {0, 2::nat}" by (auto simp: ready_def)
  ultimately have "set (dg_layers sample_dag ! 0) = {0, 2}" "dg_layers sample_dag ! 0 \<in> set (dg_layers sample_dag)"
    using l(1) unfolding layered_def by simp_all
  then show ?thesis by blast
qed

text \<open>
  \<^bold>\<open>C12\<close>. With scheduler plans the edges are those of the batch and one edge, from the
  smaller to the larger node, for every two transactions that touch a common conflict domain with
  at least one write. The build succeeds exactly when each plan is bound to its transaction, ids
  are distinct, nothing is spent twice and the combined relation has no cycle.
\<close>

theorem build_with_plans_exact:
  assumes "list_all plan_wf plans"
  shows "res_iff (map sp_txid plans = map (tx_id E) txs \<and> distinct (map (tx_id E) txs) \<and> no_double_spend txs \<and>
             acyclic (depends E txs \<union> plan_conflicts plans))
           (\<lambda>dag. dg_node_count dag = length txs \<and>
              edge_rel (dg_edges dag) = depends E txs \<union> plan_conflicts plans \<and>
              set (concat (dg_layers dag)) = {..<length txs} \<and>
              layered (length txs) (depends E txs \<union> plan_conflicts plans) (dg_layers dag))
           (build_with_scheduler_plans E txs plans)"
  by (rule res_iff_cong[OF build_with_plans_spec[OF assms]])
     (auto simp: dag_for_def layers_ok_def simp del: set_concat)

theorem build_with_plans_exact_witness:
  "acyclic (depends toy_env sample_batch \<union> plan_conflicts sample_plans) \<and>
   edge_rel (dg_edges sample_dag) = {(0, 1)} \<and> set (concat (dg_layers sample_dag)) = {0, 1, 2}"
  using build_with_plans_exact[OF sample_plans_wf, of toy_env sample_batch]
  by (simp add: sample_dag_built sample_depends sample_conflicts lessThan_Suc numeral_3_eq_3 insert_commute numeral_2_eq_2 del: set_concat)

lemma same_layer_unrelated:
  assumes "dag_for n R dag" "L \<in> set (dg_layers dag)" "u \<in> set L" "v \<in> set L"
  shows "(u, v) \<notin> R\<^sup>+" "u < n" "v < n"
proof -
  have ok: "layers_ok n R (dg_layers dag)" and lay: "layered n R (dg_layers dag)"
    and range: "R \<subseteq> {..<n} \<times> {..<n}" and cover: "set (concat (dg_layers dag)) = {..<n}"
    using assms(1) by (auto simp: dag_for_def layers_ok_def graph_ok_def)
  obtain i where i: "i < length (dg_layers dag)" "L = dg_layers dag ! i"
    using assms(2) by (auto simp: in_set_conv_nth)
  have same: "layer_of (dg_layers dag) u = layer_of (dg_layers dag) v"
    using layered_layer_of(1)[OF lay i(1)] assms(3,4) by (simp add: i(2))
  have "layer_of (dg_layers dag) a < layer_of (dg_layers dag) b" if "(a, b) \<in> R\<^sup>+" for a b
    using that
  proof (induction rule: trancl_induct)
    case (base y)
    then show ?case using layers_ok_forward[OF ok base] range by auto
  next
    case (step y z)
    then show ?case using layers_ok_forward[OF ok step.hyps(2)] range by auto
  qed
  then show "(u, v) \<notin> R\<^sup>+" using same by fastforce
  have "u \<in> set (concat (dg_layers dag))" "v \<in> set (concat (dg_layers dag))"
    using assms(2,3,4) by auto
  then show "u < n" "v < n" unfolding cover by simp_all
qed

lemma no_double_spend_disjoint:
  assumes "no_double_spend txs" "u < length txs" "v < length txs" "u \<noteq> v"
  shows "set (spent_points (txs ! u)) \<inter> set (spent_points (txs ! v)) = {}"
proof -
  have less: "set (spent_points (txs ! a)) \<inter> set (spent_points (txs ! b)) = {}" if "a < b" "b < length txs" for a b
  proof -
    have "txs = take b txs @ txs ! b # drop (Suc b) txs" using that(2) by (rule id_take_nth_drop)
    then have "distinct (concat (map spent_points (take b txs)) @ spent_points (txs ! b) @
        concat (map spent_points (drop (Suc b) txs)))"
      using assms(1) unfolding no_double_spend_def by (metis concat.simps(2) concat_append list.simps(9) map_append)
    moreover have "txs ! a \<in> set (take b txs)" using that by (auto simp: in_set_conv_nth)
    ultimately show ?thesis by auto
  qed
  show ?thesis using less[of u v] less[of v u] assms(2-4) by (cases "u < v") auto
qed

text \<open>
  \<^bold>\<open>C13\<close>. Two different transactions in one layer of a planned graph may run in parallel:
  their conflict-domain accesses are compatible in both directions, they spend disjoint inputs,
  neither consumes or reads an output of the other, and no dependency path joins them.
\<close>

theorem same_layer_parallel:
  assumes "list_all plan_wf plans" "build_with_scheduler_plans E txs plans = Ok dag"
    and "L \<in> set (dg_layers dag)" "u \<in> set L" "v \<in> set L" "u \<noteq> v"
  shows "can_parallel (sp_accesses (plans ! u)) (sp_accesses (plans ! v)) \<and>
         set (spent_points (txs ! u)) \<inter> set (spent_points (txs ! v)) = {} \<and>
         output_points E (txs ! u) \<inter> referenced_points (txs ! v) = {} \<and>
         \<not> has_path dag u v"
proof -
  let ?R = "depends E txs \<union> plan_conflicts plans"
  have ids: "map sp_txid plans = map (tx_id E) txs" and nds: "no_double_spend txs"
    and dag: "dag_for (length txs) ?R dag"
    using res_iff_OkD[OF build_with_plans_spec[OF assms(1)] assms(2)] by auto
  have len: "length plans = length txs" using ids by (metis length_map)
  note un = same_layer_unrelated[OF dag assms(3)]
  have lt: "u < length txs" "v < length txs" using un(2,3)[OF assms(4,5)] by auto
  have no: "(u, v) \<notin> ?R\<^sup>+" "(v, u) \<notin> ?R\<^sup>+" using un(1) assms(4,5) by blast+
  then have edge: "(u, v) \<notin> ?R" "(v, u) \<notin> ?R" by blast+
  have "\<not> conflicting (sp_accesses (plans ! u)) (sp_accesses (plans ! v))"
  proof (cases "u < v")
    case True
    then show ?thesis using edge(1) lt len by (simp add: plan_conflicts_def)
  next
    case False
    then have "\<not> conflicting (sp_accesses (plans ! v)) (sp_accesses (plans ! u))"
      using edge(2) lt len assms(6) by (simp add: plan_conflicts_def)
    then show ?thesis unfolding conflicting_def by blast
  qed
  moreover have "\<not> has_path dag u v"
    using no(1) assms(6) dag by (auto simp: has_path_rtrancl dag_for_def rtrancl_eq_or_trancl)
  ultimately show ?thesis
    using edge(1) lt no_double_spend_disjoint[OF nds lt assms(6)] by (simp add: can_parallel_iff depends_def)
qed

theorem same_layer_parallel_witness:
  "\<exists>L\<in>set (dg_layers sample_dag). {0, 2} \<subseteq> set L \<and>
     can_parallel (sp_accesses (sample_plans ! 0)) (sp_accesses (sample_plans ! 2)) \<and>
     set (spent_points (sample_batch ! 0)) \<inter> set (spent_points (sample_batch ! 2)) = {} \<and> \<not> has_path sample_dag 0 2"
proof -
  obtain L where L: "L \<in> set (dg_layers sample_dag)" "0 \<in> set L" "2 \<in> set L" using sample_first_layer by auto
  from same_layer_parallel[OF sample_plans_wf sample_dag_built L] L show ?thesis by (intro bexI[of _ L]) simp_all
qed

text \<open>
  \<^bold>\<open>C14\<close>. The depth-first search answers reachability: it terminates on every graph, cyclic
  ones included, and returns true exactly when a (possibly empty) path of edges leads from one
  node to the other.
\<close>

theorem has_path_is_reachability:
  "has_path dag u v \<longleftrightarrow> (u, v) \<in> (edge_rel (dg_edges dag))\<^sup>*"
  by (rule has_path_rtrancl)

end
