(* ===== verification/Executor.thy ===== *)
theory Executor
  imports Dag
begin

text \<open>
  The layered executor (\<open>exec/src/scheduler/executor.rs\<close>) and the script-verification bridge
  (\<open>exec/src/scheduler/vm_bridge.rs\<close>). The function that verifies one transaction is a parameter:
  \<open>executor_fn\<close> is a closure of the caller and \<open>TransactionScriptVerifier\<close> runs the CKB virtual
  machine. The transactions of one layer run in parallel against the results of the earlier
  layers and are stored afterwards, so a layer is a map followed by a sequence of stores.
\<close>

section \<open>Model\<close>

record execution_receipt =
  xr_cycles :: u64
  xr_exit_code :: "8 word"

datatype execution_result =
    ExecSuccess node_id nat execution_receipt
  | ExecFailed node_id nat string
  | ExecDependencyFailed node_id nat "node_id list"

fun result_node_id :: "execution_result \<Rightarrow> node_id" where
  "result_node_id (ExecSuccess node_id _ _) = node_id"
| "result_node_id (ExecFailed node_id _ _) = node_id"
| "result_node_id (ExecDependencyFailed node_id _ _) = node_id"

fun result_layer :: "execution_result \<Rightarrow> nat" where
  "result_layer (ExecSuccess _ layer _) = layer"
| "result_layer (ExecFailed _ layer _) = layer"
| "result_layer (ExecDependencyFailed _ layer _) = layer"

fun is_success :: "execution_result \<Rightarrow> bool" where
  "is_success (ExecSuccess _ _ _) = True"
| "is_success _ = False"

fun is_failed :: "execution_result \<Rightarrow> bool" where
  "is_failed (ExecFailed _ _ _) = True"
| "is_failed _ = False"

fun is_dependency_failed :: "execution_result \<Rightarrow> bool" where
  "is_dependency_failed (ExecDependencyFailed _ _ _) = True"
| "is_dependency_failed _ = False"

text \<open>\<open>IndexPanic\<close> is the panic of \<open>txs[node_id]\<close> and of \<open>results[node_id]\<close> out of bounds.\<close>

datatype execution_error =
    TxCountMismatch nat nat
  | MissingResult
  | DagBuild dag_error
  | IndexPanic node_id

type_synonym executor_fn = "cell_tx \<Rightarrow> node_id \<Rightarrow> string + execution_receipt"

definition run_tx :: "executor_fn \<Rightarrow> cell_tx \<Rightarrow> node_id \<Rightarrow> nat \<Rightarrow> execution_result" where
  "run_tx f tx node_id layer =
     (case f tx node_id of
        Inr receipt \<Rightarrow> ExecSuccess node_id layer receipt
      | Inl error \<Rightarrow> ExecFailed node_id layer error)"

definition succeeded :: "execution_result option list \<Rightarrow> node_id \<Rightarrow> bool" where
  "succeeded results p =
     (p < length results \<and> (case results ! p of Some r \<Rightarrow> is_success r | None \<Rightarrow> False))"

definition run_node ::
  "(node_id \<Rightarrow> node_id list) \<Rightarrow> executor_fn \<Rightarrow> cell_tx list \<Rightarrow> execution_result option list \<Rightarrow> nat \<Rightarrow> node_id
     \<Rightarrow> execution_error + node_id \<times> execution_result" where
  "run_node preds f txs results layer node_id =
     (let failed_predecessors = filter (\<lambda>p. \<not> succeeded results p) (preds node_id)
      in if failed_predecessors = []
         then if node_id < length txs then Ok (node_id, run_tx f (txs ! node_id) node_id layer)
              else Err (IndexPanic node_id)
         else Ok (node_id, ExecDependencyFailed node_id layer failed_predecessors))"

definition store_result ::
  "execution_result option list \<Rightarrow> node_id \<times> execution_result \<Rightarrow> execution_error + execution_result option list" where
  "store_result results nr =
     (let (node_id, result) = nr
      in if node_id < length results then Ok (results[node_id := Some result]) else Err (IndexPanic node_id))"

definition run_layer ::
  "(node_id \<Rightarrow> node_id list) \<Rightarrow> executor_fn \<Rightarrow> cell_tx list \<Rightarrow> execution_result option list \<Rightarrow> nat \<times> node_id list
     \<Rightarrow> execution_error + execution_result option list" where
  "run_layer preds f txs results item =
     (let (layer_idx, layer) = item
      in res_bind (map_res (run_node preds f txs results layer_idx) layer) (fold_res store_result results))"

definition execute_layers ::
  "(node_id \<Rightarrow> node_id list) \<Rightarrow> node_id list list \<Rightarrow> executor_fn \<Rightarrow> cell_tx list
     \<Rightarrow> execution_error + execution_result list" where
  "execute_layers preds layers f txs =
     res_bind (fold_res (run_layer preds f txs) (replicate (length txs) None) (enumerate 0 layers)) (\<lambda>results.
     map_res (ok_or MissingResult) results)"

definition execute :: "cell_dag \<Rightarrow> cell_tx list \<Rightarrow> executor_fn \<Rightarrow> execution_error + execution_result list" where
  "execute dag txs f =
     (if length txs \<noteq> dg_node_count dag then Err (TxCountMismatch (dg_node_count dag) (length txs))
      else execute_layers (predecessors dag) (dg_layers dag) f txs)"

definition execute_sequential :: "cell_tx list \<Rightarrow> executor_fn \<Rightarrow> execution_error + execution_result list" where
  "execute_sequential txs f = Ok (map (\<lambda>(node_id, tx). run_tx f tx node_id 0) (enumerate 0 txs))"

record execution_stats =
  xs_total_txs :: nat
  xs_successful_txs :: nat
  xs_failed_txs :: nat
  xs_dependency_failed_txs :: nat
  xs_max_layer_depth :: nat

definition get_stats :: "execution_result list \<Rightarrow> execution_stats" where
  "get_stats results =
     \<lparr>xs_total_txs = length results,
      xs_successful_txs = length (filter is_success results),
      xs_failed_txs = length (filter is_failed results),
      xs_dependency_failed_txs = length (filter is_dependency_failed results),
      xs_max_layer_depth = (if results = [] then 0 else Max (set (map result_layer results))) + 1\<rparr>"

text \<open>
  The verifier maps a transaction to its cycles or an error; it carries the data provider, the
  cycle limit and the lock-group switch.
\<close>

type_synonym script_verifier = "cell_tx \<Rightarrow> string + u64"

definition verify_with_existing_dag ::
  "script_verifier \<Rightarrow> cell_dag \<Rightarrow> cell_tx list \<Rightarrow> execution_error + execution_result list" where
  "verify_with_existing_dag verifier dag txs =
     execute dag txs (\<lambda>cell_tx _. res_bind (verifier cell_tx) (\<lambda>cycles.
       Ok \<lparr>xr_cycles = cycles, xr_exit_code = 0\<rparr>))"

definition verify_celltx_via_dag ::
  "crypto_env \<Rightarrow> script_verifier \<Rightarrow> cell_tx list \<Rightarrow> execution_error + execution_result list" where
  "verify_celltx_via_dag E verifier txs =
     res_bind (map_err DagBuild (build E txs)) (\<lambda>dag. verify_with_existing_dag verifier dag txs)"

definition verify_celltx_via_dag_with_plans ::
  "crypto_env \<Rightarrow> script_verifier \<Rightarrow> cell_tx list \<Rightarrow> scheduler_plan list \<Rightarrow> execution_error + execution_result list" where
  "verify_celltx_via_dag_with_plans E verifier txs plans =
     res_bind (map_err DagBuild (build_with_scheduler_plans E txs plans)) (\<lambda>dag.
     verify_with_existing_dag verifier dag txs)"

section \<open>The schedule the executor relies on\<close>

text \<open>What every node must become, given the results of its predecessors.\<close>

definition settled ::
  "(node_id \<Rightarrow> node_id list) \<Rightarrow> executor_fn \<Rightarrow> cell_tx list \<Rightarrow> (node_id \<Rightarrow> execution_result) \<Rightarrow> nat \<Rightarrow> node_id \<Rightarrow> bool" where
  "settled preds f txs rs layer v \<longleftrightarrow>
     (let failed = filter (\<lambda>p. \<not> is_success (rs p)) (preds v)
      in rs v = (if failed = [] then run_tx f (txs ! v) v layer else ExecDependencyFailed v layer failed))"

lemma settled_cong:
  "rs v = rs' v \<Longrightarrow> (\<And>p. p \<in> set (preds v) \<Longrightarrow> rs p = rs' p) \<Longrightarrow>
   settled preds f txs rs layer v = settled preds f txs rs' layer v"
  unfolding settled_def Let_def by (simp cong: filter_cong)

lemma store_results:
  assumes "distinct (map fst nrs)" "\<forall>(v, r)\<in>set nrs. v < length results"
  shows "\<exists>results'. fold_res store_result results nrs = Ok results' \<and> length results' = length results \<and>
     (\<forall>v<length results. results' ! v = (case map_of nrs v of Some r \<Rightarrow> Some r | None \<Rightarrow> results ! v))"
  using assms
proof (induction nrs arbitrary: results)
  case (Cons nr nrs)
  obtain n r where nr: "nr = (n, r)" by (cases nr)
  let ?res = "results[n := Some r]"
  have n: "n < length results" and fresh: "map_of nrs n = None"
    using Cons.prems by (auto simp: nr map_of_eq_None_iff)
  obtain results' where "fold_res store_result ?res nrs = Ok results'" "length results' = length ?res"
    "\<forall>v<length ?res. results' ! v = (case map_of nrs v of Some r \<Rightarrow> Some r | None \<Rightarrow> ?res ! v)"
    using Cons.IH[of ?res] Cons.prems by (auto simp: nr)
  moreover have "store_result results nr = Ok ?res" using n by (simp add: nr store_result_def)
  ultimately show ?case
    using n fresh by (intro exI[of _ results']) (auto simp: nr nth_list_update split: option.splits)
qed simp

lemma concat_take_Un:
  assumes "i < k" "k \<le> length xs"
  shows "set (concat (take i xs)) \<union> set (xs ! i) \<subseteq> set (concat (take k xs))"
proof -
  have "set (take (Suc i) xs) \<subseteq> set (take k xs)" using assms by (intro set_take_subset_set_take) simp
  then have "set (concat (take (Suc i) xs)) \<subseteq> set (concat (take k xs))" by auto
  then show ?thesis using assms by (simp add: take_Suc_conv_app_nth)
qed

locale schedule =
  fixes count :: "'d \<Rightarrow> nat" and layers :: "'d \<Rightarrow> node_id list list"
    and preds :: "'d \<Rightarrow> node_id \<Rightarrow> node_id list" and ok :: "'d \<Rightarrow> bool"
  assumes layers_once: "ok d \<Longrightarrow> distinct (concat (layers d))"
    and layers_cover: "ok d \<Longrightarrow> set (concat (layers d)) = {..<count d}"
    and preds_earlier: "ok d \<Longrightarrow> i < length (layers d) \<Longrightarrow> v \<in> set (layers d ! i) \<Longrightarrow>
       set (preds d v) \<subseteq> set (concat (take i (layers d)))"
begin

definition progress ::
  "'d \<Rightarrow> executor_fn \<Rightarrow> cell_tx list \<Rightarrow> nat \<Rightarrow> execution_result option list \<Rightarrow> bool" where
  "progress d f txs k results \<longleftrightarrow> length results = count d \<and>
     (\<forall>v<count d. (results ! v \<noteq> None) = (v \<in> set (concat (take k (layers d))))) \<and>
     (\<forall>i<k. \<forall>v\<in>set (layers d ! i). settled (preds d) f txs (\<lambda>p. the (results ! p)) i v)"

lemma progress_0: "progress d f txs 0 (replicate (count d) None)"
  by (simp add: progress_def)

lemma run_layer_ok:
  assumes "ok d" "length txs = count d" "k < length (layers d)" "progress d f txs k results"
  shows "\<exists>results'. run_layer (preds d) f txs results (k, layers d ! k) = Ok results' \<and>
           progress d f txs (Suc k) results'"
proof -
  let ?L = "layers d ! k" and ?done = "set (concat (take k (layers d)))"
  have len: "length results = count d" using assms(4) by (simp add: progress_def)
  have some: "results ! p \<noteq> None \<longleftrightarrow> p \<in> ?done" if "p < count d" for p
    using assms(4) that by (simp add: progress_def)
  have split: "concat (layers d) = concat (take k (layers d)) @ ?L @ concat (drop (Suc k) (layers d))"
    using id_take_nth_drop[OF assms(3)] by (metis concat.simps(2) concat_append)
  have dist: "distinct ?L" and disj: "set ?L \<inter> ?done = {}"
    using layers_once[OF assms(1)] unfolding split by auto
  have all: "set ?L \<subseteq> {..<count d}" "?done \<subseteq> {..<count d}"
    using layers_cover[OF assms(1)] unfolding split by auto
  have earlier: "set (preds d v) \<subseteq> ?done" if "v \<in> set ?L" for v
    using preds_earlier[OF assms(1,3) that] .
  have succ: "succeeded results p = is_success (the (results ! p))" if "p \<in> ?done" for p
    using some[of p] that all(2) len by (auto simp: succeeded_def split: option.splits)
  define out where "out v = (let failed = filter (\<lambda>p. \<not> is_success (the (results ! p))) (preds d v)
    in if failed = [] then run_tx f (txs ! v) v k else ExecDependencyFailed v k failed)" for v
  have node: "run_node (preds d) f txs results k v = Ok (v, out v)" if "v \<in> set ?L" for v
  proof -
    have "filter (\<lambda>p. \<not> succeeded results p) (preds d v) = filter (\<lambda>p. \<not> is_success (the (results ! p))) (preds d v)"
      by (rule filter_cong) (use earlier[OF that] succ in auto)
    then show ?thesis using that all(1) assms(2) by (auto simp: run_node_def out_def Let_def)
  qed
  let ?nrs = "map (\<lambda>v. (v, out v)) ?L"
  have runs: "map_res (run_node (preds d) f txs results k) ?L = Ok ?nrs"
    by (rule map_res_map_Ok) (rule node)
  obtain results' where st: "fold_res store_result results ?nrs = Ok results'" "length results' = length results"
    and get0: "\<forall>v<length results. results' ! v = (case map_of ?nrs v of Some r \<Rightarrow> Some r | None \<Rightarrow> results ! v)"
    using store_results[of ?nrs results] dist all(1) len by (auto simp: comp_def)
  have get: "results' ! v = (if v \<in> set ?L then Some (out v) else results ! v)" if "v < count d" for v
    using get0 that len by (simp add: map_of_map_restrict restrict_map_def)
  have keep: "results' ! p = results ! p" if "p \<in> ?done" for p
  proof -
    have "p < count d" "p \<notin> set ?L" using that all(2) disj by blast+
    then show ?thesis using get[of p] by simp
  qed
  have "progress d f txs (Suc k) results'"
    unfolding progress_def
  proof (intro conjI allI impI ballI)
    show "length results' = count d" using st(2) len by simp
    show "(results' ! v \<noteq> None) = (v \<in> set (concat (take (Suc k) (layers d))))" if "v < count d" for v
      using get[OF that] some[OF that] assms(3) by (simp add: take_Suc_conv_app_nth)
    fix i v assume i: "i < Suc k" and v: "v \<in> set (layers d ! i)"
    show "settled (preds d) f txs (\<lambda>p. the (results' ! p)) i v"
    proof (cases "i = k")
      case True
      have same: "results' ! p = results ! p" if "p \<in> set (preds d v)" for p
        using keep[of p] earlier[of v] v True that by blast
      have "filter (\<lambda>p. \<not> is_success (the (results' ! p))) (preds d v) =
          filter (\<lambda>p. \<not> is_success (the (results ! p))) (preds d v)"
        by (rule filter_cong) (simp_all add: same)
      then show ?thesis
        using get[of v] v True all(1) by (auto simp: settled_def out_def Let_def)
    next
      case False
      then have i: "i < k" using i by simp
      then have sub: "set (concat (take i (layers d))) \<union> set (layers d ! i) \<subseteq> ?done"
        using assms(3) by (intro concat_take_Un) simp_all
      have pv: "set (preds d v) \<subseteq> set (concat (take i (layers d)))"
        using preds_earlier[OF assms(1) _ v] i assms(3) by simp
      have "settled (preds d) f txs (\<lambda>p. the (results ! p)) i v"
        using assms(4) i v by (simp add: progress_def)
      moreover have same: "the (results' ! p) = the (results ! p)" if "p = v \<or> p \<in> set (preds d v)" for p
      proof -
        have "p \<in> ?done" using that pv sub v by blast
        then show ?thesis by (simp only: keep)
      qed
      have "settled (preds d) f txs (\<lambda>p. the (results' ! p)) i v = settled (preds d) f txs (\<lambda>p. the (results ! p)) i v"
        by (rule settled_cong) (simp_all add: same)
      ultimately show ?thesis by simp
    qed
  qed
  then show ?thesis using runs st(1) by (auto simp: run_layer_def)
qed

lemma run_layers_ok:
  assumes "ok d" "length txs = count d" "k \<le> length (layers d)"
  shows "\<exists>results. fold_res (run_layer (preds d) f txs) (replicate (count d) None) (enumerate 0 (take k (layers d))) = Ok results
           \<and> progress d f txs k results"
  using assms(3)
proof (induction k)
  case (Suc k)
  then obtain results where
    "fold_res (run_layer (preds d) f txs) (replicate (count d) None) (enumerate 0 (take k (layers d))) = Ok results"
    "progress d f txs k results" by auto
  with run_layer_ok[OF assms(1,2) _ this(2)] Suc.prems show ?case
    by (simp add: take_Suc_conv_app_nth fold_res_enumerate_snoc min_def)
qed (simp add: progress_0)

lemma execute_layers_settles:
  assumes "ok d" "length txs = count d"
  shows "\<exists>rs. execute_layers (preds d) (layers d) f txs = Ok rs \<and> length rs = count d \<and>
     (\<forall>i<length (layers d). \<forall>v\<in>set (layers d ! i). settled (preds d) f txs (nth rs) i v)"
proof -
  obtain results where run: "fold_res (run_layer (preds d) f txs) (replicate (count d) None) (enumerate 0 (layers d)) = Ok results"
    and p: "progress d f txs (length (layers d)) results"
    using run_layers_ok[OF assms order_refl] by auto
  have len: "length results = count d" using p by (simp add: progress_def)
  have "results ! v \<noteq> None" if "v < count d" for v
    using p layers_cover[OF assms(1)] that by (simp add: progress_def del: set_concat)
  then have "map_res (ok_or MissingResult) results = Ok (map the results)"
    by (intro map_res_map_Ok) (force simp: len[symmetric] in_set_conv_nth)
  then have ex: "execute_layers (preds d) (layers d) f txs = Ok (map the results)"
    using run assms(2) by (simp add: execute_layers_def)
  have "settled (preds d) f txs (nth (map the results)) i v"
    if i: "i < length (layers d)" and v: "v \<in> set (layers d ! i)" for i v
  proof -
    have "set (preds d v) \<subseteq> {..<count d}" "v < count d"
      using preds_earlier[OF assms(1) i v] layers_cover[OF assms(1)] v
        concat_take_Un[OF i order_refl] by (auto simp del: set_concat)
    then have "settled (preds d) f txs (nth (map the results)) i v = settled (preds d) f txs (\<lambda>p. the (results ! p)) i v"
      by (intro settled_cong) (auto simp: len subset_iff)
    then show ?thesis using p i v by (simp add: progress_def)
  qed
  with ex len show ?thesis by simp
qed

lemma settled_unique:
  assumes "ok d" "\<forall>i<length (layers d). \<forall>v\<in>set (layers d ! i). settled (preds d) f txs rs i v"
    and "\<forall>i<length (layers d). \<forall>v\<in>set (layers d ! i). settled (preds d) f txs rs' i v"
    and "k \<le> length (layers d)" "v \<in> set (concat (take k (layers d)))"
  shows "rs v = rs' v"
  using assms(4,5)
proof (induction k arbitrary: v)
  case (Suc k)
  show ?case
  proof (cases "v \<in> set (concat (take k (layers d)))")
    case True
    then show ?thesis using Suc by simp
  next
    case False
    then have v: "v \<in> set (layers d ! k)" using Suc.prems by (simp add: take_Suc_conv_app_nth)
    have same: "rs p = rs' p" if "p \<in> set (preds d v)" for p
      by (rule Suc.IH) (use Suc.prems preds_earlier[OF assms(1) _ v] that in \<open>auto simp del: set_concat\<close>)
    have "filter (\<lambda>p. \<not> is_success (rs p)) (preds d v) = filter (\<lambda>p. \<not> is_success (rs' p)) (preds d v)"
      by (rule filter_cong) (simp_all add: same)
    moreover have "settled (preds d) f txs rs k v" "settled (preds d) f txs rs' k v"
      using assms(2,3) v Suc.prems by auto
    ultimately show ?thesis by (simp add: settled_def Let_def)
  qed
qed simp

end

section \<open>The graph is a schedule\<close>

definition dag_ok :: "cell_dag \<Rightarrow> bool" where
  "dag_ok dag = dag_for (dg_node_count dag) (edge_rel (dg_edges dag)) dag"

lemma dag_for_ok: "dag_for n R dag \<Longrightarrow> dag_ok dag \<and> dg_node_count dag = n \<and> edge_rel (dg_edges dag) = R"
  by (auto simp: dag_for_def dag_ok_def)

lemma dag_ok_layered:
  assumes "dag_ok dag"
  shows "layered (dg_node_count dag) (edge_rel (dg_edges dag)) (dg_layers dag)"
    "set (concat (dg_layers dag)) = {..<dg_node_count dag}"
    "set (predecessors dag v) = {u. (u, v) \<in> edge_rel (dg_edges dag)}"
  using assms graph_okD(1) unfolding dag_ok_def dag_for_def layers_ok_def predecessors_def by blast+

interpretation dag_schedule: schedule dg_node_count dg_layers predecessors dag_ok
proof
  fix d :: cell_dag and i v
  assume ok: "dag_ok d"
  show "distinct (concat (dg_layers d))" by (rule layered_distinct[OF dag_ok_layered(1)[OF ok]])
  show "set (concat (dg_layers d)) = {..<dg_node_count d}" by (rule dag_ok_layered(2)[OF ok])
  assume i: "i < length (dg_layers d)" and v: "v \<in> set (dg_layers d ! i)"
  show "set (predecessors d v) \<subseteq> set (concat (take i (dg_layers d)))"
    using layered_layer_of(2)[OF dag_ok_layered(1)[OF ok] i v] unfolding dag_ok_layered(3)[OF ok] by blast
qed

lemma execute_settles:
  assumes "dag_ok dag" "length txs = dg_node_count dag"
  shows "\<exists>rs. execute dag txs f = Ok rs \<and> length rs = length txs \<and>
     (\<forall>v<length txs. settled (predecessors dag) f txs (nth rs) (layer_of (dg_layers dag) v) v)"
proof -
  obtain rs where rs: "execute_layers (predecessors dag) (dg_layers dag) f txs = Ok rs" "length rs = dg_node_count dag"
    and set: "\<forall>i<length (dg_layers dag). \<forall>v\<in>set (dg_layers dag ! i). settled (predecessors dag) f txs (nth rs) i v"
    using dag_schedule.execute_layers_settles[OF assms, of f] by (elim exE conjE) (rule that)
  have "settled (predecessors dag) f txs (nth rs) (layer_of (dg_layers dag) v) v" if "v < length txs" for v
  proof -
    have "v \<in> set (concat (dg_layers dag))" using that assms(2) unfolding dag_ok_layered(2)[OF assms(1)] by simp
    from concat_nth_ex[OF this] obtain i where i: "i < length (dg_layers dag)" "v \<in> set (dg_layers dag ! i)" by blast
    show ?thesis
      unfolding layered_layer_of(1)[OF dag_ok_layered(1)[OF assms(1)] i] by (rule set[rule_format, OF i])
  qed
  with rs assms(2) show ?thesis by (simp add: execute_def)
qed

lemma distinct_singleton_list: "distinct xs \<Longrightarrow> set xs = {x} \<Longrightarrow> xs = [x]"
  by (cases xs) (auto simp: subset_singleton_iff)

text \<open>
  \<^bold>\<open>C15\<close>. Verifying a batch through a planned graph returns one result per transaction, in
  input order, whatever the verifier answers. A transaction is run exactly when all its
  predecessors succeeded, and its result is then the verifier's answer; otherwise it is reported
  as skipped with exactly the predecessors that did not succeed. The layer reported is the one the
  graph assigned.
\<close>

theorem verify_via_dag_outcomes:
  assumes "list_all plan_wf plans" "build_with_scheduler_plans E txs plans = Ok dag"
  shows "\<exists>rs. verify_celltx_via_dag_with_plans E verifier txs plans = Ok rs \<and> length rs = length txs \<and>
     list_all (\<lambda>v. let failed = filter (\<lambda>p. \<not> is_success (rs ! p)) (predecessors dag v);
                       layer = layer_of (dg_layers dag) v
        in rs ! v = (if failed \<noteq> [] then ExecDependencyFailed v layer failed
             else case verifier (txs ! v) of
                    Inr cycles \<Rightarrow> ExecSuccess v layer \<lparr>xr_cycles = cycles, xr_exit_code = 0\<rparr>
                  | Inl error \<Rightarrow> ExecFailed v layer error)) [0..<length txs]"
proof -
  let ?f = "\<lambda>cell_tx (_ :: node_id). res_bind (verifier cell_tx) (\<lambda>cycles. Ok \<lparr>xr_cycles = cycles, xr_exit_code = 0\<rparr>)"
  have dag: "dag_ok dag" "length txs = dg_node_count dag"
    using res_iff_OkD[OF build_with_plans_spec[OF assms(1)] assms(2)] dag_for_ok by auto
  obtain rs where rs: "execute dag txs ?f = Ok rs" "length rs = length txs"
    "\<forall>v<length txs. settled (predecessors dag) ?f txs (nth rs) (layer_of (dg_layers dag) v) v"
    using execute_settles[OF dag] by blast
  have run: "run_tx ?f tx v l = (case verifier tx of
      Inr cycles \<Rightarrow> ExecSuccess v l \<lparr>xr_cycles = cycles, xr_exit_code = 0\<rparr> | Inl error \<Rightarrow> ExecFailed v l error)" for tx v l
    by (cases "verifier tx") (simp_all add: run_tx_def)
  have "verify_celltx_via_dag_with_plans E verifier txs plans = Ok rs"
    using rs(1) assms(2) by (simp add: verify_celltx_via_dag_with_plans_def verify_with_existing_dag_def)
  then show ?thesis
    using rs(2,3) unfolding settled_def run by (intro exI[of _ rs]) (auto simp: list_all_iff Let_def)
qed

theorem verify_via_dag_outcomes_witness:
  "\<exists>rs l. verify_celltx_via_dag_with_plans toy_env (\<lambda>tx. if tx = sample_batch ! 0 then Err ''no'' else Ok 5) sample_batch sample_plans = Ok rs
     \<and> is_failed (rs ! 0) \<and> rs ! 1 = ExecDependencyFailed 1 l [0] \<and> length rs = 3"
proof -
  let ?ver = "\<lambda>tx. if tx = sample_batch ! 0 then Err ''no'' else Ok 5"
  have ok: "dag_ok sample_dag" "edge_rel (dg_edges sample_dag) = {(0, 1)}"
    using sample_dag_for dag_for_ok[of 3 "{(0, 1)}" sample_dag] by auto
  have "set (predecessors sample_dag 0) = {}" "set (predecessors sample_dag 1) = {0}"
    unfolding dag_ok_layered(3)[OF ok(1)] ok(2) by auto
  moreover have "distinct (predecessors sample_dag 1)"
    using sample_dag_for graph_okD(2) by (auto simp: dag_for_def predecessors_def)
  ultimately have pr: "predecessors sample_dag 0 = []" "predecessors sample_dag 1 = [0]"
    using distinct_singleton_list[of "predecessors sample_dag 1" 0] by auto
  have idx: "[0..<length sample_batch] = [0, 1, 2]" by (simp add: upt_rec)
  show ?thesis
    using verify_via_dag_outcomes[OF sample_plans_wf sample_dag_built, of ?ver]
    unfolding idx list.pred_inject Let_def pr
  proof (elim exE conjE, goal_cases)
    case (1 rs)
    then have r0: "rs ! 0 = ExecFailed 0 (layer_of (dg_layers sample_dag) 0) ''no''" by simp
    from 1 have "rs ! 1 = ExecDependencyFailed 1 (layer_of (dg_layers sample_dag) 1) [0]" by (simp add: r0)
    with 1(1,2) r0 show ?case
      by (intro exI[of _ rs] exI[of _ "layer_of (dg_layers sample_dag) 1"]) simp
  qed
qed

text \<open>
  The result of an execution does not depend on the order in which transactions of a
  layer finish: any list of results in which every transaction is settled against its predecessors
  is the list the executor returns.
\<close>

lemma execution_unique:
  assumes "dag_ok dag" "length txs = dg_node_count dag" "length rs = length txs"
    and "\<forall>v<length txs. settled (predecessors dag) f txs (nth rs) (layer_of (dg_layers dag) v) v"
  shows "execute dag txs f = Ok rs"
proof -
  obtain rs' where rs': "execute dag txs f = Ok rs'" "length rs' = length txs"
    and s': "\<forall>v<length txs. settled (predecessors dag) f txs (nth rs') (layer_of (dg_layers dag) v) v"
    using execute_settles[OF assms(1,2)] by blast
  have by_layer: "settled (predecessors dag) f txs (nth xs) i v"
    if "\<forall>v<length txs. settled (predecessors dag) f txs (nth xs) (layer_of (dg_layers dag) v) v"
      "i < length (dg_layers dag)" "v \<in> set (dg_layers dag ! i)" for xs i v
  proof -
    have "v < length txs"
      using concat_take_Un[OF that(2) order_refl] that(3) dag_ok_layered(2)[OF assms(1)] assms(2) by (auto simp del: set_concat)
    then show ?thesis using that(1) layered_layer_of(1)[OF dag_ok_layered(1)[OF assms(1)] that(2,3)] by auto
  qed
  have "rs ! v = rs' ! v" if "v < length txs" for v
  proof (rule dag_schedule.settled_unique[OF assms(1), where k = "length (dg_layers dag)"])
    show "v \<in> set (concat (take (length (dg_layers dag)) (dg_layers dag)))"
      using dag_ok_layered(2)[OF assms(1)] that assms(2) by (simp del: set_concat)
  qed (use by_layer assms(4) s' in auto)
  then have "rs = rs'" using assms(3) rs'(2) by (intro nth_equalityI) auto
  with rs'(1) show ?thesis by simp
qed

end
