(* ===== verification/Conflict.thy ===== *)
theory Conflict
  imports Cell_Tree
begin

text \<open>
  Conflict domains of typed cells resolved from concrete state (\<open>state/src/conflict.rs\<close>): the
  registry of validated declarations and the resolution of one access of a transaction to its
  conflict hash. The reader of a named field of the cell data is a parameter, as in the code
  (trait \<open>ConflictFieldReader\<close>).
\<close>

section \<open>Model\<close>

datatype conflict_cell_source = SourceInput | SourceCellDep | SourceOutput

type_synonym field_reader = "script \<Rightarrow> bytes \<Rightarrow> string \<Rightarrow> string + bytes"

record resolved_conflict_domain =
  rd_conflict_hash :: hash32
  rd_typed_data_hash :: hash32

datatype conflict_resolution_error =
    InvalidDeclaration typed_cell_decl_error
  | ConflictingDeclaration
  | SourceIndexOutOfBounds conflict_cell_source u32 nat
  | MissingLiveCell outpoint
  | DepGroupRequiresExpansion
  | MissingOutputData u32
  | MissingTypeScript
  | MissingResolvedData
  | UnregisteredTypeScript
  | ConflictKeyDisabled
  | FieldRead string string

type_synonym conflict_registry = "(script_id, typed_cell_decl) btree"

definition registry_new :: conflict_registry where
  "registry_new = []"

definition register ::
  "crypto_env \<Rightarrow> conflict_registry \<Rightarrow> script \<Rightarrow> typed_cell_decl \<Rightarrow> conflict_resolution_error + conflict_registry" where
  "register E reg type_script declaration =
     res_bind (map_err InvalidDeclaration (validate_typed_cell_decl declaration)) (\<lambda>_.
     let script_id = script_id_from_script (cr_blake3 E) type_script
     in case bt_get reg script_id of
          Some existing \<Rightarrow> (if existing \<noteq> declaration then Err ConflictingDeclaration else Ok reg)
        | None \<Rightarrow> Ok (bt_insert script_id declaration reg))"

text \<open>\<open>slice.get(index)\<close>.\<close>

definition list_get :: "'a list \<Rightarrow> u32 \<Rightarrow> 'a option" where
  "list_get xs i = (if unat i < length xs then Some (xs ! unat i) else None)"

definition live_typed_cell ::
  "cell_state_tree \<Rightarrow> outpoint \<Rightarrow> conflict_resolution_error + outpoint \<times> script \<times> bytes" where
  "live_typed_cell state p =
     res_bind (ok_or (MissingLiveCell p) (tree_get state p)) (\<lambda>entry.
     res_bind (ok_or MissingTypeScript (ce_type_script entry)) (\<lambda>type_script.
     res_bind (ok_or MissingResolvedData (ce_data entry)) (\<lambda>data.
     Ok (p, type_script, data))))"

definition access_cell ::
  "crypto_env \<Rightarrow> cell_state_tree \<Rightarrow> cell_tx \<Rightarrow> conflict_cell_source \<Rightarrow> u32
     \<Rightarrow> conflict_resolution_error + outpoint \<times> script \<times> bytes" where
  "access_cell E state tx source index =
     (case source of
        SourceInput \<Rightarrow>
          res_bind (ok_or (SourceIndexOutOfBounds source index (length (tx_inputs tx))) (list_get (tx_inputs tx) index)) (\<lambda>input.
          live_typed_cell state (ci_previous_output input))
      | SourceCellDep \<Rightarrow>
          res_bind (ok_or (SourceIndexOutOfBounds source index (length (tx_cell_deps tx))) (list_get (tx_cell_deps tx) index)) (\<lambda>dep.
          if cd_dep_type dep = DepGroup then Err DepGroupRequiresExpansion
          else live_typed_cell state (cd_out_point dep))
      | SourceOutput \<Rightarrow>
          res_bind (ok_or (SourceIndexOutOfBounds source index (length (tx_outputs tx))) (list_get (tx_outputs tx) index)) (\<lambda>output.
          res_bind (ok_or (MissingOutputData index) (list_get (tx_outputs_data tx) index)) (\<lambda>data.
          res_bind (ok_or MissingTypeScript (co_type output)) (\<lambda>type_script.
          Ok (OutPoint (tx_id E tx) index, type_script, data)))))"

definition read_key_field ::
  "field_reader \<Rightarrow> script \<Rightarrow> bytes \<Rightarrow> string \<Rightarrow> conflict_resolution_error + bytes" where
  "read_key_field reader type_script data field = map_err (FieldRead field) (reader type_script data field)"

definition conflict_key_value ::
  "field_reader \<Rightarrow> typed_cell_decl \<Rightarrow> outpoint \<Rightarrow> script \<Rightarrow> bytes \<Rightarrow> conflict_resolution_error + bytes" where
  "conflict_key_value reader declaration p type_script data =
     (case rs_conflict_key (td_runtime declaration) of
        KeyCellId \<Rightarrow> Ok (outpoint_to_key p)
      | KeyField field \<Rightarrow> read_key_field reader type_script data field
      | KeyComposite field_names \<Rightarrow>
          res_bind (map_res (read_key_field reader type_script data) field_names) (\<lambda>values.
          Ok (encode_conflict_key_value_composite values))
      | KeyNone \<Rightarrow> Err ConflictKeyDisabled)"

definition resolve_transaction_access ::
  "crypto_env \<Rightarrow> conflict_registry \<Rightarrow> cell_state_tree \<Rightarrow> cell_tx \<Rightarrow> conflict_cell_source \<Rightarrow> u32 \<Rightarrow> field_reader
     \<Rightarrow> conflict_resolution_error + resolved_conflict_domain" where
  "resolve_transaction_access E reg state tx source index reader =
     res_bind (access_cell E state tx source index) (\<lambda>(p, type_script, data).
     res_bind (ok_or UnregisteredTypeScript (bt_get reg (script_id_from_script (cr_blake3 E) type_script))) (\<lambda>declaration.
     res_bind (conflict_key_value reader declaration p type_script data) (\<lambda>key_value.
     Ok \<lparr>rd_conflict_hash = compute_conflict_hash (cr_blake3 E) type_script key_value,
          rd_typed_data_hash = compute_typed_data_hash (cr_blake3 E) type_script data\<rparr>)))"

section \<open>The registry\<close>

definition registry_ok :: "conflict_registry \<Rightarrow> bool" where
  "registry_ok reg = (bt_wf reg \<and> (\<forall>id d. bt_get reg id = Some d \<longrightarrow> validate_typed_cell_decl d = Ok ()))"

lemma registry_ok_new: "registry_ok registry_new"
  by (simp add: registry_ok_def registry_new_def bt_simps)

lemma register_spec':
  assumes "registry_ok reg"
  shows "res_iff (validate_typed_cell_decl d = Ok () \<and>
             bt_get reg (script_id_from_script (cr_blake3 E) s) \<in> {None, Some d})
           (\<lambda>reg'. registry_ok reg' \<and> bt_get reg' = (bt_get reg)(script_id_from_script (cr_blake3 E) s \<mapsto> d))
           (register E reg s d)"
proof (cases "validate_typed_cell_decl d")
  case (Inr u)
  then have v: "validate_typed_cell_decl d = Ok ()" by simp
  show ?thesis
    using assms v by (cases "bt_get reg (script_id_from_script (cr_blake3 E) s)")
      (auto simp: register_def Let_def registry_ok_def bt_simps bt_wf_insert fun_upd_idem)
qed (simp add: register_def)

definition register_all ::
  "crypto_env \<Rightarrow> (script \<times> typed_cell_decl) list \<Rightarrow> conflict_resolution_error + conflict_registry" where
  "register_all E ds = fold_res (\<lambda>reg (s, d). register E reg s d) registry_new ds"

abbreviation decl_table :: "crypto_env \<Rightarrow> (script \<times> typed_cell_decl) list \<Rightarrow> (script_id \<times> typed_cell_decl) list" where
  "decl_table E ds \<equiv> map (\<lambda>(s, d). (script_id_from_script (cr_blake3 E) s, d)) ds"

definition declarations_agree :: "crypto_env \<Rightarrow> (script \<times> typed_cell_decl) list \<Rightarrow> bool" where
  "declarations_agree E ds =
     list_all (\<lambda>(s, d). map_of (decl_table E ds) (script_id_from_script (cr_blake3 E) s) = Some d) ds"

lemma agree_snoc:
  "declarations_agree E (ds @ [(s, d)]) \<longleftrightarrow> declarations_agree E ds \<and>
     map_of (decl_table E ds) (script_id_from_script (cr_blake3 E) s) \<in> {None, Some d}"
proof -
  let ?k = "script_id_from_script (cr_blake3 E) s"
  have old: "map_of (decl_table E (ds @ [(s, d)])) (script_id_from_script (cr_blake3 E) s') =
      map_of (decl_table E ds) (script_id_from_script (cr_blake3 E) s')" if "(s', d') \<in> set ds" for s' d'
  proof -
    have "script_id_from_script (cr_blake3 E) s' \<in> dom (map_of (decl_table E ds))"
      unfolding dom_map_of_conv_image_fst set_map image_image by (rule image_eqI[OF _ that]) simp
    then show ?thesis by (auto simp: map_add_def)
  qed
  have "map_of (decl_table E (ds @ [(s, d)])) ?k = Some d \<longleftrightarrow> map_of (decl_table E ds) ?k \<in> {None, Some d}"
    by (auto simp: map_add_def split: option.splits)
  moreover have "list_all (\<lambda>(s', d'). map_of (decl_table E (ds @ [(s, d)])) (script_id_from_script (cr_blake3 E) s') = Some d') ds
      \<longleftrightarrow> declarations_agree E ds"
    unfolding declarations_agree_def list_all_iff using old by fastforce
  ultimately show ?thesis unfolding declarations_agree_def list_all_append by (auto simp: declarations_agree_def)
qed

lemma register_all_spec:
  "res_iff (list_all (\<lambda>(_, d). validate_typed_cell_decl d = Ok ()) ds \<and> declarations_agree E ds)
     (\<lambda>reg. registry_ok reg \<and> bt_get reg = map_of (decl_table E ds)) (register_all E ds)"
proof (induction ds rule: rev_induct)
  case Nil
  then show ?case by (simp add: register_all_def registry_ok_def declarations_agree_def registry_new_def bt_simps)
next
  case (snoc x ds)
  obtain s d where x: "x = (s, d)" by (cases x)
  let ?k = "script_id_from_script (cr_blake3 E) s"
  have "res_iff ((list_all (\<lambda>(_, d). validate_typed_cell_decl d = Ok ()) ds \<and> declarations_agree E ds) \<and>
      (validate_typed_cell_decl d = Ok () \<and> map_of (decl_table E ds) ?k \<in> {None, Some d}))
      (\<lambda>reg'. registry_ok reg' \<and> bt_get reg' = (map_of (decl_table E ds))(?k \<mapsto> d)) (register_all E (ds @ [x]))"
    unfolding register_all_def fold_res_snoc
  proof (rule res_iff_bind[OF snoc.IH[unfolded register_all_def]], goal_cases)
    case (1 reg)
    then show ?case using register_spec'[of reg d E s] by (simp add: x)
  qed
  then show ?case
  proof (rule res_iff_cong)
    fix reg' assume "registry_ok reg' \<and> bt_get reg' = (map_of (decl_table E ds))(?k \<mapsto> d)"
      and "(list_all (\<lambda>(_, d). validate_typed_cell_decl d = Ok ()) ds \<and> declarations_agree E ds) \<and>
        (validate_typed_cell_decl d = Ok () \<and> map_of (decl_table E ds) ?k \<in> {None, Some d})"
    moreover from this(2) have "map_of (decl_table E (ds @ [x])) = (map_of (decl_table E ds))(?k \<mapsto> d)"
      by (auto simp: x fun_eq_iff map_add_def split: option.splits)
    ultimately show "registry_ok reg' \<and> bt_get reg' = map_of (decl_table E (ds @ [x]))" by simp
  qed (auto simp: x agree_snoc)
qed

section \<open>Properties\<close>

text \<open>
  \<^bold>\<open>C16\<close>. Registering a sequence of declarations succeeds exactly when each of them validates
  and any two for the same script identity are equal. The registry then holds, for every identity
  and no other, the declaration registered for it, and every declaration it holds validates.
\<close>

theorem registry_exact:
  "res_iff (list_all (\<lambda>(_, d). validate_typed_cell_decl d = Ok ()) ds \<and> declarations_agree E ds)
     (\<lambda>reg. registry_ok reg \<and> bt_get reg = map_of (decl_table E ds)) (register_all E ds)"
  by (rule register_all_spec)

text \<open>
  \<^bold>\<open>C17\<close>. A resolved access is hashed injectively. For two accesses through composite keys
  the bytes hashed into the conflict hash agree exactly when the type scripts and the lists of key
  fields agree, so field values cannot be shifted between neighbouring fields, and they never
  agree with the bytes hashed into a typed data hash.
\<close>

theorem conflict_domain_binds:
  assumes "wf_script s" "wf_script t" "wf_composite vs" "wf_composite ws"
    and "short32 (encode_conflict_key_value_composite vs)" "short32 (encode_conflict_key_value_composite ws)"
  shows "(conflict_hash_preimage s (encode_conflict_key_value_composite vs) =
            conflict_hash_preimage t (encode_conflict_key_value_composite ws) \<longleftrightarrow> s = t \<and> vs = ws) \<and>
         conflict_hash_preimage s (encode_conflict_key_value_composite vs) \<noteq> typed_data_hash_preimage t data"
  using conflict_hash_preimage_inj[OF assms(1,2,5,6)] concat_len32_inj[of vs ws] assms(3,4)
    conflict_typed_domains_disjoint
  by (auto simp: wf_composite_def composite_alt)

theorem conflict_domain_binds_witness:
  "wf_script sample_script \<and> conflict_hash_preimage sample_script (encode_conflict_key_value_composite [[1, 2], [3]]) \<noteq>
     conflict_hash_preimage sample_script (encode_conflict_key_value_composite [[1], [2, 3]])"
proof -
  have w: "wf_script sample_script" by (simp add: wf_script_def sample_script_def short32_def)
  from conflict_domain_binds[OF w w, of "[[1, 2], [3]]" "[[1], [2, 3]]"] w show ?thesis
    by (simp add: wf_composite_def short32_def encode_conflict_key_value_composite_def)
qed

end
