(* ===== verification/Consensus.thy ===== *)
theory Consensus
  imports Molecule Crypto_Env "HOL-Library.Char_ord"
begin

text \<open>
  The closed-committee engines of \<open>consensus/src/lib.rs\<close>: the session block and its hash, the
  validator set, signatures and certificates, the static committee and the weighted precommit
  certificate. The secp256k1 operations are the record \<open>sig_env\<close>, an argument of every definition
  that signs or verifies. Validator ids are strings of bytes; the \<open>HashMap\<close> of validators is kept
  in key order, which only the configuration commitment and the proposer rotation see, and both
  sort by id.
\<close>

section \<open>Signatures\<close>

record sig_env =
  sg_secret_ok :: "bytes \<Rightarrow> bool"
  sg_xonly_ok :: "bytes \<Rightarrow> bool"
  sg_xonly_public :: "bytes \<Rightarrow> bytes"
  sg_schnorr_sign :: "bytes \<Rightarrow> bytes \<Rightarrow> bytes"
  sg_schnorr_verify :: "bytes \<Rightarrow> bytes \<Rightarrow> bytes \<Rightarrow> bool"
  sg_compressed_public :: "bytes \<Rightarrow> bytes"
  sg_compressed_ok :: "bytes \<Rightarrow> bool"
  sg_sign_recoverable :: "bytes \<Rightarrow> bytes \<Rightarrow> bytes"
  sg_recover :: "bytes \<Rightarrow> bytes \<Rightarrow> bytes option"

text \<open>
  What the code relies on: keys derived from a valid secret are valid, signatures have their fixed
  lengths, and verification accepts what signing produced.
\<close>

definition sig_env_ok :: "sig_env \<Rightarrow> bool" where
  "sig_env_ok S \<longleftrightarrow> (\<forall>k. sg_secret_ok S k \<longrightarrow>
     sg_xonly_ok S (sg_xonly_public S k) \<and> sg_compressed_ok S (sg_compressed_public S k) \<and>
     (\<forall>d. length (sg_schnorr_sign S k d) = 64 \<and>
          sg_schnorr_verify S (sg_xonly_public S k) d (sg_schnorr_sign S k d) \<and>
          length (sg_sign_recoverable S k d) = 65 \<and>
          sg_recover S d (sg_sign_recoverable S k d) = Some (sg_compressed_public S k)))"

definition toy_sig :: sig_env where
  "toy_sig = \<lparr>sg_secret_ok = (\<lambda>k. length k = 32), sg_xonly_ok = (\<lambda>k. length k = 32),
     sg_xonly_public = (\<lambda>k. k), sg_schnorr_sign = (\<lambda>k d. take 64 (k @ d @ replicate 64 0)),
     sg_schnorr_verify = (\<lambda>pk d s. s = take 64 (pk @ d @ replicate 64 0)),
     sg_compressed_public = (\<lambda>k. 2 # k), sg_compressed_ok = (\<lambda>k. length k = 33),
     sg_sign_recoverable = (\<lambda>k d. take 65 (2 # k @ replicate 65 0)),
     sg_recover = (\<lambda>d s. Some (take 33 s))\<rparr>"

lemma toy_sig_ok: "sig_env_ok toy_sig"
  by (simp add: sig_env_ok_def toy_sig_def min_def)

section \<open>Blocks\<close>

datatype consensus_kind = StaticClosedCommittee | ProofOfAuthority | Tendermint

fun kind_as_str :: "consensus_kind \<Rightarrow> string" where
  "kind_as_str StaticClosedCommittee = ''static-closed-committee''"
| "kind_as_str ProofOfAuthority = ''proof-of-authority''"
| "kind_as_str Tendermint = ''tendermint''"

datatype consensus_error =
    InvalidConfig string
  | ProofCodec string
  | MessageCodec string
  | UnknownEngine string
  | WrongEngine consensus_kind consensus_kind
  | WrongFinalityProof consensus_kind consensus_kind
  | WrongBlockHash
  | WrongHeight u64 u64
  | WrongRound u32 u32
  | DuplicateValidator
  | DuplicateAuthority string
  | DuplicateAuthorityKey
  | UnknownValidator string
  | ZeroWeight string
  | InvalidSignature string
  | SignerKeyMismatch string
  | UnexpectedAuthority string string
  | QuorumNotMet u64 u64
  | UnexpectedProposer string string
  | Equivocation string u32 string
  | InvalidTendermintState string
  | TablePanic
  | OverflowPanic

text \<open>
  \<open>TablePanic\<close> is the assertion of \<open>encode_table\<close> that the table fits in 32-bit offsets;
  \<open>OverflowPanic\<close> is the panic of an unchecked \<open>+\<close> that overflows (release builds of the
  workspace keep overflow checks on).
\<close>

definition kind_from_canonical_str :: "string \<Rightarrow> consensus_error + consensus_kind" where
  "kind_from_canonical_str value =
     (if value = ''static-closed-committee'' then Ok StaticClosedCommittee
      else if value = ''proof-of-authority'' then Ok ProofOfAuthority
      else if value = ''tendermint'' then Ok Tendermint
      else Err (UnknownEngine value))"

record myelin_block =
  mb_version :: u32
  mb_session_id :: hash32
  mb_parent_hash :: hash32
  mb_number :: u64
  mb_timestamp_ms :: u64
  mb_consensus_kind :: consensus_kind
  mb_application_profile_commitment :: hash32
  mb_execution_frame_commitment :: hash32
  mb_state_root_before :: hash32
  mb_state_root_after :: hash32
  mb_ordered_cell_tx_commitments :: "hash32 list"
  mb_data_commitments :: "hash32 list"
  mb_scheduler_commitment :: hash32

definition encode_hash_vec :: "hash32 list \<Rightarrow> bytes" where
  "encode_hash_vec values = u32_le (as_u32 (length values)) @ concat values"

definition encode_table_checked :: "bytes list \<Rightarrow> consensus_error + bytes" where
  "encode_table_checked fs =
     (let header_size = 4 + length fs * 4; total_size = header_size + sum_list (map length fs)
      in if total_size < 2 ^ 32
         then Ok (pack_number total_size @ encode_offsets header_size fs @ concat fs)
         else Err TablePanic)"

definition block_fields :: "myelin_block \<Rightarrow> bytes list" where
  "block_fields b =
     [u32_le (mb_version b), mb_session_id b, mb_parent_hash b, u64_le (mb_number b), u64_le (mb_timestamp_ms b),
      str_bytes (kind_as_str (mb_consensus_kind b)), mb_application_profile_commitment b,
      mb_execution_frame_commitment b, mb_state_root_before b, mb_state_root_after b,
      encode_hash_vec (mb_ordered_cell_tx_commitments b), encode_hash_vec (mb_data_commitments b),
      mb_scheduler_commitment b]"

definition block_to_molecule_bytes :: "myelin_block \<Rightarrow> consensus_error + bytes" where
  "block_to_molecule_bytes b = encode_table_checked (block_fields b)"

definition block_hash :: "crypto_env \<Rightarrow> myelin_block \<Rightarrow> consensus_error + hash32" where
  "block_hash E b =
     res_bind (block_to_molecule_bytes b) (\<lambda>bytes. Ok (cr_blake3 E (str_bytes ''myelin:block'' @ bytes)))"

section \<open>Validators, signers, certificates\<close>

record committee_validator =
  cv_id :: string
  cv_public_key :: hash32
  cv_weight :: u64

record committee_signer =
  cs_validator_id :: string
  cs_secret_key :: bytes

record committee_signature =
  sig_validator_id :: string
  sig_signature :: bytes

record committee_certificate =
  cc_block_hash :: hash32
  cc_signatures :: "committee_signature list"

record weighted_precommit_certificate =
  wp_block_hash :: hash32
  wp_height :: u64
  wp_round :: u32
  wp_signatures :: "committee_signature list"

definition committee_signer_new :: "sig_env \<Rightarrow> string \<Rightarrow> bytes \<Rightarrow> consensus_error + committee_signer" where
  "committee_signer_new S validator_id secret_key =
     (if validator_id = [] then Err (InvalidConfig ''validator id must not be empty'')
      else if \<not> sg_secret_ok S secret_key then Err (InvalidConfig ''invalid validator secret key'')
      else Ok \<lparr>cs_validator_id = validator_id, cs_secret_key = secret_key\<rparr>)"

definition signer_public_key :: "sig_env \<Rightarrow> committee_signer \<Rightarrow> hash32" where
  "signer_public_key S signer = sg_xonly_public S (cs_secret_key signer)"

definition signer_ckb_public_key :: "sig_env \<Rightarrow> committee_signer \<Rightarrow> bytes" where
  "signer_ckb_public_key S signer = sg_compressed_public S (cs_secret_key signer)"

definition sign_ckb_recoverable :: "sig_env \<Rightarrow> committee_signer \<Rightarrow> hash32 \<Rightarrow> bytes" where
  "sign_ckb_recoverable S signer digest = sg_sign_recoverable S (cs_secret_key signer) digest"

definition signer_validator :: "sig_env \<Rightarrow> committee_signer \<Rightarrow> u64 \<Rightarrow> committee_validator" where
  "signer_validator S signer weight =
     \<lparr>cv_id = cs_validator_id signer, cv_public_key = signer_public_key S signer, cv_weight = weight\<rparr>"

definition static_signature_preimage :: "string \<Rightarrow> hash32 \<Rightarrow> bytes" where
  "static_signature_preimage validator_id bh =
     str_bytes ''myelin:static-committee-signature'' @ u32_le (as_u32 (length validator_id)) @ str_bytes validator_id @ bh"

definition static_signature_digest :: "crypto_env \<Rightarrow> string \<Rightarrow> hash32 \<Rightarrow> hash32" where
  "static_signature_digest E validator_id bh = cr_blake3 E (static_signature_preimage validator_id bh)"

definition weighted_precommit_preimage :: "string \<Rightarrow> hash32 \<Rightarrow> u64 \<Rightarrow> u32 \<Rightarrow> bytes" where
  "weighted_precommit_preimage validator_id bh height round =
     str_bytes ''myelin:weighted-precommit'' @ u64_le height @ u32_le round
     @ u32_le (as_u32 (length validator_id)) @ str_bytes validator_id @ bh"

definition weighted_precommit_digest :: "crypto_env \<Rightarrow> string \<Rightarrow> hash32 \<Rightarrow> u64 \<Rightarrow> u32 \<Rightarrow> hash32" where
  "weighted_precommit_digest E validator_id bh height round =
     cr_blake3 E (weighted_precommit_preimage validator_id bh height round)"

definition sign_digest :: "sig_env \<Rightarrow> committee_signer \<Rightarrow> hash32 \<Rightarrow> committee_signature" where
  "sign_digest S signer digest =
     \<lparr>sig_validator_id = cs_validator_id signer, sig_signature = sg_schnorr_sign S (cs_secret_key signer) digest\<rparr>"

definition sign_static :: "crypto_env \<Rightarrow> sig_env \<Rightarrow> committee_signer \<Rightarrow> hash32 \<Rightarrow> committee_signature" where
  "sign_static E S signer bh = sign_digest S signer (static_signature_digest E (cs_validator_id signer) bh)"

definition sign_precommit ::
  "crypto_env \<Rightarrow> sig_env \<Rightarrow> committee_signer \<Rightarrow> hash32 \<Rightarrow> u64 \<Rightarrow> u32 \<Rightarrow> committee_signature" where
  "sign_precommit E S signer bh height round =
     sign_digest S signer (weighted_precommit_digest E (cs_validator_id signer) bh height round)"

text \<open>\<open>Signature64\<close> is a fixed array: a byte string of another length is not a signature.\<close>

definition verify_schnorr :: "sig_env \<Rightarrow> hash32 \<Rightarrow> hash32 \<Rightarrow> bytes \<Rightarrow> bool" where
  "verify_schnorr S public_key digest signature =
     (sg_xonly_ok S public_key \<and> length signature = 64 \<and> sg_schnorr_verify S public_key digest signature)"

section \<open>Committees\<close>

type_synonym validator_map = "(string, committee_validator) btree"

record committee_config =
  cfg_validators :: "committee_validator list"
  cfg_quorum :: u64

record committee =
  cm_validators :: validator_map
  cm_quorum :: u64

definition add_validator ::
  "sig_env \<Rightarrow> validator_map \<times> u64 \<Rightarrow> committee_validator \<Rightarrow> consensus_error + validator_map \<times> u64" where
  "add_validator S st v =
     (let (validators, total) = st
      in if cv_id v = [] then Err (InvalidConfig ''validator id must not be empty'')
         else if cv_weight v = 0 then Err (ZeroWeight (cv_id v))
         else if \<not> sg_xonly_ok S (cv_public_key v) then Err (InvalidConfig ''invalid x-only public key'')
         else res_bind (ok_or (InvalidConfig ''weight overflow'') (checked_add total (cv_weight v))) (\<lambda>total.
              if bt_get validators (cv_id v) \<noteq> None then Err DuplicateValidator
              else Ok (bt_insert (cv_id v) v validators, total)))"

text \<open>\<open>StaticClosedCommittee::new\<close> and \<open>Tendermint::new\<close> are the same code but for the messages.\<close>

definition committee_new :: "sig_env \<Rightarrow> committee_config \<Rightarrow> consensus_error + committee" where
  "committee_new S config =
     (if cfg_quorum config = 0 then Err (InvalidConfig ''quorum must be non-zero'')
      else res_bind (fold_res (add_validator S) ([], 0) (cfg_validators config)) (\<lambda>(validators, total).
           if validators = [] then Err (InvalidConfig ''at least one validator'')
           else if total < cfg_quorum config then Err (InvalidConfig ''quorum exceeds total weight'')
           else Ok \<lparr>cm_validators = validators, cm_quorum = cfg_quorum config\<rparr>))"

definition static_committee_new :: "sig_env \<Rightarrow> committee_config \<Rightarrow> consensus_error + committee" where
  "static_committee_new S config = committee_new S config"

definition tendermint_new :: "sig_env \<Rightarrow> committee_config \<Rightarrow> consensus_error + committee" where
  "tendermint_new S config = committee_new S config"

definition validate_signers :: "sig_env \<Rightarrow> committee \<Rightarrow> committee_signer list \<Rightarrow> consensus_error + unit" where
  "validate_signers S c signers =
     fold_res (\<lambda>_ signer.
       res_bind (ok_or (UnknownValidator (cs_validator_id signer)) (bt_get (cm_validators c) (cs_validator_id signer))) (\<lambda>validator.
       if cv_public_key validator \<noteq> signer_public_key S signer
       then Err (SignerKeyMismatch (cs_validator_id signer)) else Ok ())) () signers"

definition certificate_from_signers ::
  "crypto_env \<Rightarrow> sig_env \<Rightarrow> committee \<Rightarrow> hash32 \<Rightarrow> committee_signer list \<Rightarrow> consensus_error + committee_certificate" where
  "certificate_from_signers E S c bh signers =
     res_bind (validate_signers S c signers) (\<lambda>_.
     Ok \<lparr>cc_block_hash = bh, cc_signatures = map (\<lambda>signer. sign_static E S signer bh) signers\<rparr>)"

definition precommit_certificate_from_signers ::
  "crypto_env \<Rightarrow> sig_env \<Rightarrow> committee \<Rightarrow> hash32 \<Rightarrow> u64 \<Rightarrow> u32 \<Rightarrow> committee_signer list
     \<Rightarrow> consensus_error + weighted_precommit_certificate" where
  "precommit_certificate_from_signers E S c bh height round signers =
     res_bind (validate_signers S c signers) (\<lambda>_.
     Ok \<lparr>wp_block_hash = bh, wp_height = height, wp_round = round,
          wp_signatures = map (\<lambda>signer. sign_precommit E S signer bh height round) signers\<rparr>)"

text \<open>The body of the loop over signatures, shared by both certificate checks.\<close>

definition tally_signature ::
  "sig_env \<Rightarrow> validator_map \<Rightarrow> (string \<Rightarrow> hash32) \<Rightarrow> string set \<times> u64 \<Rightarrow> committee_signature
     \<Rightarrow> consensus_error + string set \<times> u64" where
  "tally_signature S validators digest st signature =
     (let (seen, signed_weight) = st; id = sig_validator_id signature
      in if id \<in> seen then Err DuplicateValidator
         else res_bind (ok_or (UnknownValidator id) (bt_get validators id)) (\<lambda>validator.
              if \<not> verify_schnorr S (cv_public_key validator) (digest id) (sig_signature signature)
              then Err (InvalidSignature id)
              else res_bind (ok_or (InvalidConfig ''weight overflow'') (checked_add signed_weight (cv_weight validator))) (\<lambda>w.
                   Ok (insert id seen, w))))"

definition verify_certificate ::
  "crypto_env \<Rightarrow> sig_env \<Rightarrow> committee \<Rightarrow> hash32 \<Rightarrow> committee_certificate \<Rightarrow> consensus_error + unit" where
  "verify_certificate E S c bh certificate =
     (if cc_block_hash certificate \<noteq> bh then Err WrongBlockHash
      else res_bind (fold_res (tally_signature S (cm_validators c) (\<lambda>id. static_signature_digest E id bh)) ({}, 0)
             (cc_signatures certificate)) (\<lambda>(_, signed_weight).
           if signed_weight < cm_quorum c then Err (QuorumNotMet signed_weight (cm_quorum c)) else Ok ()))"

definition verify_precommit_certificate ::
  "crypto_env \<Rightarrow> sig_env \<Rightarrow> committee \<Rightarrow> hash32 \<Rightarrow> u64 \<Rightarrow> u32 \<Rightarrow> weighted_precommit_certificate \<Rightarrow> consensus_error + unit" where
  "verify_precommit_certificate E S c bh height round certificate =
     (if wp_block_hash certificate \<noteq> bh then Err WrongBlockHash
      else if wp_height certificate \<noteq> height then Err (WrongHeight height (wp_height certificate))
      else if wp_round certificate \<noteq> round then Err (WrongRound round (wp_round certificate))
      else res_bind (fold_res (tally_signature S (cm_validators c) (\<lambda>id. weighted_precommit_digest E id bh height round)) ({}, 0)
             (wp_signatures certificate)) (\<lambda>(_, signed_power).
           if signed_power < cm_quorum c then Err (QuorumNotMet signed_power (cm_quorum c)) else Ok ()))"

record finalised_block =
  fb_block :: myelin_block
  fb_block_hash :: hash32
  fb_certificate :: committee_certificate

definition finalise_block ::
  "crypto_env \<Rightarrow> sig_env \<Rightarrow> committee \<Rightarrow> myelin_block \<Rightarrow> committee_certificate \<Rightarrow> consensus_error + finalised_block" where
  "finalise_block E S c block certificate =
     (if mb_consensus_kind block \<noteq> StaticClosedCommittee
      then Err (WrongEngine StaticClosedCommittee (mb_consensus_kind block))
      else res_bind (block_hash E block) (\<lambda>bh.
           res_bind (verify_certificate E S c bh certificate) (\<lambda>_.
           Ok \<lparr>fb_block = block, fb_block_hash = bh, fb_certificate = certificate\<rparr>)))"

record finalised_weighted_precommit_block =
  fw_block :: myelin_block
  fw_block_hash :: hash32
  fw_round :: u32
  fw_certificate :: weighted_precommit_certificate

definition finalise_block_with_precommit ::
  "crypto_env \<Rightarrow> sig_env \<Rightarrow> committee \<Rightarrow> myelin_block \<Rightarrow> u32 \<Rightarrow> weighted_precommit_certificate
     \<Rightarrow> consensus_error + finalised_weighted_precommit_block" where
  "finalise_block_with_precommit E S c block round certificate =
     (if mb_consensus_kind block \<noteq> Tendermint then Err (WrongEngine Tendermint (mb_consensus_kind block))
      else res_bind (block_hash E block) (\<lambda>bh.
           res_bind (verify_precommit_certificate E S c bh (mb_number block) round certificate) (\<lambda>_.
           Ok \<lparr>fw_block = block, fw_block_hash = bh, fw_round = round, fw_certificate = certificate\<rparr>)))"

section \<open>Configuration commitments\<close>

definition put_config_bytes :: "bytes \<Rightarrow> bytes" where
  "put_config_bytes bs = u64_le (as_u64 (length bs)) @ bs"

definition validator_config_bytes :: "committee_validator \<Rightarrow> bytes" where
  "validator_config_bytes v = put_config_bytes (str_bytes (cv_id v)) @ cv_public_key v @ u64_le (cv_weight v)"

definition validator_config_preimage :: "consensus_kind \<Rightarrow> u64 \<Rightarrow> committee_validator list \<Rightarrow> bytes" where
  "validator_config_preimage kind quorum validators =
     str_bytes ''myelin:consensus-config'' @ put_config_bytes (str_bytes (kind_as_str kind)) @ u64_le quorum
     @ u64_le (as_u64 (length validators)) @ concat (map validator_config_bytes (sort_key cv_id validators))"

definition validator_config_commitment :: "crypto_env \<Rightarrow> consensus_kind \<Rightarrow> u64 \<Rightarrow> committee_validator list \<Rightarrow> hash32" where
  "validator_config_commitment E kind quorum validators =
     cr_blake3 E (validator_config_preimage kind quorum validators)"

definition committee_config_commitment :: "crypto_env \<Rightarrow> consensus_kind \<Rightarrow> committee \<Rightarrow> hash32" where
  "committee_config_commitment E kind c =
     validator_config_commitment E kind (cm_quorum c) (bt_values (cm_validators c))"

section \<open>Voting power\<close>

definition weight_in :: "validator_map \<Rightarrow> string \<Rightarrow> nat" where
  "weight_in m i = (case bt_get m i of Some v \<Rightarrow> unat (cv_weight v) | None \<Rightarrow> 0)"

definition voting_power :: "validator_map \<Rightarrow> string set \<Rightarrow> nat" where
  "voting_power m I = sum (weight_in m) I"

abbreviation members :: "validator_map \<Rightarrow> string set" where
  "members m \<equiv> dom (bt_get m)"

definition validator_ok :: "sig_env \<Rightarrow> committee_validator \<Rightarrow> bool" where
  "validator_ok S v = (cv_id v \<noteq> [] \<and> cv_weight v \<noteq> 0 \<and> sg_xonly_ok S (cv_public_key v))"

definition committee_ok :: "sig_env \<Rightarrow> committee \<Rightarrow> bool" where
  "committee_ok S c \<longleftrightarrow> bt_wf (cm_validators c) \<and>
     (\<forall>id v. bt_get (cm_validators c) id = Some v \<longrightarrow> cv_id v = id \<and> validator_ok S v) \<and>
     voting_power (cm_validators c) (members (cm_validators c)) < 2 ^ 64 \<and>
     0 < unat (cm_quorum c) \<and> unat (cm_quorum c) \<le> voting_power (cm_validators c) (members (cm_validators c))"

lemma power_mono: "I \<subseteq> J \<Longrightarrow> finite J \<Longrightarrow> voting_power m I \<le> voting_power m J"
  unfolding voting_power_def by (rule sum_mono2) auto

lemma power_insert: "finite I \<Longrightarrow> i \<notin> I \<Longrightarrow> voting_power m (insert i I) = weight_in m i + voting_power m I"
  by (simp add: voting_power_def)

lemma power_empty [simp]: "voting_power m {} = 0"
  by (simp add: voting_power_def)

text \<open>Two sets of members overlap at least in what they hold beyond the total.\<close>

lemma power_overlap:
  assumes "finite M" "I \<subseteq> M" "J \<subseteq> M"
  shows "voting_power m I + voting_power m J \<le> voting_power m M + voting_power m (I \<inter> J)"
proof -
  have fin: "finite I" "finite J" using assms finite_subset by blast+
  have "voting_power m I + voting_power m J = voting_power m (I \<union> J) + voting_power m (I \<inter> J)"
    unfolding voting_power_def using fin by (simp add: sum.union_inter)
  moreover have "voting_power m (I \<union> J) \<le> voting_power m M" using assms by (intro power_mono) auto
  ultimately show ?thesis by simp
qed

section \<open>Building a committee\<close>

definition validators_ok :: "sig_env \<Rightarrow> committee_validator list \<Rightarrow> bool" where
  "validators_ok S vs = (list_all (validator_ok S) vs \<and> distinct (map cv_id vs) \<and>
     (\<Sum>v\<leftarrow>vs. unat (cv_weight v)) < 2 ^ 64)"

definition validators_table :: "committee_validator list \<Rightarrow> (string \<times> committee_validator) list" where
  "validators_table vs = map (\<lambda>v. (cv_id v, v)) vs"

definition added :: "committee_validator list \<Rightarrow> validator_map \<times> u64 \<Rightarrow> bool" where
  "added vs st = (bt_wf (fst st) \<and> bt_get (fst st) = map_of (validators_table vs) \<and>
     unat (snd st) = (\<Sum>v\<leftarrow>vs. unat (cv_weight v)))"

lemma map_of_table_None: "map_of (validators_table vs) i = None \<longleftrightarrow> i \<notin> set (map cv_id vs)"
  by (simp add: validators_table_def map_of_eq_None_iff image_image)

lemma map_of_table_snoc:
  "cv_id v \<notin> set (map cv_id vs) \<Longrightarrow>
   map_of (validators_table (vs @ [v])) = (map_of (validators_table vs))(cv_id v \<mapsto> v)"
  using map_of_table_None[of vs "cv_id v"]
  by (auto simp: fun_eq_iff validators_table_def map_add_def split: option.splits)

lemma add_validator_step:
  assumes "added vs st" "validators_ok S vs"
  shows "res_iff (validators_ok S (vs @ [v])) (added (vs @ [v])) (add_validator S st v)"
proof -
  obtain m t where st: "st = (m, t)" by (cases st)
  have m: "bt_wf m" "bt_get m = map_of (validators_table vs)" "unat t = (\<Sum>v\<leftarrow>vs. unat (cv_weight v))"
    using assms(1) by (simp_all add: st added_def)
  have ok: "validators_ok S (vs @ [v]) \<longleftrightarrow> validator_ok S v \<and> cv_id v \<notin> set (map cv_id vs) \<and>
      unat t + unat (cv_weight v) < 2 ^ 64"
    using assms(2) by (auto simp: validators_ok_def m(3))
  consider (bad) "\<not> validator_ok S v" | (over) "validator_ok S v" "2 ^ 64 \<le> unat t + unat (cv_weight v)"
    | (dup) "validator_ok S v" "unat t + unat (cv_weight v) < 2 ^ 64" "cv_id v \<in> set (map cv_id vs)"
    | (good) "validator_ok S v" "unat t + unat (cv_weight v) < 2 ^ 64" "cv_id v \<notin> set (map cv_id vs)"
    by force
  then show ?thesis
  proof cases
    case bad
    then show ?thesis unfolding ok by (auto simp: st add_validator_def validator_ok_def)
  next
    case over
    then show ?thesis unfolding ok by (auto simp: st add_validator_def checked_add_def)
  next
    case dup
    then have "bt_get m (cv_id v) \<noteq> None" using map_of_table_None[of vs "cv_id v"] by (simp add: m(2))
    with dup show ?thesis unfolding ok by (auto simp: st add_validator_def checked_add_def)
  next
    case good
    then have "bt_get m (cv_id v) = None" using map_of_table_None[of vs "cv_id v"] by (simp add: m(2))
    moreover have "added (vs @ [v]) (bt_insert (cv_id v) v m, t + cv_weight v)"
      using good m by (simp add: added_def bt_simps map_of_table_snoc bt_wf_insert unat_add_exact)
    ultimately show ?thesis
      using good unfolding ok by (simp add: st add_validator_def checked_add_def validator_ok_def)
  qed
qed

lemma add_validators_spec: "res_iff (validators_ok S vs) (added vs) (fold_res (add_validator S) ([], 0) vs)"
proof (induction vs rule: rev_induct)
  case Nil
  then show ?case by (simp add: validators_ok_def added_def validators_table_def bt_simps)
next
  case (snoc v vs)
  have "res_iff (validators_ok S vs \<and> validators_ok S (vs @ [v])) (added (vs @ [v]))
      (fold_res (add_validator S) ([], 0) (vs @ [v]))"
    unfolding fold_res_snoc by (rule res_iff_bind[OF snoc.IH]) (rule add_validator_step)
  then show ?case by (rule res_iff_cong) (auto simp: validators_ok_def)
qed

lemma power_table:
  assumes "distinct (map cv_id vs)" "bt_get m = map_of (validators_table vs)"
  shows "voting_power m (members m) = (\<Sum>v\<leftarrow>vs. unat (cv_weight v))"
proof -
  have dom: "members m = set (map cv_id vs)"
    by (simp add: assms(2) dom_map_of_conv_image_fst validators_table_def image_image)
  have w: "weight_in m (cv_id v) = unat (cv_weight v)" if "v \<in> set vs" for v
  proof -
    have "map_of (validators_table vs) (cv_id v) = Some v"
      using assms(1) that by (intro map_of_is_SomeI) (auto simp: validators_table_def comp_def)
    then show ?thesis by (simp add: weight_in_def assms(2))
  qed
  have "voting_power m (members m) = (\<Sum>i\<leftarrow>map cv_id vs. weight_in m i)"
    unfolding voting_power_def dom using assms(1) by (simp only: sum_list_distinct_conv_sum_set)
  also have "\<dots> = (\<Sum>v\<leftarrow>vs. unat (cv_weight v))"
    unfolding map_map by (rule arg_cong[where f = sum_list]) (simp add: w)
  finally show ?thesis .
qed

definition committee_config_ok :: "sig_env \<Rightarrow> committee_config \<Rightarrow> bool" where
  "committee_config_ok S config = (cfg_quorum config \<noteq> 0 \<and> validators_ok S (cfg_validators config) \<and>
     unat (cfg_quorum config) \<le> (\<Sum>v\<leftarrow>cfg_validators config. unat (cv_weight v)))"

lemma committee_new_spec:
  "res_iff (committee_config_ok S config)
     (\<lambda>c. cm_quorum c = cfg_quorum config \<and> bt_wf (cm_validators c) \<and>
          bt_get (cm_validators c) = map_of (validators_table (cfg_validators config)))
     (committee_new S config)"
proof (cases "cfg_quorum config = 0")
  case False
  let ?vs = "cfg_validators config" and ?q = "cfg_quorum config"
  have q: "0 < unat ?q" using False by (simp add: unat_gt_0)
  have "res_iff (validators_ok S ?vs \<and> unat ?q \<le> (\<Sum>v\<leftarrow>?vs. unat (cv_weight v)))
     (\<lambda>c. cm_quorum c = ?q \<and> bt_wf (cm_validators c) \<and> bt_get (cm_validators c) = map_of (validators_table ?vs))
     (committee_new S config)"
    unfolding committee_new_def using False
  proof (simp only: if_False, intro res_iff_bind[OF add_validators_spec], goal_cases)
    case (1 x)
    obtain m t where x: "x = (m, t)" by (cases x)
    have m: "bt_wf m" "bt_get m = map_of (validators_table ?vs)" "unat t = (\<Sum>v\<leftarrow>?vs. unat (cv_weight v))"
      using 1 by (simp_all add: x added_def)
    have none: "m = [] \<Longrightarrow> unat t = 0"
      using power_table[OF _ m(2)] 1 by (simp add: validators_ok_def m(3) bt_simps)
    show ?case
      unfolding m(3)[symmetric] x split_conv using none q m(1,2) by (auto simp: word_less_nat_alt)
  qed
  then show ?thesis by (rule res_iff_cong) (auto simp: committee_config_ok_def False)
qed (simp add: committee_new_def committee_config_ok_def)

lemma committee_new_ok:
  assumes "committee_new S config = Ok c"
  shows "committee_ok S c"
proof -
  let ?vs = "cfg_validators config" and ?m = "cm_validators c"
  have cfg: "committee_config_ok S config" and q: "cm_quorum c = cfg_quorum config" and w: "bt_wf ?m"
    and g: "bt_get ?m = map_of (validators_table ?vs)"
    using res_iff_OkD[OF committee_new_spec assms] by auto
  have vs: "list_all (validator_ok S) ?vs" "distinct (map cv_id ?vs)" "(\<Sum>v\<leftarrow>?vs. unat (cv_weight v)) < 2 ^ 64"
    using cfg by (simp_all add: committee_config_ok_def validators_ok_def)
  have "cv_id v = i \<and> validator_ok S v" if "bt_get ?m i = Some v" for i v
    using that vs(1) unfolding g by (auto dest!: map_of_SomeD simp: validators_table_def list_all_iff)
  then show ?thesis
    using w cfg q vs(3) power_table[OF vs(2) g]
    by (simp add: committee_ok_def committee_config_ok_def unat_gt_0)
qed

section \<open>Certificates\<close>

definition signed_by :: "sig_env \<Rightarrow> validator_map \<Rightarrow> (string \<Rightarrow> hash32) \<Rightarrow> string \<Rightarrow> bytes \<Rightarrow> bool" where
  "signed_by S m digest i signature =
     (case bt_get m i of Some v \<Rightarrow> verify_schnorr S (cv_public_key v) (digest i) signature | None \<Rightarrow> False)"

definition signatures_valid :: "sig_env \<Rightarrow> validator_map \<Rightarrow> (string \<Rightarrow> hash32) \<Rightarrow> committee_signature list \<Rightarrow> bool" where
  "signatures_valid S m digest sigs = (distinct (map sig_validator_id sigs) \<and>
     list_all (\<lambda>g. signed_by S m digest (sig_validator_id g) (sig_signature g)) sigs)"

definition signer_set :: "committee_signature list \<Rightarrow> string set" where
  "signer_set sigs = set (map sig_validator_id sigs)"

definition tallied :: "validator_map \<Rightarrow> string set \<Rightarrow> string set \<times> u64 \<Rightarrow> bool" where
  "tallied m I st = (fst st = I \<and> I \<subseteq> members m \<and> unat (snd st) = voting_power m I)"

lemma tally_step:
  assumes "voting_power m (members m) < 2 ^ 64" "tallied m I st"
  shows "res_iff (sig_validator_id g \<notin> I \<and> signed_by S m digest (sig_validator_id g) (sig_signature g))
           (tallied m (insert (sig_validator_id g) I)) (tally_signature S m digest st g)"
proof -
  let ?i = "sig_validator_id g"
  obtain w where st: "st = (I, w)" and w: "unat w = voting_power m I" "I \<subseteq> members m"
    using assms(2) by (cases st) (auto simp: tallied_def)
  show ?thesis
  proof (cases "?i \<in> I \<or> \<not> signed_by S m digest ?i (sig_signature g)")
    case True
    then show ?thesis by (auto simp: st tally_signature_def signed_by_def Let_def split: option.splits)
  next
    case False
    then obtain v where v: "bt_get m ?i = Some v" "verify_schnorr S (cv_public_key v) (digest ?i) (sig_signature g)"
      by (auto simp: signed_by_def split: option.splits)
    have fin: "finite I" using w(2) finite_subset by fastforce
    have sub: "insert ?i I \<subseteq> members m" using v(1) w(2) by auto
    have ins: "voting_power m (insert ?i I) = unat (cv_weight v) + unat w"
      using False fin by (simp add: power_insert w(1) weight_in_def v(1))
    then have "unat w + unat (cv_weight v) < 2 ^ 64"
      using power_mono[OF sub, of m] assms(1) by simp
    then show ?thesis
      using False v sub ins by (simp add: st tally_signature_def Let_def checked_add_def tallied_def unat_add_exact)
  qed
qed

lemma tally_spec:
  assumes "voting_power m (members m) < 2 ^ 64"
  shows "res_iff (signatures_valid S m digest sigs) (tallied m (signer_set sigs))
           (fold_res (tally_signature S m digest) ({}, 0) sigs)"
proof (induction sigs rule: rev_induct)
  case Nil
  then show ?case by (simp add: signatures_valid_def tallied_def signer_set_def)
next
  case (snoc g sigs)
  have "res_iff (signatures_valid S m digest sigs \<and> (sig_validator_id g \<notin> signer_set sigs \<and>
        signed_by S m digest (sig_validator_id g) (sig_signature g)))
      (tallied m (insert (sig_validator_id g) (signer_set sigs))) (fold_res (tally_signature S m digest) ({}, 0) (sigs @ [g]))"
    unfolding fold_res_snoc by (rule res_iff_bind[OF snoc.IH]) (rule tally_step[OF assms])
  then show ?case by (rule res_iff_cong) (auto simp: signatures_valid_def signer_set_def)
qed

definition quorum_certified :: "sig_env \<Rightarrow> committee \<Rightarrow> (string \<Rightarrow> hash32) \<Rightarrow> committee_signature list \<Rightarrow> bool" where
  "quorum_certified S c digest sigs = (signatures_valid S (cm_validators c) digest sigs \<and>
     unat (cm_quorum c) \<le> voting_power (cm_validators c) (signer_set sigs))"

lemma tally_quorum:
  assumes "committee_ok S c"
  shows "res_bind (fold_res (tally_signature S (cm_validators c) digest) ({}, 0) sigs) (\<lambda>(_, w).
      if w < cm_quorum c then Err (QuorumNotMet w (cm_quorum c)) else Ok ()) = Ok () \<longleftrightarrow> quorum_certified S c digest sigs"
proof -
  let ?m = "cm_validators c"
  have "voting_power ?m (members ?m) < 2 ^ 64" using assms by (simp add: committee_ok_def)
  note t = tally_spec[OF this, of S digest sigs]
  show ?thesis
  proof (cases "fold_res (tally_signature S ?m digest) ({}, 0) sigs")
    case (Inr x)
    obtain I w where x: "x = (I, w)" by (cases x)
    have "signatures_valid S ?m digest sigs" "unat w = voting_power ?m (signer_set sigs)"
      using t by (simp_all add: Inr x tallied_def)
    then show ?thesis by (simp add: Inr x quorum_certified_def word_less_nat_alt)
  qed (use t in \<open>simp add: quorum_certified_def\<close>)
qed

lemma verify_certificate_iff:
  "committee_ok S c \<Longrightarrow> verify_certificate E S c bh x = Ok () \<longleftrightarrow>
     cc_block_hash x = bh \<and> quorum_certified S c (\<lambda>i. static_signature_digest E i bh) (cc_signatures x)"
  by (simp add: verify_certificate_def tally_quorum)

lemma verify_precommit_certificate_iff:
  "committee_ok S c \<Longrightarrow> verify_precommit_certificate E S c bh h r x = Ok () \<longleftrightarrow>
     wp_block_hash x = bh \<and> wp_height x = h \<and> wp_round x = r \<and>
     quorum_certified S c (\<lambda>i. weighted_precommit_digest E i bh h r) (wp_signatures x)"
  by (simp add: verify_precommit_certificate_def tally_quorum)

section \<open>Quorum intersection\<close>

text \<open>
  What an engine needs of its certificates: an accepted one names members only, each of which has
  signed, and holds a quorum. Then two accepted certificates share signers.
\<close>

locale quorum_certificates =
  fixes ok :: "'c \<Rightarrow> bool" and vals :: "'c \<Rightarrow> validator_map" and quorum :: "'c \<Rightarrow> nat"
    and accepts :: "'c \<Rightarrow> 'm \<Rightarrow> 'x \<Rightarrow> bool" and signers :: "'x \<Rightarrow> string set"
    and signed :: "'c \<Rightarrow> 'm \<Rightarrow> 'x \<Rightarrow> string \<Rightarrow> bool"
  assumes members_sign: "ok c \<Longrightarrow> accepts c m x \<Longrightarrow> i \<in> signers x \<Longrightarrow> i \<in> members (vals c) \<and> signed c m x i"
    and quorum_reached: "ok c \<Longrightarrow> accepts c m x \<Longrightarrow> quorum c \<le> voting_power (vals c) (signers x)"
begin

lemma overlap:
  assumes "ok c" "accepts c m x" "accepts c m' y"
  shows "2 * quorum c \<le> voting_power (vals c) (members (vals c)) + voting_power (vals c) (signers x \<inter> signers y)"
proof -
  have "signers x \<subseteq> members (vals c)" "signers y \<subseteq> members (vals c)"
    using members_sign[OF assms(1,2)] members_sign[OF assms(1,3)] by blast+
  from power_overlap[OF finite_dom_bt_get this, of "vals c"]
  show ?thesis using quorum_reached[OF assms(1,2)] quorum_reached[OF assms(1,3)] by linarith
qed

text \<open>Outside any set of members too light to fill the overlap there is one that signed both.\<close>

lemma common_signer:
  assumes "ok c" "accepts c m x" "accepts c m' y"
    and "voting_power (vals c) (members (vals c)) + voting_power (vals c) F < 2 * quorum c" "finite F"
  shows "\<exists>i. i \<notin> F \<and> signed c m x i \<and> signed c m' y i"
proof (rule ccontr)
  assume none: "\<not> ?thesis"
  have "signers x \<inter> signers y \<subseteq> F"
    using none members_sign[OF assms(1,2)] members_sign[OF assms(1,3)] by blast
  then have "voting_power (vals c) (signers x \<inter> signers y) \<le> voting_power (vals c) F" by (rule power_mono) (rule assms(5))
  with overlap[OF assms(1-3)] assms(4) show False by linarith
qed

end

text \<open>The certificate carries a signature of this validator that verifies.\<close>

definition has_signed :: "sig_env \<Rightarrow> validator_map \<Rightarrow> (string \<Rightarrow> hash32) \<Rightarrow> committee_signature list \<Rightarrow> string \<Rightarrow> bool" where
  "has_signed S m digest sigs i = list_ex (\<lambda>g. sig_validator_id g = i \<and> signed_by S m digest i (sig_signature g)) sigs"

lemma quorum_certified_signers:
  assumes "quorum_certified S c digest sigs" "i \<in> signer_set sigs"
  shows "i \<in> members (cm_validators c) \<and> has_signed S (cm_validators c) digest sigs i"
proof -
  from assms(2) obtain g where g: "g \<in> set sigs" "i = sig_validator_id g" by (auto simp: signer_set_def)
  with assms(1) have "signed_by S (cm_validators c) digest i (sig_signature g)"
    by (simp add: quorum_certified_def signatures_valid_def list_all_iff)
  with g show ?thesis by (auto simp: has_signed_def list_ex_iff signed_by_def split: option.splits)
qed

lemma quorum_certified_power:
  "quorum_certified S c digest sigs \<Longrightarrow> unat (cm_quorum c) \<le> voting_power (cm_validators c) (signer_set sigs)"
  by (simp add: quorum_certified_def)

interpretation static_certificates: quorum_certificates
  "committee_ok S" cm_validators "\<lambda>c. unat (cm_quorum c)" "\<lambda>c bh x. verify_certificate E S c bh x = Ok ()"
  "\<lambda>x. signer_set (cc_signatures x)"
  "\<lambda>c bh x. has_signed S (cm_validators c) (\<lambda>i. static_signature_digest E i bh) (cc_signatures x)"
  for E S
  by unfold_locales (auto simp: verify_certificate_iff quorum_certified_power dest: quorum_certified_signers)

interpretation precommit_certificates: quorum_certificates
  "committee_ok S" cm_validators "\<lambda>c. unat (cm_quorum c)"
  "\<lambda>c (bh, h, r) x. verify_precommit_certificate E S c bh h r x = Ok ()"
  "\<lambda>x. signer_set (wp_signatures x)"
  "\<lambda>c (bh, h, r) x. has_signed S (cm_validators c) (\<lambda>i. weighted_precommit_digest E i bh h r) (wp_signatures x)"
  for E S
  by unfold_locales (auto simp: verify_precommit_certificate_iff quorum_certified_power dest: quorum_certified_signers)

section \<open>Block bytes\<close>

definition wf_block :: "myelin_block \<Rightarrow> bool" where
  "wf_block b \<longleftrightarrow> list_all (\<lambda>h. length h = 32)
     ([mb_session_id b, mb_parent_hash b, mb_application_profile_commitment b, mb_execution_frame_commitment b,
       mb_state_root_before b, mb_state_root_after b, mb_scheduler_commitment b]
      @ mb_ordered_cell_tx_commitments b @ mb_data_commitments b)"

lemma kind_as_str_inj [simp]: "kind_as_str k = kind_as_str k' \<longleftrightarrow> k = k'"
  by (cases k; cases k') simp_all

lemma kind_round_trip: "kind_from_canonical_str v = Ok k \<longleftrightarrow> v = kind_as_str k"
  by (cases k) (auto simp: kind_from_canonical_str_def)

lemma encode_table_checked_Ok:
  "encode_table_checked fs = Ok bs \<longleftrightarrow> table_size fs < 2 ^ 32 \<and> bs = encode_table fs"
proof -
  have "table_size fs = 4 + length fs * 4 + sum_list (map length fs)" by (simp add: table_size_def)
  then show ?thesis by (auto simp: encode_table_checked_def encode_table_def Let_def algebra_simps)
qed

lemma encode_table_checked_inj:
  assumes "encode_table_checked fs = Ok bs" "encode_table_checked gs = Ok bs" "length fs = length gs" "fs \<noteq> []"
  shows "fs = gs"
proof -
  have f: "table_size fs < 2 ^ 32" "table_size gs < 2 ^ 32" "encode_table fs = encode_table gs" "gs \<noteq> []"
    using assms by (auto simp: encode_table_checked_Ok)
  have "decode_table (encode_table fs) (length fs) [] = Ok fs" by (rule decode_table_encode[OF assms(4) f(1)])
  moreover have "decode_table (encode_table gs) (length gs) [] = Ok gs" by (rule decode_table_encode[OF f(4) f(2)])
  ultimately show ?thesis unfolding f(3) assms(3) by simp
qed

lemma concat_hashes_inj:
  assumes "list_all (\<lambda>h. length h = 32) xs" "list_all (\<lambda>h. length h = 32) ys" "concat xs = concat ys"
  shows "xs = ys"
proof -
  have len: "length (concat zs) = 32 * length zs" if "list_all (\<lambda>h. length h = 32) zs" for zs :: "'a list list"
    using that by (induction zs) auto
  have "length xs = length ys" using len[OF assms(1)] len[OF assms(2)] assms(3) by simp
  then show ?thesis
    using assms
  proof (induction xs ys rule: list_induct2)
    case (Cons x xs y ys)
    have "x = y \<and> concat xs = concat ys"
      using Cons.prems append_eq_append_conv[of x y "concat xs" "concat ys"] by simp
    with Cons show ?case by simp
  qed simp
qed

lemma encode_hash_vec_inj:
  assumes "list_all (\<lambda>h. length h = 32) xs" "list_all (\<lambda>h. length h = 32) ys" "encode_hash_vec xs = encode_hash_vec ys"
  shows "xs = ys"
  using concat_hashes_inj[OF assms(1,2)] assms(3) by (simp add: encode_hash_vec_def append_eq_append_conv)

lemma block_bytes_inj:
  assumes "wf_block a" "wf_block b" "block_to_molecule_bytes a = Ok bs" "block_to_molecule_bytes b = Ok bs"
  shows "a = b"
proof -
  have f: "block_fields a = block_fields b"
    by (rule encode_table_checked_inj) (use assms(3,4) in \<open>simp_all add: block_to_molecule_bytes_def block_fields_def\<close>)
  have "mb_ordered_cell_tx_commitments a = mb_ordered_cell_tx_commitments b"
    "mb_data_commitments a = mb_data_commitments b"
    using f assms(1,2) by (auto simp: block_fields_def wf_block_def intro!: encode_hash_vec_inj)
  with f show ?thesis by (cases a; cases b) (simp add: block_fields_def)
qed

lemma block_hash_Ok:
  "block_hash E b = Ok h \<longleftrightarrow> (\<exists>bs. block_to_molecule_bytes b = Ok bs \<and> h = cr_blake3 E (str_bytes ''myelin:block'' @ bs))"
  by (auto simp: block_hash_def res_simps)

section \<open>Producing certificates\<close>

lemma validate_signers_iff:
  "validate_signers S c signers = Ok () \<longleftrightarrow>
     list_all (\<lambda>g. \<exists>v. bt_get (cm_validators c) (cs_validator_id g) = Some v \<and> cv_public_key v = signer_public_key S g) signers"
  by (induction signers) (auto simp: validate_signers_def res_simps split: if_splits)

lemma signed_static_valid:
  assumes "sig_env_ok S" "committee_ok S c" "list_all (\<lambda>g. sg_secret_ok S (cs_secret_key g)) signers"
    "validate_signers S c signers = Ok ()" "distinct (map cs_validator_id signers)"
  shows "signatures_valid S (cm_validators c) digest (map (\<lambda>g. sign_digest S g (digest (cs_validator_id g))) signers)"
proof -
  have "signed_by S (cm_validators c) digest (cs_validator_id g) (sg_schnorr_sign S (cs_secret_key g) (digest (cs_validator_id g)))"
    if g: "g \<in> set signers" for g
  proof -
    obtain v where v: "bt_get (cm_validators c) (cs_validator_id g) = Some v" "cv_public_key v = signer_public_key S g"
      using assms(4) g by (auto simp: validate_signers_iff list_all_iff)
    have "sg_secret_ok S (cs_secret_key g)" using assms(3) g by (simp add: list_all_iff)
    then show ?thesis using assms(1) v by (simp add: signed_by_def verify_schnorr_def sig_env_ok_def signer_public_key_def)
  qed
  then show ?thesis using assms(5) by (simp add: signatures_valid_def sign_digest_def list_all_iff comp_def)
qed

section \<open>The configuration commitment\<close>

definition keys_32 :: "committee_validator list \<Rightarrow> bool" where
  "keys_32 vs = list_all (\<lambda>v. length (cv_public_key v) = 32 \<and> short64 (cv_id v)) vs"

lemma short64_str_bytes [simp]: "short64 (str_bytes s) = short64 s"
  by (simp add: short64_def)

interpretation validator_code: prefix_code validator_config_bytes
  "\<lambda>v. length (cv_public_key v) = 32 \<and> short64 (cv_id v)"
proof
  fix v w r s
  assume v: "length (cv_public_key v) = 32 \<and> short64 (cv_id v)" and w: "length (cv_public_key w) = 32 \<and> short64 (cv_id w)"
    and eq: "validator_config_bytes v @ r = validator_config_bytes w @ s"
  have "len64_bytes (str_bytes (cv_id v)) @ cv_public_key v @ u64_le (cv_weight v) @ r =
      len64_bytes (str_bytes (cv_id w)) @ cv_public_key w @ u64_le (cv_weight w) @ s"
    using eq by (simp add: validator_config_bytes_def put_config_bytes_def len64_bytes_def)
  from len64_code.prefix_inj[OF _ _ this] v w
  have i: "cv_id v = cv_id w" and rest: "cv_public_key v @ u64_le (cv_weight v) @ r = cv_public_key w @ u64_le (cv_weight w) @ s"
    by auto
  have k: "cv_public_key v = cv_public_key w" and t: "u64_le (cv_weight v) @ r = u64_le (cv_weight w) @ s"
    using rest v w append_eq_append_conv[of "cv_public_key v" "cv_public_key w"] by auto
  from u64_code.prefix_inj[OF _ _ t] i k show "v = w \<and> r = s"
    by (cases v; cases w) simp
qed

lemma sort_bt_values:
  assumes "bt_wf m" "\<And>i v. bt_get m i = Some v \<Longrightarrow> cv_id v = i"
  shows "sort_key cv_id (bt_values m) = bt_values m"
proof -
  have "map cv_id (bt_values m) = map fst m"
    using assms(2) unfolding bt_values_def by (auto simp: bt_get_eq_Some[OF assms(1)])
  moreover have "sorted (map fst m)"
    using assms(1) by (simp add: bt_wf_def strict_sorted_imp_sorted)
  ultimately show ?thesis by (intro sort_key_id_if_sorted) simp
qed

lemma bt_values_inj:
  assumes "bt_values m = bt_values m'" "map fst m = map cv_id (bt_values m)" "map fst m' = map cv_id (bt_values m')"
  shows "m = m'"
proof -
  have "map snd m = map snd m'" "map fst m = map fst m'"
    unfolding assms(2,3) using assms(1) by (simp_all add: bt_values_def)
  then have "zip (map fst m) (map snd m) = zip (map fst m') (map snd m')" by (simp only:)
  then show ?thesis by (simp add: zip_map_fst_snd)
qed

lemma config_preimage_inj:
  assumes ok: "committee_ok S c" "committee_ok S c'"
    and k: "keys_32 (bt_values (cm_validators c))" "keys_32 (bt_values (cm_validators c'))"
    and sh: "short64 (cm_validators c)" "short64 (cm_validators c')"
    and eq: "validator_config_preimage kind (cm_quorum c) (bt_values (cm_validators c)) =
        validator_config_preimage kind' (cm_quorum c') (bt_values (cm_validators c'))"
  shows "kind = kind' \<and> c = c'"
proof -
  let ?m = "cm_validators c" and ?m' = "cm_validators c'"
  have wf: "bt_wf ?m" "bt_wf ?m'" and ids: "\<And>i v. bt_get ?m i = Some v \<Longrightarrow> cv_id v = i"
    "\<And>i v. bt_get ?m' i = Some v \<Longrightarrow> cv_id v = i"
    using ok by (auto simp: committee_ok_def)
  have len: "length (bt_values n) = length n" for n :: validator_map by (simp add: bt_values_def)
  have bytes: "len64_bytes (str_bytes (kind_as_str kind)) @ u64_le (cm_quorum c) @ u64_le (as_u64 (length ?m)) @
        concat (map validator_config_bytes (bt_values ?m)) @ [] =
      len64_bytes (str_bytes (kind_as_str kind')) @ u64_le (cm_quorum c') @ u64_le (as_u64 (length ?m')) @
        concat (map validator_config_bytes (bt_values ?m')) @ []"
    using eq by (simp add: validator_config_preimage_def put_config_bytes_def len64_bytes_def len
        sort_bt_values[OF wf(1) ids(1)] sort_bt_values[OF wf(2) ids(2)])
  have ks: "short64 (str_bytes (kind_as_str k))" for k by (cases k) (simp_all add: short64_def)
  from len64_code.prefix_inj[OF ks ks bytes]
  have kq: "kind = kind'" and tail: "u64_le (cm_quorum c) @ u64_le (as_u64 (length ?m)) @
        concat (map validator_config_bytes (bt_values ?m)) @ [] =
      u64_le (cm_quorum c') @ u64_le (as_u64 (length ?m')) @ concat (map validator_config_bytes (bt_values ?m')) @ []"
    by simp_all
  from u64_code.prefix_inj[OF TrueI TrueI tail]
  have q: "cm_quorum c = cm_quorum c'" and tail2: "u64_le (as_u64 (length ?m)) @ concat (map validator_config_bytes (bt_values ?m)) @ [] =
      u64_le (as_u64 (length ?m')) @ concat (map validator_config_bytes (bt_values ?m')) @ []" by auto
  from u64_code.prefix_inj[OF TrueI TrueI tail2]
  have n: "(as_u64 (length ?m) :: u64) = as_u64 (length ?m')"
    and vs: "concat (map validator_config_bytes (bt_values ?m)) @ [] = concat (map validator_config_bytes (bt_values ?m')) @ []"
    by auto
  have "length (bt_values ?m) = length (bt_values ?m')"
    using as_u64_inj[OF n] sh by (simp add: len short64_def)
  then have "bt_values ?m = bt_values ?m'"
    using validator_code.concat_inj[OF _ _ _ vs] k by (auto simp: keys_32_def list_all_iff)
  moreover have "map fst n = map cv_id (bt_values n)" if "bt_wf n" "\<And>i v. bt_get n i = Some v \<Longrightarrow> cv_id v = i" for n
    using that(2) unfolding bt_values_def by (auto simp: bt_get_eq_Some[OF that(1)])
  ultimately have "?m = ?m'" using wf ids by (intro bt_values_inj) blast+
  with kq q show ?thesis by (cases c; cases c') simp
qed

section \<open>Properties\<close>

definition sample_signer :: "string \<Rightarrow> u8 \<Rightarrow> committee_signer" where
  "sample_signer name seed = \<lparr>cs_validator_id = name, cs_secret_key = replicate 32 seed\<rparr>"

definition sample_config :: committee_config where
  "sample_config = \<lparr>cfg_validators = [signer_validator toy_sig (sample_signer ''alice'' 1) 1,
      signer_validator toy_sig (sample_signer ''bob'' 2) 1, signer_validator toy_sig (sample_signer ''carol'' 3) 1],
     cfg_quorum = 2\<rparr>"

definition sample_committee :: committee where
  "sample_committee = projr (committee_new toy_sig sample_config)"

lemma sample_committee_new: "committee_new toy_sig sample_config = Ok sample_committee"
proof -
  have "committee_config_ok toy_sig sample_config"
    by (simp add: committee_config_ok_def sample_config_def validators_ok_def validator_ok_def signer_validator_def
        sample_signer_def signer_public_key_def toy_sig_def)
  from res_iff_total[OF committee_new_spec this] show ?thesis by (auto simp: sample_committee_def)
qed

lemma sample_committee_ok: "committee_ok toy_sig sample_committee"
  by (rule committee_new_ok[OF sample_committee_new])

lemma sample_committee_get:
  "bt_get (cm_validators sample_committee) =
     [''alice'' \<mapsto> signer_validator toy_sig (sample_signer ''alice'' 1) 1,
      ''bob'' \<mapsto> signer_validator toy_sig (sample_signer ''bob'' 2) 1,
      ''carol'' \<mapsto> signer_validator toy_sig (sample_signer ''carol'' 3) 1]"
  "cm_quorum sample_committee = 2"
  using res_iff_OkD[OF committee_new_spec sample_committee_new]
  by (auto simp: sample_config_def validators_table_def signer_validator_def sample_signer_def fun_eq_iff)

lemma sample_power:
  "I \<subseteq> {''alice'', ''bob'', ''carol''} \<Longrightarrow> voting_power (cm_validators sample_committee) I = card I"
proof -
  assume I: "I \<subseteq> {''alice'', ''bob'', ''carol''}"
  have "weight_in (cm_validators sample_committee) i = 1" if "i \<in> I" for i
    using that I by (auto simp: weight_in_def sample_committee_get signer_validator_def)
  then show ?thesis by (simp add: voting_power_def)
qed

text \<open>
  \<^bold>\<open>C18\<close>. A committee is built exactly from a configuration with a non-zero quorum that does not
  exceed the total weight, non-empty distinct ids, non-zero weights, valid keys and a total weight
  that fits in 64 bits. The committee then satisfies its invariant and holds exactly the configured
  validators under their ids.
\<close>

theorem committee_new_exact:
  "res_iff (committee_config_ok S config)
     (\<lambda>c. committee_ok S c \<and> cm_quorum c = cfg_quorum config \<and>
          bt_get (cm_validators c) = map_of (validators_table (cfg_validators config)))
     (committee_new S config)"
proof (cases "committee_new S config")
  case (Inr c)
  then show ?thesis using committee_new_spec[of S config] committee_new_ok[OF Inr] by simp
qed (use committee_new_spec[of S config] in simp)

text \<open>
  \<^bold>\<open>C19\<close>. A static committee finalises a block exactly when the block names this engine, the
  certificate is for the hash of the block, and its signers are distinct members whose signatures
  verify and whose weights reach the quorum. The weight sum cannot overflow.
\<close>

theorem static_finality_exact:
  assumes "committee_ok S c"
  shows "finalise_block E S c b x = Ok f \<longleftrightarrow>
     mb_consensus_kind b = StaticClosedCommittee \<and> block_hash E b = Ok (cc_block_hash x) \<and>
     distinct (map sig_validator_id (cc_signatures x)) \<and>
     list_all (\<lambda>g. signed_by S (cm_validators c) (\<lambda>i. static_signature_digest E i (cc_block_hash x))
                     (sig_validator_id g) (sig_signature g)) (cc_signatures x) \<and>
     unat (cm_quorum c) \<le> voting_power (cm_validators c) (signer_set (cc_signatures x)) \<and>
     f = \<lparr>fb_block = b, fb_block_hash = cc_block_hash x, fb_certificate = x\<rparr>"
proof -
  have "verify_certificate E S c h x = Ok u \<longleftrightarrow> verify_certificate E S c h x = Ok ()" for h u by simp
  then show ?thesis
    unfolding finalise_block_def
    by (auto simp: res_simps verify_certificate_iff[OF assms] quorum_certified_def signatures_valid_def)
qed

definition sample_block :: "consensus_kind \<Rightarrow> myelin_block" where
  "sample_block kind = \<lparr>mb_version = 1, mb_session_id = replicate 32 12, mb_parent_hash = replicate 32 0,
     mb_number = 7, mb_timestamp_ms = 0, mb_consensus_kind = kind,
     mb_application_profile_commitment = replicate 32 10, mb_execution_frame_commitment = replicate 32 11,
     mb_state_root_before = replicate 32 4, mb_state_root_after = replicate 32 5,
     mb_ordered_cell_tx_commitments = [replicate 32 6], mb_data_commitments = [], mb_scheduler_commitment = replicate 32 9\<rparr>"

definition sample_hash :: "consensus_kind \<Rightarrow> hash32" where
  "sample_hash kind = projr (block_hash toy_env (sample_block kind))"

lemma sample_block_hash: "block_hash toy_env (sample_block kind) = Ok (sample_hash kind)"
proof -
  have "table_size (block_fields (sample_block kind)) < 2 ^ 32"
    by (cases kind) (simp_all add: table_size_def block_fields_def sample_block_def encode_hash_vec_def)
  then show ?thesis
    by (simp add: sample_hash_def block_hash_def block_to_molecule_bytes_def encode_table_checked_Ok[THEN iffD2])
qed

definition sample_signers :: "committee_signer list" where
  "sample_signers = [sample_signer ''alice'' 1, sample_signer ''bob'' 2]"

definition sample_certificate :: committee_certificate where
  "sample_certificate = \<lparr>cc_block_hash = sample_hash StaticClosedCommittee,
     cc_signatures = map (\<lambda>g. sign_static toy_env toy_sig g (sample_hash StaticClosedCommittee)) sample_signers\<rparr>"

lemma sample_signatures_valid:
  "signatures_valid toy_sig (cm_validators sample_committee) digest
     (map (\<lambda>g. sign_digest toy_sig g (digest (cs_validator_id g))) sample_signers)"
  by (rule signed_static_valid[OF toy_sig_ok sample_committee_ok])
     (simp_all add: validate_signers_iff sample_committee_get sample_signers_def sample_signer_def signer_validator_def toy_sig_def)

lemma sample_signer_set: "signer_set (map (\<lambda>g. sign_digest toy_sig g (d g)) sample_signers) = {''alice'', ''bob''}"
  by (simp add: signer_set_def sample_signers_def sample_signer_def sign_digest_def)

theorem static_finality_exact_witness:
  "committee_ok toy_sig sample_committee \<and>
   finalise_block toy_env toy_sig sample_committee (sample_block StaticClosedCommittee) sample_certificate =
     Ok \<lparr>fb_block = sample_block StaticClosedCommittee, fb_block_hash = sample_hash StaticClosedCommittee,
         fb_certificate = sample_certificate\<rparr>"
  using static_finality_exact[OF sample_committee_ok, of toy_env "sample_block StaticClosedCommittee" sample_certificate
      "\<lparr>fb_block = sample_block StaticClosedCommittee, fb_block_hash = sample_hash StaticClosedCommittee,
         fb_certificate = sample_certificate\<rparr>"]
    sample_signatures_valid[of "\<lambda>i. static_signature_digest toy_env i (sample_hash StaticClosedCommittee)"]
  by (simp add: sample_certificate_def sign_static_def sample_signer_set sample_power sample_committee_get(2)
      signatures_valid_def sample_block_hash sample_committee_ok) (simp add: sample_block_def)

text \<open>
  \<^bold>\<open>C20\<close>. Two blocks finalised by the same static committee share honest signers: outside any
  set of validators whose weight, added to the total, stays below twice the quorum, some validator
  has a verifying signature on its block hash in both certificates. With a quorum above two thirds this holds for every set below a third.
\<close>

theorem static_quorum_intersection:
  assumes "committee_ok S c" "finalise_block E S c b x = Ok f" "finalise_block E S c b' x' = Ok f'"
    and "voting_power (cm_validators c) (members (cm_validators c)) + voting_power (cm_validators c) F < 2 * unat (cm_quorum c)"
    and "finite F"
  shows "\<exists>i. i \<notin> F \<and> has_signed S (cm_validators c) (\<lambda>i. static_signature_digest E i (fb_block_hash f)) (cc_signatures x) i \<and>
             has_signed S (cm_validators c) (\<lambda>i. static_signature_digest E i (fb_block_hash f')) (cc_signatures x') i"
proof -
  have "verify_certificate E S c (fb_block_hash f) x = Ok ()" "verify_certificate E S c (fb_block_hash f') x' = Ok ()"
    using assms(2,3) by (auto simp: finalise_block_def res_simps split: if_splits)
  from static_certificates.common_signer[OF assms(1) this assms(4,5)] show ?thesis .
qed

theorem static_quorum_intersection_witness:
  "\<exists>i. i \<notin> {} \<and> has_signed toy_sig (cm_validators sample_committee)
     (\<lambda>i. static_signature_digest toy_env i (sample_hash StaticClosedCommittee)) (cc_signatures sample_certificate) i"
proof -
  let ?f = "\<lparr>fb_block = sample_block StaticClosedCommittee, fb_block_hash = sample_hash StaticClosedCommittee,
         fb_certificate = sample_certificate\<rparr>"
  have "verify_certificate toy_env toy_sig sample_committee (sample_hash StaticClosedCommittee) sample_certificate = Ok ()"
    using sample_signatures_valid[of "\<lambda>i. static_signature_digest toy_env i (sample_hash StaticClosedCommittee)"]
    by (simp add: verify_certificate_iff[OF sample_committee_ok] quorum_certified_def sample_certificate_def
        sign_static_def sample_signer_set sample_power sample_committee_get(2))
  then have fin: "finalise_block toy_env toy_sig sample_committee (sample_block StaticClosedCommittee) sample_certificate = Ok ?f"
    by (simp add: finalise_block_def sample_block_hash) (simp add: sample_block_def)
  have "members (cm_validators sample_committee) = {''alice'', ''bob'', ''carol''}" by (auto simp: sample_committee_get)
  then have "voting_power (cm_validators sample_committee) (members (cm_validators sample_committee)) +
      voting_power (cm_validators sample_committee) {} < 2 * unat (cm_quorum sample_committee)"
    by (simp add: sample_power sample_committee_get(2))
  from static_quorum_intersection[OF sample_committee_ok fin fin this] show ?thesis by auto
qed

text \<open>
  \<^bold>\<open>C21\<close>. The bytes hashed for a block determine the block: two well-formed blocks, whose
  hashes are 32 bytes, have the same canonical bytes only if they agree in every field.
\<close>

theorem block_bytes_bind:
  assumes "wf_block a" "wf_block b" "block_to_molecule_bytes a = Ok bs"
  shows "block_to_molecule_bytes b = Ok bs \<longleftrightarrow> a = b"
  using block_bytes_inj[OF assms(1,2,3)] assms(3) by auto

theorem block_bytes_bind_witness:
  "block_to_molecule_bytes (sample_block Tendermint) \<noteq> block_to_molecule_bytes (sample_block ProofOfAuthority)"
proof -
  have w: "wf_block (sample_block k)" for k by (simp add: wf_block_def sample_block_def)
  obtain bs where "block_to_molecule_bytes (sample_block Tendermint) = Ok bs"
    using sample_block_hash[of Tendermint] by (auto simp: block_hash_Ok)
  with block_bytes_bind[OF w w this, of ProofOfAuthority] show ?thesis by (simp add: sample_block_def)
qed

text \<open>
  \<^bold>\<open>C22\<close>. The configuration commitment binds the configuration: the bytes it hashes, for two
  committees with 32-byte keys, agree only for the same engine, quorum and validator set. They do
  not depend on the order in which the validators are listed.
\<close>

theorem config_commitment_binds:
  assumes "committee_ok S c" "committee_ok S c'"
    and "keys_32 (bt_values (cm_validators c))" "keys_32 (bt_values (cm_validators c'))"
    and "short64 (cm_validators c)" "short64 (cm_validators c')"
  shows "validator_config_preimage kind (cm_quorum c) (bt_values (cm_validators c)) =
           validator_config_preimage kind' (cm_quorum c') (bt_values (cm_validators c')) \<longleftrightarrow> kind = kind' \<and> c = c'"
  using config_preimage_inj[OF assms] by auto

theorem config_commitment_binds_witness:
  "validator_config_preimage Tendermint (cm_quorum sample_committee) (bt_values (cm_validators sample_committee)) \<noteq>
   validator_config_preimage StaticClosedCommittee (cm_quorum sample_committee) (bt_values (cm_validators sample_committee))"
proof -
  have wf: "bt_wf (cm_validators sample_committee)" using sample_committee_ok by (simp add: committee_ok_def)
  have "v \<in> set (bt_values (cm_validators sample_committee)) \<Longrightarrow> length (cv_public_key v) = 32 \<and> short64 (cv_id v)" for v
    using sample_committee_get(1) unfolding bt_values_def
    by (auto simp: bt_get_eq_Some[OF wf, symmetric] signer_validator_def signer_public_key_def sample_signer_def
        toy_sig_def short64_def split: if_splits)
  then have k: "keys_32 (bt_values (cm_validators sample_committee))" by (simp add: keys_32_def list_all_iff)
  have "length (cm_validators sample_committee) = card (members (cm_validators sample_committee))"
    using distinct_card[OF bt_wf_distinct[OF wf]] by (simp add: dom_bt_get)
  also have "members (cm_validators sample_committee) = {''alice'', ''bob'', ''carol''}" by (auto simp: sample_committee_get)
  finally have "short64 (cm_validators sample_committee)" by (simp add: short64_def)
  from config_commitment_binds[OF sample_committee_ok sample_committee_ok k k this this] show ?thesis by simp
qed

end
