(* ===== verification/Tendermint.thy ===== *)
theory Tendermint
  imports Consensus "HOL-Library.Option_ord"
begin

text \<open>
  The Tendermint round state of \<open>consensus/src/tendermint.rs\<close>: proposer rotation, proposals and
  votes, the retained-vote power, locking, decisions and the finalisation of a block by a decision.
  Operations that take \<open>&mut self\<close> return their result together with the state they leave, also on
  errors. A world of honest validators that drive these operations over an adversarial network is
  in theory \<open>Tendermint_Safety\<close>.
\<close>

section \<open>Messages\<close>

datatype tendermint_step = Prevote | Precommit

fun step_tag :: "tendermint_step \<Rightarrow> u8" where
  "step_tag Prevote = 1"
| "step_tag Precommit = 2"

record tendermint_proposal =
  tp_height :: u64
  tp_round :: u32
  tp_block_hash :: hash32
  tp_valid_round :: "u32 option"
  tp_proposer_id :: string
  tp_signature :: bytes

record tendermint_vote =
  tv_height :: u64
  tv_round :: u32
  tv_step :: tendermint_step
  tv_block_hash :: "hash32 option"
  tv_validator_id :: string
  tv_signature :: bytes

record tendermint_decision =
  td_height :: u64
  td_round :: u32
  td_block_hash :: hash32
  td_precommits :: "tendermint_vote list"

record tendermint_round_state =
  rt_height :: u64
  rt_round :: u32
  rt_locked_value :: "hash32 option"
  rt_locked_round :: "u32 option"
  rt_valid_value :: "hash32 option"
  rt_valid_round :: "u32 option"
  rt_proposals :: "tendermint_proposal list"
  rt_votes :: "tendermint_vote list"
  rt_decision :: "tendermint_decision option"

datatype tendermint_progress =
    ProposalAccepted
  | VoteAccepted
  | PrevoteQuorum "hash32 option"
  | PrecommitQuorumNil
  | Decided tendermint_decision

definition proposal_preimage :: "u64 \<Rightarrow> u32 \<Rightarrow> hash32 \<Rightarrow> u32 option \<Rightarrow> string \<Rightarrow> bytes" where
  "proposal_preimage height round bh valid_round proposer_id =
     str_bytes ''myelin:tendermint-proposal'' @ u64_le height @ u32_le round @ bh
     @ (case valid_round of Some r \<Rightarrow> 1 # u32_le r | None \<Rightarrow> [0])
     @ u32_le (as_u32 (length proposer_id)) @ str_bytes proposer_id"

definition proposal_digest :: "crypto_env \<Rightarrow> u64 \<Rightarrow> u32 \<Rightarrow> hash32 \<Rightarrow> u32 option \<Rightarrow> string \<Rightarrow> hash32" where
  "proposal_digest E height round bh valid_round proposer_id =
     cr_blake3 E (proposal_preimage height round bh valid_round proposer_id)"

definition vote_preimage :: "u64 \<Rightarrow> u32 \<Rightarrow> tendermint_step \<Rightarrow> hash32 option \<Rightarrow> string \<Rightarrow> bytes" where
  "vote_preimage height round step bh validator_id =
     str_bytes ''myelin:tendermint-vote'' @ u64_le height @ u32_le round @ [step_tag step]
     @ (case bh of Some h \<Rightarrow> 1 # h | None \<Rightarrow> [0])
     @ u32_le (as_u32 (length validator_id)) @ str_bytes validator_id"

definition vote_digest :: "crypto_env \<Rightarrow> u64 \<Rightarrow> u32 \<Rightarrow> tendermint_step \<Rightarrow> hash32 option \<Rightarrow> string \<Rightarrow> hash32" where
  "vote_digest E height round step bh validator_id = cr_blake3 E (vote_preimage height round step bh validator_id)"

definition signature64 :: "bytes \<Rightarrow> string \<Rightarrow> consensus_error + bytes" where
  "signature64 signature validator_id =
     (if length signature = 64 then Ok signature else Err (InvalidSignature validator_id))"

section \<open>Engine\<close>

definition add_power :: "u64 \<Rightarrow> committee_validator \<Rightarrow> consensus_error + u64" where
  "add_power acc v = ok_or (InvalidConfig ''validator power overflow'') (checked_add acc (cv_weight v))"

definition total_power :: "committee \<Rightarrow> consensus_error + u64" where
  "total_power c = fold_res add_power 0 (bt_values (cm_validators c))"

definition validate_tendermint_quorum :: "committee \<Rightarrow> consensus_error + unit" where
  "validate_tendermint_quorum c =
     res_bind (total_power c) (\<lambda>total.
     res_bind (ok_or (InvalidConfig ''quorum power overflow'') (checked_mul (cm_quorum c) 3)) (\<lambda>quorum_times_three.
     res_bind (ok_or (InvalidConfig ''validator power overflow'') (checked_mul total 2)) (\<lambda>total_times_two.
     if quorum_times_three \<le> total_times_two
     then Err (InvalidConfig ''quorum must be strictly greater than two-thirds of total power'') else Ok ())))"

definition new_round_state :: "committee \<Rightarrow> u64 \<Rightarrow> consensus_error + tendermint_round_state" where
  "new_round_state c height =
     res_bind (validate_tendermint_quorum c) (\<lambda>_.
     Ok \<lparr>rt_height = height, rt_round = 0, rt_locked_value = None, rt_locked_round = None,
          rt_valid_value = None, rt_valid_round = None, rt_proposals = [], rt_votes = [], rt_decision = None\<rparr>)"

fun proposer_loop :: "u64 \<Rightarrow> u64 \<Rightarrow> committee_validator list \<Rightarrow> consensus_error + string" where
  "proposer_loop target cursor [] = Err (InvalidTendermintState ''proposer selection exhausted validator power'')"
| "proposer_loop target cursor (v # vs) =
     res_bind (add_power cursor v) (\<lambda>cursor.
     if target < cursor then Ok (cv_id v) else proposer_loop target cursor vs)"

definition proposer_id :: "committee \<Rightarrow> u64 \<Rightarrow> u32 \<Rightarrow> consensus_error + string" where
  "proposer_id c height round =
     res_bind (total_power c) (\<lambda>total.
     res_bind (ok_or OverflowPanic (checked_add (height mod total) (ucast round mod total))) (\<lambda>s.
     proposer_loop (s mod total) 0 (sort_key cv_id (bt_values (cm_validators c)))))"

definition validate_signer :: "sig_env \<Rightarrow> committee \<Rightarrow> committee_signer \<Rightarrow> consensus_error + unit" where
  "validate_signer S c signer =
     res_bind (ok_or (UnknownValidator (cs_validator_id signer)) (bt_get (cm_validators c) (cs_validator_id signer))) (\<lambda>validator.
     if cv_public_key validator \<noteq> signer_public_key S signer
     then Err (SignerKeyMismatch (cs_validator_id signer)) else Ok ())"

definition sign_tendermint_digest :: "sig_env \<Rightarrow> committee_signer \<Rightarrow> hash32 \<Rightarrow> bytes" where
  "sign_tendermint_digest S signer digest = sg_schnorr_sign S (cs_secret_key signer) digest"

definition bad_valid_round :: "u32 option \<Rightarrow> u32 \<Rightarrow> bool" where
  "bad_valid_round valid_round round = (case valid_round of Some r \<Rightarrow> round \<le> r | None \<Rightarrow> False)"

definition proposal_from_signer ::
  "crypto_env \<Rightarrow> sig_env \<Rightarrow> committee \<Rightarrow> u64 \<Rightarrow> u32 \<Rightarrow> hash32 \<Rightarrow> u32 option \<Rightarrow> committee_signer
     \<Rightarrow> consensus_error + tendermint_proposal" where
  "proposal_from_signer E S c height round bh valid_round signer =
     res_bind (proposer_id c height round) (\<lambda>expected.
     if cs_validator_id signer \<noteq> expected then Err (UnexpectedProposer expected (cs_validator_id signer))
     else res_bind (validate_signer S c signer) (\<lambda>_.
          if bad_valid_round valid_round round
          then Err (InvalidTendermintState ''proposal valid_round must be lower than round'')
          else Ok \<lparr>tp_height = height, tp_round = round, tp_block_hash = bh, tp_valid_round = valid_round,
                    tp_proposer_id = cs_validator_id signer,
                    tp_signature = sign_tendermint_digest S signer
                      (proposal_digest E height round bh valid_round (cs_validator_id signer))\<rparr>))"

definition vote_from_signer ::
  "crypto_env \<Rightarrow> sig_env \<Rightarrow> committee \<Rightarrow> u64 \<Rightarrow> u32 \<Rightarrow> tendermint_step \<Rightarrow> hash32 option \<Rightarrow> committee_signer
     \<Rightarrow> consensus_error + tendermint_vote" where
  "vote_from_signer E S c height round step bh signer =
     res_bind (validate_signer S c signer) (\<lambda>_.
     Ok \<lparr>tv_height = height, tv_round = round, tv_step = step, tv_block_hash = bh,
          tv_validator_id = cs_validator_id signer,
          tv_signature = sign_tendermint_digest S signer (vote_digest E height round step bh (cs_validator_id signer))\<rparr>)"

definition verify_proposal :: "crypto_env \<Rightarrow> sig_env \<Rightarrow> committee \<Rightarrow> tendermint_proposal \<Rightarrow> consensus_error + unit" where
  "verify_proposal E S c p =
     res_bind (proposer_id c (tp_height p) (tp_round p)) (\<lambda>expected.
     if tp_proposer_id p \<noteq> expected then Err (UnexpectedProposer expected (tp_proposer_id p))
     else if bad_valid_round (tp_valid_round p) (tp_round p)
     then Err (InvalidTendermintState ''proposal valid_round must be lower than round'')
     else res_bind (ok_or (UnknownValidator (tp_proposer_id p)) (bt_get (cm_validators c) (tp_proposer_id p))) (\<lambda>validator.
          res_bind (signature64 (tp_signature p) (tp_proposer_id p)) (\<lambda>signature.
          if \<not> verify_schnorr S (cv_public_key validator)
                 (proposal_digest E (tp_height p) (tp_round p) (tp_block_hash p) (tp_valid_round p) (tp_proposer_id p)) signature
          then Err (InvalidSignature (tp_proposer_id p)) else Ok ())))"

definition verify_vote :: "crypto_env \<Rightarrow> sig_env \<Rightarrow> committee \<Rightarrow> tendermint_vote \<Rightarrow> consensus_error + unit" where
  "verify_vote E S c v =
     res_bind (ok_or (UnknownValidator (tv_validator_id v)) (bt_get (cm_validators c) (tv_validator_id v))) (\<lambda>validator.
     res_bind (signature64 (tv_signature v) (tv_validator_id v)) (\<lambda>signature.
     if \<not> verify_schnorr S (cv_public_key validator)
            (vote_digest E (tv_height v) (tv_round v) (tv_step v) (tv_block_hash v) (tv_validator_id v)) signature
     then Err (InvalidSignature (tv_validator_id v)) else Ok ()))"

definition vote_matches :: "u64 \<Rightarrow> u32 \<Rightarrow> tendermint_step \<Rightarrow> hash32 option \<Rightarrow> tendermint_vote \<Rightarrow> bool" where
  "vote_matches height round step bh v =
     (tv_height v = height \<and> tv_round v = round \<and> tv_step v = step \<and> tv_block_hash v = bh)"

definition count_vote ::
  "crypto_env \<Rightarrow> sig_env \<Rightarrow> committee \<Rightarrow> string set \<times> u64 \<Rightarrow> tendermint_vote \<Rightarrow> consensus_error + string set \<times> u64" where
  "count_vote E S c st vote =
     (let (seen, p) = st; id = tv_validator_id vote
      in res_bind (verify_vote E S c vote) (\<lambda>_.
         if id \<in> seen then Err DuplicateValidator
         else res_bind (ok_or (UnknownValidator id) (bt_get (cm_validators c) id)) (\<lambda>validator.
              res_bind (ok_or (InvalidConfig ''vote power overflow'') (checked_add p (cv_weight validator))) (\<lambda>p.
              Ok (insert id seen, p)))))"

definition vote_power ::
  "crypto_env \<Rightarrow> sig_env \<Rightarrow> committee \<Rightarrow> tendermint_vote list \<Rightarrow> u64 \<Rightarrow> u32 \<Rightarrow> tendermint_step \<Rightarrow> hash32 option
     \<Rightarrow> consensus_error + u64" where
  "vote_power E S c votes height round step bh =
     res_bind (fold_res (count_vote E S c) ({}, 0) (filter (vote_matches height round step bh) votes)) (\<lambda>(_, p). Ok p)"

definition finalise_block_with_decision ::
  "crypto_env \<Rightarrow> sig_env \<Rightarrow> committee \<Rightarrow> myelin_block \<Rightarrow> tendermint_decision
     \<Rightarrow> consensus_error + finalised_weighted_precommit_block" where
  "finalise_block_with_decision E S c block d =
     (if mb_consensus_kind block \<noteq> consensus_kind.Tendermint
      then Err (WrongEngine consensus_kind.Tendermint (mb_consensus_kind block))
      else if td_height d \<noteq> mb_number block then Err (WrongHeight (mb_number block) (td_height d))
      else res_bind (block_hash E block) (\<lambda>bh.
           if td_block_hash d \<noteq> bh then Err WrongBlockHash
           else res_bind (vote_power E S c (td_precommits d) (td_height d) (td_round d) Precommit (Some bh)) (\<lambda>signed_power.
                if signed_power < cm_quorum c then Err (QuorumNotMet signed_power (cm_quorum c))
                else res_bind (map_res (\<lambda>v. res_bind (signature64 (tv_signature v) (tv_validator_id v)) (\<lambda>sg.
                         Ok \<lparr>sig_validator_id = tv_validator_id v, sig_signature = sg\<rparr>)) (td_precommits d)) (\<lambda>signatures.
                     Ok \<lparr>fw_block = block, fw_block_hash = bh, fw_round = td_round d,
                          fw_certificate = \<lparr>wp_block_hash = bh, wp_height = td_height d, wp_round = td_round d,
                                            wp_signatures = signatures\<rparr>\<rparr>))))"

section \<open>Round state\<close>

type_synonym 'a tm_result = "(consensus_error + 'a) \<times> tendermint_round_state"

definition ensure_live :: "tendermint_round_state \<Rightarrow> consensus_error + unit" where
  "ensure_live st =
     (if rt_decision st \<noteq> None then Err (InvalidTendermintState ''height is already decided'') else Ok ())"

definition check_valid_round ::
  "crypto_env \<Rightarrow> sig_env \<Rightarrow> committee \<Rightarrow> tendermint_round_state \<Rightarrow> tendermint_proposal \<Rightarrow> consensus_error + unit" where
  "check_valid_round E S c st p =
     (case tp_valid_round p of
        None \<Rightarrow> Ok ()
      | Some valid_round \<Rightarrow>
          res_bind (vote_power E S c (rt_votes st) (rt_height st) valid_round Prevote (Some (tp_block_hash p))) (\<lambda>pw.
          if pw < cm_quorum c
          then Err (InvalidTendermintState ''proposal valid_round has no retained prevote quorum'') else Ok ()))"

definition receive_proposal ::
  "crypto_env \<Rightarrow> sig_env \<Rightarrow> committee \<Rightarrow> tendermint_round_state \<Rightarrow> tendermint_proposal
     \<Rightarrow> tendermint_progress tm_result" where
  "receive_proposal E S c st p =
     (case ensure_live st of Inl e \<Rightarrow> (Err e, st) | Inr _ \<Rightarrow>
      if tp_height p \<noteq> rt_height st then (Err (WrongHeight (rt_height st) (tp_height p)), st)
      else if tp_round p \<noteq> rt_round st then (Err (WrongRound (rt_round st) (tp_round p)), st)
      else case verify_proposal E S c p of Inl e \<Rightarrow> (Err e, st) | Inr _ \<Rightarrow>
      case find (\<lambda>existing. tp_round existing = tp_round p) (rt_proposals st) of
        Some existing \<Rightarrow>
          (if existing = p then Ok ProposalAccepted
           else Err (Equivocation (tp_proposer_id p) (tp_round p) ''proposal''), st)
      | None \<Rightarrow>
          (case check_valid_round E S c st p of
             Inl e \<Rightarrow> (Err e, st)
           | Inr _ \<Rightarrow> (Ok ProposalAccepted, st\<lparr>rt_proposals := rt_proposals st @ [p]\<rparr>)))"

definition prevote_value ::
  "crypto_env \<Rightarrow> sig_env \<Rightarrow> committee \<Rightarrow> tendermint_round_state \<Rightarrow> consensus_error + hash32 option" where
  "prevote_value E S c st =
     res_bind (ensure_live st) (\<lambda>_.
     case find (\<lambda>p. tp_round p = rt_round st) (rt_proposals st) of
       None \<Rightarrow> Ok None
     | Some p \<Rightarrow>
         (case rt_locked_value st of
            None \<Rightarrow> Ok (Some (tp_block_hash p))
          | Some locked \<Rightarrow>
              if locked = tp_block_hash p then Ok (Some (tp_block_hash p))
              else (case rt_locked_round st of
                      None \<Rightarrow> Err (InvalidTendermintState ''locked value is missing locked round'')
                    | Some locked_round \<Rightarrow>
                        (case tp_valid_round p of
                           None \<Rightarrow> Ok None
                         | Some valid_round \<Rightarrow>
                             if valid_round < locked_round then Ok None
                             else res_bind (vote_power E S c (rt_votes st) (rt_height st) valid_round Prevote (Some (tp_block_hash p))) (\<lambda>pw.
                                  Ok (if cm_quorum c \<le> pw then Some (tp_block_hash p) else None))))))"

definition same_slot :: "tendermint_vote \<Rightarrow> tendermint_vote \<Rightarrow> bool" where
  "same_slot vote existing =
     (tv_round existing = tv_round vote \<and> tv_step existing = tv_step vote \<and> tv_validator_id existing = tv_validator_id vote)"

definition step_name :: "tendermint_step \<Rightarrow> string" where
  "step_name step = (case step of Prevote \<Rightarrow> ''prevote'' | Precommit \<Rightarrow> ''precommit'')"

text \<open>What a vote that completes a quorum changes.\<close>

definition on_quorum ::
  "tendermint_round_state \<Rightarrow> u32 \<Rightarrow> tendermint_step \<Rightarrow> hash32 option \<Rightarrow> tendermint_progress tm_result" where
  "on_quorum st round step value =
     (case step of
        Prevote \<Rightarrow>
          (Ok (PrevoteQuorum value),
           case value of Some bh \<Rightarrow> st\<lparr>rt_valid_value := Some bh, rt_valid_round := Some round\<rparr> | None \<Rightarrow> st)
      | Precommit \<Rightarrow>
          (case value of
             None \<Rightarrow> (Ok PrecommitQuorumNil, st)
           | Some bh \<Rightarrow>
               let d = \<lparr>td_height = rt_height st, td_round = round, td_block_hash = bh,
                        td_precommits = filter (vote_matches (rt_height st) round Precommit (Some bh)) (rt_votes st)\<rparr>
               in (Ok (Decided d), st\<lparr>rt_decision := Some d\<rparr>)))"

definition receive_vote ::
  "crypto_env \<Rightarrow> sig_env \<Rightarrow> committee \<Rightarrow> tendermint_round_state \<Rightarrow> tendermint_vote
     \<Rightarrow> tendermint_progress tm_result" where
  "receive_vote E S c st vote =
     (case ensure_live st of Inl e \<Rightarrow> (Err e, st) | Inr _ \<Rightarrow>
      if tv_height vote \<noteq> rt_height st then (Err (WrongHeight (rt_height st) (tv_height vote)), st)
      else if rt_round st < tv_round vote then (Err (WrongRound (rt_round st) (tv_round vote)), st)
      else case verify_vote E S c vote of Inl e \<Rightarrow> (Err e, st) | Inr _ \<Rightarrow>
      case find (same_slot vote) (rt_votes st) of
        Some existing \<Rightarrow>
          (if existing = vote then Ok VoteAccepted
           else Err (Equivocation (tv_validator_id vote) (tv_round vote) (step_name (tv_step vote))), st)
      | None \<Rightarrow>
          (let st = st\<lparr>rt_votes := rt_votes st @ [vote]\<rparr>
           in case vote_power E S c (rt_votes st) (rt_height st) (tv_round vote) (tv_step vote) (tv_block_hash vote) of
                Inl e \<Rightarrow> (Err e, st)
              | Inr pw \<Rightarrow>
                  if pw < cm_quorum c then (Ok VoteAccepted, st)
                  else on_quorum st (tv_round vote) (tv_step vote) (tv_block_hash vote)))"

text \<open>\<open>Option<Hash32>\<close> is ordered with \<open>None\<close> first; \<open>sort_unstable\<close> and \<open>dedup\<close> leave each candidate once.\<close>

definition precommit_candidates :: "tendermint_round_state \<Rightarrow> hash32 option list" where
  "precommit_candidates st =
     remdups_adj (sort (map tv_block_hash
       (filter (\<lambda>v. tv_height v = rt_height st \<and> tv_round v = rt_round st \<and> tv_step v = Prevote) (rt_votes st))))"

fun precommit_loop ::
  "crypto_env \<Rightarrow> sig_env \<Rightarrow> committee \<Rightarrow> tendermint_round_state \<Rightarrow> hash32 option list \<Rightarrow> (hash32 option) tm_result" where
  "precommit_loop E S c st [] =
     (Err (InvalidTendermintState ''cannot precommit before a prevote quorum''), st)"
| "precommit_loop E S c st (value # rest) =
     (case vote_power E S c (rt_votes st) (rt_height st) (rt_round st) Prevote value of
        Inl e \<Rightarrow> (Err e, st)
      | Inr pw \<Rightarrow>
          if cm_quorum c \<le> pw
          then (Ok value,
                case value of
                  Some bh \<Rightarrow> st\<lparr>rt_locked_value := Some bh, rt_locked_round := Some (rt_round st),
                                 rt_valid_value := Some bh, rt_valid_round := Some (rt_round st)\<rparr>
                | None \<Rightarrow> st)
          else precommit_loop E S c st rest)"

definition precommit_value ::
  "crypto_env \<Rightarrow> sig_env \<Rightarrow> committee \<Rightarrow> tendermint_round_state \<Rightarrow> (hash32 option) tm_result" where
  "precommit_value E S c st =
     (case ensure_live st of
        Inl e \<Rightarrow> (Err e, st)
      | Inr _ \<Rightarrow> precommit_loop E S c st (precommit_candidates st))"

definition advance_round :: "tendermint_round_state \<Rightarrow> u32 tm_result" where
  "advance_round st =
     (case ensure_live st of
        Inl e \<Rightarrow> (Err e, st)
      | Inr _ \<Rightarrow>
          (case checked_add (rt_round st) 1 of
             None \<Rightarrow> (Err (InvalidTendermintState ''round overflow''), st)
           | Some r \<Rightarrow> (Ok r, st\<lparr>rt_round := r\<rparr>)))"

section \<open>Votes and their power\<close>

lemma verify_vote_iff:
  "verify_vote E S c v = Ok () \<longleftrightarrow>
     signed_by S (cm_validators c) (vote_digest E (tv_height v) (tv_round v) (tv_step v) (tv_block_hash v))
       (tv_validator_id v) (tv_signature v)"
  by (cases "bt_get (cm_validators c) (tv_validator_id v)")
     (auto simp: verify_vote_def signed_by_def signature64_def verify_schnorr_def)

lemma verify_vote_cases: "verify_vote E S c v = Ok u \<longleftrightarrow> verify_vote E S c v = Ok ()"
  by simp

definition voters :: "tendermint_vote list \<Rightarrow> u64 \<Rightarrow> u32 \<Rightarrow> tendermint_step \<Rightarrow> hash32 option \<Rightarrow> string set" where
  "voters votes h r s x = tv_validator_id ` set (filter (vote_matches h r s x) votes)"

lemma voters_append: "voters (votes @ vs) h r s x = voters votes h r s x \<union> voters vs h r s x"
  by (simp add: voters_def image_Un)

lemma in_voters:
  "i \<in> voters votes h r s x \<longleftrightarrow> (\<exists>v\<in>set votes. vote_matches h r s x v \<and> tv_validator_id v = i)"
  by (auto simp: voters_def)

lemma count_vote_step:
  assumes "voting_power m (members m) < 2 ^ 64" "m = cm_validators c" "tallied m I st"
  shows "res_iff (tv_validator_id v \<notin> I \<and> verify_vote E S c v = Ok ())
           (tallied m (insert (tv_validator_id v) I)) (count_vote E S c st v)"
proof -
  let ?i = "tv_validator_id v"
  obtain w where st: "st = (I, w)" and w: "unat w = voting_power m I" "I \<subseteq> members m"
    using assms(3) by (cases st) (auto simp: tallied_def)
  show ?thesis
  proof (cases "?i \<in> I \<or> verify_vote E S c v \<noteq> Ok ()")
    case True
    then show ?thesis by (cases "verify_vote E S c v") (auto simp: st count_vote_def Let_def)
  next
    case False
    then obtain val where val: "bt_get m ?i = Some val" and ok: "verify_vote E S c v = Ok ()"
      using assms(2) by (auto simp: verify_vote_iff signed_by_def split: option.splits)
    have fin: "finite I" using w(2) finite_subset by fastforce
    have sub: "insert ?i I \<subseteq> members m" using val w(2) by auto
    have ins: "voting_power m (insert ?i I) = unat (cv_weight val) + unat w"
      using False fin by (simp add: power_insert w(1) weight_in_def val)
    then have "unat w + unat (cv_weight val) < 2 ^ 64"
      using power_mono[OF sub, of m] assms(1) by simp
    then show ?thesis
      using False val sub ins ok assms(2)
      by (simp add: st count_vote_def Let_def checked_add_def tallied_def unat_add_exact)
  qed
qed

lemma count_votes_spec:
  assumes "voting_power (cm_validators c) (members (cm_validators c)) < 2 ^ 64"
  shows "res_iff (distinct (map tv_validator_id vs) \<and> list_all (\<lambda>v. verify_vote E S c v = Ok ()) vs)
           (tallied (cm_validators c) (tv_validator_id ` set vs)) (fold_res (count_vote E S c) ({}, 0) vs)"
proof (induction vs rule: rev_induct)
  case Nil
  then show ?case by (simp add: tallied_def)
next
  case (snoc v vs)
  have "res_iff ((distinct (map tv_validator_id vs) \<and> list_all (\<lambda>v. verify_vote E S c v = Ok ()) vs) \<and>
      (tv_validator_id v \<notin> tv_validator_id ` set vs \<and> verify_vote E S c v = Ok ()))
      (tallied (cm_validators c) (insert (tv_validator_id v) (tv_validator_id ` set vs)))
      (fold_res (count_vote E S c) ({}, 0) (vs @ [v]))"
    unfolding fold_res_snoc
    by (rule res_iff_bind[OF snoc.IH]) (rule count_vote_step[OF assms refl])
  then show ?case by (rule res_iff_cong) auto
qed

lemma vote_power_spec:
  assumes "committee_ok S c"
  shows "res_iff (distinct (map tv_validator_id (filter (vote_matches h r s x) votes)) \<and>
             list_all (\<lambda>v. verify_vote E S c v = Ok ()) (filter (vote_matches h r s x) votes))
           (\<lambda>p. unat p = voting_power (cm_validators c) (voters votes h r s x) \<and>
                voters votes h r s x \<subseteq> members (cm_validators c))
           (vote_power E S c votes h r s x)"
proof -
  let ?vs = "filter (vote_matches h r s x) votes"
  have "voting_power (cm_validators c) (members (cm_validators c)) < 2 ^ 64" using assms by (simp add: committee_ok_def)
  note spec = count_votes_spec[OF this, of ?vs E S]
  show ?thesis
  proof (cases "fold_res (count_vote E S c) ({}, 0) ?vs")
    case (Inr y)
    obtain J w where y: "y = (J, w)" by (cases y)
    show ?thesis using spec unfolding vote_power_def Inr y by (simp add: tallied_def voters_def)
  qed (use spec in \<open>simp add: vote_power_def\<close>)
qed

section \<open>The invariant of a round state\<close>

definition vote_slot :: "tendermint_vote \<Rightarrow> u32 \<times> tendermint_step \<times> string" where
  "vote_slot v = (tv_round v, tv_step v, tv_validator_id v)"

definition votes_ok :: "crypto_env \<Rightarrow> sig_env \<Rightarrow> committee \<Rightarrow> tendermint_round_state \<Rightarrow> bool" where
  "votes_ok E S c st \<longleftrightarrow> distinct (map vote_slot (rt_votes st)) \<and>
     list_all (\<lambda>v. tv_height v = rt_height st \<and> tv_round v \<le> rt_round st \<and> verify_vote E S c v = Ok ()) (rt_votes st)"

definition has_quorum ::
  "committee \<Rightarrow> tendermint_round_state \<Rightarrow> u32 \<Rightarrow> tendermint_step \<Rightarrow> hash32 option \<Rightarrow> bool" where
  "has_quorum c st r s x \<longleftrightarrow>
     unat (cm_quorum c) \<le> voting_power (cm_validators c) (voters (rt_votes st) (rt_height st) r s x)"

lemma matching_distinct:
  assumes "distinct (map vote_slot votes)"
  shows "distinct (map tv_validator_id (filter (vote_matches h r s x) votes))"
proof -
  have "distinct votes" "inj_on vote_slot (set votes)" using assms by (simp_all add: distinct_map)
  then show ?thesis
    by (auto simp: distinct_map inj_on_def vote_slot_def vote_matches_def)
qed

lemma vote_power_total:
  assumes "committee_ok S c" "votes_ok E S c st"
  shows "\<exists>p. vote_power E S c (rt_votes st) (rt_height st) r s x = Ok p \<and>
     (cm_quorum c \<le> p \<longleftrightarrow> has_quorum c st r s x) \<and>
     voters (rt_votes st) (rt_height st) r s x \<subseteq> members (cm_validators c)"
proof -
  have "distinct (map tv_validator_id (filter (vote_matches (rt_height st) r s x) (rt_votes st)))"
    "list_all (\<lambda>v. verify_vote E S c v = Ok ()) (filter (vote_matches (rt_height st) r s x) (rt_votes st))"
    using assms(2) matching_distinct by (auto simp: votes_ok_def list_all_iff)
  from res_iff_total[OF vote_power_spec[OF assms(1)] conjI[OF this]]
  show ?thesis by (auto simp: has_quorum_def word_le_nat_alt)
qed

definition decision_ok :: "committee \<Rightarrow> tendermint_round_state \<Rightarrow> tendermint_decision \<Rightarrow> bool" where
  "decision_ok c st d \<longleftrightarrow> td_height d = rt_height st \<and>
     td_precommits d = filter (vote_matches (rt_height st) (td_round d) Precommit (Some (td_block_hash d))) (rt_votes st) \<and>
     has_quorum c st (td_round d) Precommit (Some (td_block_hash d))"

definition quorum_pair ::
  "committee \<Rightarrow> tendermint_round_state \<Rightarrow> hash32 option \<Rightarrow> u32 option \<Rightarrow> bool" where
  "quorum_pair c st value round =
     (case (value, round) of
        (None, None) \<Rightarrow> True
      | (Some x, Some r) \<Rightarrow> r \<le> rt_round st \<and> has_quorum c st r Prevote (Some x)
      | _ \<Rightarrow> False)"

definition proposals_ok :: "crypto_env \<Rightarrow> sig_env \<Rightarrow> committee \<Rightarrow> tendermint_round_state \<Rightarrow> bool" where
  "proposals_ok E S c st \<longleftrightarrow> distinct (map tp_round (rt_proposals st)) \<and>
     list_all (\<lambda>p. tp_height p = rt_height st \<and> tp_round p \<le> rt_round st \<and> verify_proposal E S c p = Ok ()) (rt_proposals st)"

definition round_state_ok :: "crypto_env \<Rightarrow> sig_env \<Rightarrow> committee \<Rightarrow> tendermint_round_state \<Rightarrow> bool" where
  "round_state_ok E S c st \<longleftrightarrow> votes_ok E S c st \<and> proposals_ok E S c st \<and>
     quorum_pair c st (rt_locked_value st) (rt_locked_round st) \<and>
     quorum_pair c st (rt_valid_value st) (rt_valid_round st) \<and>
     (\<forall>d. rt_decision st = Some d \<longrightarrow> decision_ok c st d)"

text \<open>Quorums persist while votes are added and rounds advance.\<close>

definition extends :: "tendermint_round_state \<Rightarrow> tendermint_round_state \<Rightarrow> bool" where
  "extends st st' \<longleftrightarrow> rt_height st' = rt_height st \<and> set (rt_votes st) \<subseteq> set (rt_votes st') \<and> rt_round st \<le> rt_round st'"

lemma has_quorum_mono: "has_quorum c st r s x \<Longrightarrow> extends st st' \<Longrightarrow> has_quorum c st' r s x"
  unfolding has_quorum_def extends_def
  by (erule order_trans, rule power_mono) (auto simp: voters_def)

lemma quorum_pair_mono: "quorum_pair c st v r \<Longrightarrow> extends st st' \<Longrightarrow> quorum_pair c st' v r"
  by (auto simp: quorum_pair_def extends_def intro: has_quorum_mono split: option.splits prod.splits)

lemma quorum_pair_Some:
  "r \<le> rt_round st \<Longrightarrow> has_quorum c st r Prevote (Some x) \<Longrightarrow> quorum_pair c st (Some x) (Some r)"
  by (simp add: quorum_pair_def)

lemma round_state_ok_new: "new_round_state c h = Ok st \<Longrightarrow> round_state_ok E S c st"
  by (auto simp: new_round_state_def res_simps round_state_ok_def votes_ok_def proposals_ok_def quorum_pair_def)

lemma receive_proposal_keeps:
  assumes "round_state_ok E S c st"
  shows "round_state_ok E S c (snd (receive_proposal E S c st p))"
proof (cases "rt_decision st = None \<and> tp_height p = rt_height st \<and> tp_round p = rt_round st \<and>
    verify_proposal E S c p = Ok () \<and> find (\<lambda>x. tp_round x = tp_round p) (rt_proposals st) = None \<and>
    check_valid_round E S c st p = Ok ()")
  case True
  let ?st = "st\<lparr>rt_proposals := rt_proposals st @ [p]\<rparr>"
  have st: "snd (receive_proposal E S c st p) = ?st"
    using True by (auto simp: receive_proposal_def ensure_live_def)
  have fresh: "tp_round p \<notin> tp_round ` set (rt_proposals st)" using True by (auto simp: find_None_iff)
  have "extends st ?st" by (simp add: extends_def)
  then show ?thesis
    using assms True fresh unfolding st round_state_ok_def
    by (auto simp: votes_ok_def proposals_ok_def intro: quorum_pair_mono)
next
  case False
  then have "snd (receive_proposal E S c st p) = st"
    by (auto simp: receive_proposal_def ensure_live_def split: sum.splits option.splits)
  then show ?thesis using assms by simp
qed

lemma advance_round_keeps:
  assumes "round_state_ok E S c st"
  shows "round_state_ok E S c (snd (advance_round st))"
proof (cases "rt_decision st = None \<and> (\<exists>r. checked_add (rt_round st) 1 = Some r)")
  case True
  then obtain r where r: "checked_add (rt_round st) 1 = Some r" by blast
  then have le: "rt_round st \<le> r" by (auto simp: u_arith word_le_nat_alt)
  have st: "snd (advance_round st) = st\<lparr>rt_round := r\<rparr>"
    using True r by (simp add: advance_round_def ensure_live_def)
  have "extends st (st\<lparr>rt_round := r\<rparr>)" using le by (simp add: extends_def)
  then show ?thesis
    using assms True le unfolding st round_state_ok_def
    by (auto simp: votes_ok_def proposals_ok_def list_all_iff intro: quorum_pair_mono order_trans)
next
  case False
  then have "snd (advance_round st) = st"
    by (auto simp: advance_round_def ensure_live_def split: option.splits)
  then show ?thesis using assms by simp
qed

text \<open>A vote is either kept, and then in a fresh slot and verified, or changes nothing.\<close>

definition vote_kept :: "crypto_env \<Rightarrow> sig_env \<Rightarrow> committee \<Rightarrow> tendermint_round_state \<Rightarrow> tendermint_vote \<Rightarrow> bool" where
  "vote_kept E S c st v \<longleftrightarrow> rt_decision st = None \<and> tv_height v = rt_height st \<and> tv_round v \<le> rt_round st \<and>
     verify_vote E S c v = Ok () \<and> vote_slot v \<notin> vote_slot ` set (rt_votes st)"

abbreviation push_vote :: "tendermint_round_state \<Rightarrow> tendermint_vote \<Rightarrow> tendermint_round_state" where
  "push_vote st v \<equiv> st\<lparr>rt_votes := rt_votes st @ [v]\<rparr>"

lemma find_same_slot: "find (same_slot v) vs = None \<longleftrightarrow> vote_slot v \<notin> vote_slot ` set vs"
  by (auto simp: find_None_iff same_slot_def vote_slot_def image_iff)

lemma receive_vote_not_kept: "\<not> vote_kept E S c st v \<Longrightarrow> snd (receive_vote E S c st v) = st"
  by (auto simp: receive_vote_def ensure_live_def vote_kept_def find_same_slot[symmetric] split: sum.splits option.splits)

lemma push_vote_ok:
  assumes "round_state_ok E S c st" "vote_kept E S c st v"
  shows "round_state_ok E S c (push_vote st v) \<and> extends st (push_vote st v)"
proof -
  have ext: "extends st (push_vote st v)" by (auto simp: extends_def)
  then show ?thesis
    using assms unfolding round_state_ok_def
    by (auto simp: votes_ok_def proposals_ok_def vote_kept_def intro: quorum_pair_mono)
qed

lemma receive_vote_kept:
  assumes "committee_ok S c" "round_state_ok E S c st" "vote_kept E S c st v"
  shows "receive_vote E S c st v =
     (if has_quorum c (push_vote st v) (tv_round v) (tv_step v) (tv_block_hash v)
      then on_quorum (push_vote st v) (tv_round v) (tv_step v) (tv_block_hash v)
      else (Ok VoteAccepted, push_vote st v))"
proof -
  let ?st = "push_vote st v"
  have "votes_ok E S c ?st" using push_vote_ok[OF assms(2,3)] by (simp add: round_state_ok_def)
  then obtain p where p: "vote_power E S c (rt_votes ?st) (rt_height ?st) (tv_round v) (tv_step v) (tv_block_hash v) = Ok p"
    and q: "cm_quorum c \<le> p \<longleftrightarrow> has_quorum c ?st (tv_round v) (tv_step v) (tv_block_hash v)"
    using vote_power_total[OF assms(1)] by blast
  have "verify_vote E S c v = Ok ()" "rt_decision st = None" "tv_height v = rt_height st" "\<not> rt_round st < tv_round v"
    "find (same_slot v) (rt_votes st) = None"
    using assms(3) by (simp_all add: vote_kept_def find_same_slot not_less)
  then show ?thesis
    using p q[symmetric] by (simp add: receive_vote_def ensure_live_def not_less[symmetric])
qed

lemma on_quorum_keeps:
  assumes "round_state_ok E S c st" "has_quorum c st r s x" "r \<le> rt_round st" "rt_decision st = None"
  shows "round_state_ok E S c (snd (on_quorum st r s x))"
proof (cases s)
  case Prevote
  show ?thesis
  proof (cases x)
    case (Some h)
    let ?st = "st\<lparr>rt_valid_value := Some h, rt_valid_round := Some r\<rparr>"
    have ext: "extends st ?st" by (simp add: extends_def)
    have "quorum_pair c ?st (Some h) (Some r)"
      using assms(2,3) has_quorum_mono[OF _ ext] by (intro quorum_pair_Some) (simp_all add: Prevote Some)
    then show ?thesis
      using assms(1,4) quorum_pair_mono[OF _ ext]
      by (auto simp: on_quorum_def Prevote Some round_state_ok_def votes_ok_def proposals_ok_def)
  qed (use assms(1) in \<open>simp add: on_quorum_def Prevote\<close>)
next
  case Precommit
  show ?thesis
  proof (cases x)
    case (Some h)
    let ?d = "\<lparr>td_height = rt_height st, td_round = r, td_block_hash = h,
      td_precommits = filter (vote_matches (rt_height st) r Precommit (Some h)) (rt_votes st)\<rparr>"
    let ?st = "st\<lparr>rt_decision := Some ?d\<rparr>"
    have ext: "extends st ?st" by (simp add: extends_def)
    have "decision_ok c ?st ?d"
      using has_quorum_mono[OF assms(2) ext] by (simp add: decision_ok_def Precommit Some)
    then show ?thesis
      using assms(1) quorum_pair_mono[OF _ ext]
      by (auto simp: on_quorum_def Precommit Some Let_def round_state_ok_def votes_ok_def proposals_ok_def)
  qed (use assms(1) in \<open>simp add: on_quorum_def Precommit\<close>)
qed

lemma receive_vote_keeps:
  assumes "committee_ok S c" "round_state_ok E S c st"
  shows "round_state_ok E S c (snd (receive_vote E S c st v))"
proof (cases "vote_kept E S c st v")
  case True
  note push = push_vote_ok[OF assms(2) True]
  have "rt_decision (push_vote st v) = None" "tv_round v \<le> rt_round (push_vote st v)"
    using True by (simp_all add: vote_kept_def)
  then show ?thesis
    unfolding receive_vote_kept[OF assms True] using push on_quorum_keeps[of E S c "push_vote st v"] by simp
next
  case False
  show ?thesis unfolding receive_vote_not_kept[OF False] by (rule assms(2))
qed

text \<open>The state after a precommit: unchanged, or locked on a value with a prevote quorum in this round.\<close>

abbreviation lock_on :: "tendermint_round_state \<Rightarrow> hash32 \<Rightarrow> tendermint_round_state" where
  "lock_on st h \<equiv> st\<lparr>rt_locked_value := Some h, rt_locked_round := Some (rt_round st),
     rt_valid_value := Some h, rt_valid_round := Some (rt_round st)\<rparr>"

lemma precommit_loop_cases:
  assumes "committee_ok S c" "votes_ok E S c st"
  shows "(\<exists>x\<in>set xs. has_quorum c st (rt_round st) Prevote x \<and>
            precommit_loop E S c st xs = (Ok x, case x of Some h \<Rightarrow> lock_on st h | None \<Rightarrow> st)) \<or>
         (\<forall>x\<in>set xs. \<not> has_quorum c st (rt_round st) Prevote x) \<and>
            precommit_loop E S c st xs = (Err (InvalidTendermintState ''cannot precommit before a prevote quorum''), st)"
proof (induction xs)
  case (Cons x xs)
  obtain p where "vote_power E S c (rt_votes st) (rt_height st) (rt_round st) Prevote x = Ok p"
    "cm_quorum c \<le> p \<longleftrightarrow> has_quorum c st (rt_round st) Prevote x"
    using vote_power_total[OF assms] by blast
  with Cons show ?case by (cases "cm_quorum c \<le> p") auto
qed simp

lemma quorum_is_candidate:
  assumes "committee_ok S c" "votes_ok E S c st" "has_quorum c st (rt_round st) Prevote x"
  shows "x \<in> set (precommit_candidates st)"
proof -
  have "voters (rt_votes st) (rt_height st) (rt_round st) Prevote x \<noteq> {}"
    using assms(1,3) by (auto simp: has_quorum_def committee_ok_def)
  then show ?thesis
    by (force simp: precommit_candidates_def voters_def vote_matches_def)
qed

lemma precommit_value_cases:
  assumes "committee_ok S c" "round_state_ok E S c st" "rt_decision st = None"
  shows "(\<exists>x. has_quorum c st (rt_round st) Prevote x \<and>
            precommit_value E S c st = (Ok x, case x of Some h \<Rightarrow> lock_on st h | None \<Rightarrow> st)) \<or>
         (\<forall>x. \<not> has_quorum c st (rt_round st) Prevote x) \<and>
            precommit_value E S c st = (Err (InvalidTendermintState ''cannot precommit before a prevote quorum''), st)"
proof -
  have v: "votes_ok E S c st" using assms(2) by (simp add: round_state_ok_def)
  show ?thesis
    using precommit_loop_cases[OF assms(1) v, of "precommit_candidates st"] quorum_is_candidate[OF assms(1) v]
    unfolding precommit_value_def ensure_live_def assms(3) by auto
qed

lemma lock_on_keeps:
  assumes "round_state_ok E S c st" "has_quorum c st (rt_round st) Prevote (Some h)" "rt_decision st = None"
  shows "round_state_ok E S c (lock_on st h)"
proof -
  have ext: "extends st (lock_on st h)" by (simp add: extends_def)
  have "quorum_pair c (lock_on st h) (Some h) (Some (rt_round st))"
    using has_quorum_mono[OF assms(2) ext] by (intro quorum_pair_Some) simp_all
  then show ?thesis using assms(1,3) by (simp add: round_state_ok_def votes_ok_def proposals_ok_def)
qed

lemma precommit_value_keeps:
  assumes "committee_ok S c" "round_state_ok E S c st"
  shows "round_state_ok E S c (snd (precommit_value E S c st))"
proof (cases "rt_decision st = None")
  case True
  with precommit_value_cases[OF assms True] show ?thesis
    using assms(2) lock_on_keeps[OF assms(2)] by (auto split: option.splits)
qed (use assms(2) in \<open>simp add: precommit_value_def ensure_live_def\<close>)

section \<open>Proposer rotation\<close>

text \<open>The reference: walk the validators in id order through consecutive intervals of their weights.\<close>

fun pick :: "nat \<Rightarrow> committee_validator list \<Rightarrow> string option" where
  "pick t [] = None"
| "pick t (v # vs) = (if t < unat (cv_weight v) then Some (cv_id v) else pick (t - unat (cv_weight v)) vs)"

abbreviation weights :: "committee_validator list \<Rightarrow> nat" where
  "weights vs \<equiv> \<Sum>v\<leftarrow>vs. unat (cv_weight v)"

lemma proposer_loop_pick:
  assumes "unat cur + weights vs < 2 ^ 64" "unat cur \<le> unat t" "unat t < unat cur + weights vs"
  shows "\<exists>i. pick (unat t - unat cur) vs = Some i \<and> proposer_loop t cur vs = Ok i"
  using assms
proof (induction vs arbitrary: cur)
  case (Cons v vs)
  have add: "add_power cur v = Ok (cur + cv_weight v)" "unat (cur + cv_weight v) = unat cur + unat (cv_weight v)"
    using Cons.prems(1) by (simp_all add: add_power_def checked_add_def unat_add_exact)
  show ?case
  proof (cases "t < cur + cv_weight v")
    case True
    then show ?thesis using add Cons.prems by (auto simp: word_less_nat_alt)
  next
    case False
    then have ge: "unat cur + unat (cv_weight v) \<le> unat t" using add(2) by (simp add: word_less_nat_alt not_less)
    have "\<exists>i. pick (unat t - unat (cur + cv_weight v)) vs = Some i \<and> proposer_loop t (cur + cv_weight v) vs = Ok i"
      by (rule Cons.IH) (use Cons.prems ge add(2) in auto)
    then show ?thesis using False ge add Cons.prems(2) by (auto simp: diff_diff_left)
  qed
qed simp

lemma pick_count:
  assumes "distinct (map cv_id vs)" "v \<in> set vs"
  shows "card {t. t < weights vs \<and> pick t vs = Some (cv_id v)} = unat (cv_weight v)"
  using assms
proof (induction vs)
  case (Cons w vs)
  let ?w = "unat (cv_weight w)"
  have dom: "pick t vs = Some i \<Longrightarrow> i \<in> set (map cv_id vs)" for t i
    by (induction t vs rule: pick.induct) (auto split: if_splits)
  show ?case
  proof (cases "v = w")
    case True
    have "{t. t < weights (w # vs) \<and> pick t (w # vs) = Some (cv_id v)} = {..<?w}"
      using Cons.prems(1) dom by (fastforce simp: True)
    then show ?thesis by (simp add: True)
  next
    case False
    then have v: "v \<in> set vs" using Cons.prems(2) by simp
    then have "cv_id v \<in> cv_id ` set vs" by simp
    then have "cv_id v \<noteq> cv_id w" using Cons.prems(1) by auto
    have "{t. t < weights (w # vs) \<and> pick t (w # vs) = Some (cv_id v)} =
        (\<lambda>t. t + ?w) ` {t. t < weights vs \<and> pick t vs = Some (cv_id v)}" (is "?L = ?R")
    proof (rule set_eqI)
      fix t
      show "t \<in> ?L \<longleftrightarrow> t \<in> ?R"
      proof (cases "t < ?w")
        case True
        then show ?thesis using \<open>cv_id v \<noteq> cv_id w\<close> by auto
      next
        case False
        then obtain u where u: "t = u + ?w" by (metis le_add_diff_inverse2 not_less)
        then show ?thesis by (auto simp: add.commute[of ?w])
      qed
    qed
    then show ?thesis
      using Cons.IH v Cons.prems(1) by (simp add: card_image inj_on_def)
  qed
qed simp

lemma total_power_ok:
  assumes "committee_ok S c"
  shows "\<exists>t. total_power c = Ok t \<and> unat t = weights (bt_values (cm_validators c)) \<and>
     unat t = voting_power (cm_validators c) (members (cm_validators c))"
proof -
  let ?m = "cm_validators c"
  have wf: "bt_wf ?m" and ids: "\<And>i v. bt_get ?m i = Some v \<Longrightarrow> cv_id v = i"
    and lim: "voting_power ?m (members ?m) < 2 ^ 64"
    using assms by (auto simp: committee_ok_def)
  have keys: "map cv_id (bt_values ?m) = map fst ?m"
    using ids unfolding bt_values_def by (auto simp: bt_get_eq_Some[OF wf])
  have tab: "validators_table (bt_values ?m) = ?m"
    unfolding validators_table_def bt_values_def map_map
    by (rule map_idI) (use ids in \<open>auto simp: bt_get_eq_Some[OF wf]\<close>)
  have sum: "voting_power ?m (members ?m) = weights (bt_values ?m)"
    by (rule power_table) (simp_all add: keys bt_wf_distinct[OF wf] tab, simp add: bt_get_def fun_eq_iff)
  have "weights vs < 2 ^ 64 \<Longrightarrow> \<exists>t. fold_res add_power 0 vs = Ok t \<and> unat t = weights vs" for vs
  proof (induction vs rule: rev_induct)
    case (snoc v vs)
    then show ?case by (auto simp: fold_res_snoc add_power_def checked_add_def unat_add_exact)
  qed simp
  then show ?thesis using lim sum by (simp add: total_power_def)
qed

lemma shift_mod_count:
  assumes "0 < (T::nat)"
  shows "card {h. h < T \<and> P ((h + r) mod T)} = card {t. t < T \<and> P t}"
proof -
  have inj: "inj_on (\<lambda>h. (h + r) mod T) {..<T}"
  proof (rule inj_onI)
    fix x y assume xy: "x \<in> {..<T}" "y \<in> {..<T}" and eq: "(x + r) mod T = (y + r) mod T"
    let ?s = "r mod T"
    have red: "(z + r) mod T = (if z + ?s < T then z + ?s else z + ?s - T)" if "z < T" for z
    proof -
      have "z + ?s < T + T" using that mod_less_divisor[OF assms, of r] by linarith
      then have "(z + ?s) mod T = (if z + ?s < T then z + ?s else z + ?s - T)" by (simp add: le_mod_geq)
      then show ?thesis by (simp add: mod_add_right_eq)
    qed
    show "x = y"
      using eq xy red[of x] red[of y] by (auto split: if_splits)
  qed
  let ?f = "\<lambda>h. (h + r) mod T"
  have onto: "?f ` {..<T} = {..<T}"
    by (rule endo_inj_surj[OF _ _ inj]) (use assms in auto)
  have "?f ` {h. h < T \<and> P (?f h)} = {t. t < T \<and> P t}"
  proof
    show "{t. t < T \<and> P t} \<subseteq> ?f ` {h. h < T \<and> P (?f h)}"
    proof
      fix t assume t: "t \<in> {t. t < T \<and> P t}"
      then have "t \<in> ?f ` {..<T}" unfolding onto by simp
      then obtain h where "h < T" "t = ?f h" by blast
      with t show "t \<in> ?f ` {h. h < T \<and> P (?f h)}" by blast
    qed
  qed (use assms in auto)
  moreover have "inj_on ?f {h. h < T \<and> P (?f h)}" by (rule inj_on_subset[OF inj]) auto
  ultimately show ?thesis using card_image by fastforce
qed

lemma unat_ucast_u32 [simp]: "unat (ucast (r :: u32) :: u64) = unat r"
proof -
  have "unat r < 2 ^ 64" using unsigned_less[of r, where ?'a = nat] by simp
  then show ?thesis by (simp add: unsigned_ucast_eq take_bit_nat_eq_self)
qed

lemma proposer_id_pick:
  assumes "committee_ok S c" "voting_power (cm_validators c) (members (cm_validators c)) \<le> 2 ^ 63"
  defines "T \<equiv> voting_power (cm_validators c) (members (cm_validators c))"
  shows "\<exists>i. proposer_id c height r = Ok i \<and>
     pick ((unat height + unat r) mod T) (bt_values (cm_validators c)) = Some i"
proof -
  let ?vs = "bt_values (cm_validators c)"
  obtain t where t: "total_power c = Ok t" "unat t = weights ?vs" "unat t = T"
    using total_power_ok[OF assms(1)] by (auto simp: T_def)
  have pos: "0 < T" using assms(1) by (auto simp: committee_ok_def T_def)
  let ?a = "height mod t" and ?b = "(ucast r :: u64) mod t"
  have ab: "unat ?a = unat height mod T" "unat ?b = unat r mod T" by (simp_all add: unat_mod t(3))
  have small: "unat height mod T < T" "unat r mod T < T" using pos by simp_all
  have "T \<le> 9223372036854775808" using assms(2) by (simp add: T_def)
  then have lim: "unat ?a + unat ?b < 2 ^ 64" 
    unfolding ab by (intro order_less_le_trans[OF add_strict_mono[OF small]]) simp
  let ?t = "(?a + ?b) mod t"
  have ut: "unat ?t = (unat height + unat r) mod T"
    using lim ab by (simp add: unat_mod unat_add_exact t(3) mod_add_eq)
  have sorted: "sort_key cv_id ?vs = ?vs"
    by (rule sort_bt_values) (use assms(1) in \<open>auto simp: committee_ok_def\<close>)
  have "unat (0::u64) + weights ?vs < 2 ^ 64" using assms(1) t(2,3) by (simp add: committee_ok_def T_def)
  moreover have "unat ?t < unat (0::u64) + weights ?vs" using pos t(2,3) ut by simp
  ultimately obtain i where "pick (unat ?t) ?vs = Some i" "proposer_loop ?t 0 ?vs = Ok i"
    using proposer_loop_pick[of 0 ?vs ?t] by auto
  then show ?thesis
    using t(1) lim sorted ut by (simp add: proposer_id_def checked_add_def)
qed

section \<open>Properties\<close>

text \<open>
  \<^bold>\<open>C23\<close>. Proposer rotation is total and proportional to weight: at any round, over a full
  cycle of consecutive heights every validator is the proposer at exactly as many heights as its
  weight, provided the total power is at most half of the 64-bit range (beyond that the addition
  of the two remainders can overflow).
\<close>

theorem proposer_rotation_proportional:
  assumes "committee_ok S c" "voting_power (cm_validators c) (members (cm_validators c)) \<le> 2 ^ 63"
    and "bt_get (cm_validators c) i = Some v"
  shows "card {h. h < voting_power (cm_validators c) (members (cm_validators c)) \<and>
           proposer_id c (word_of_nat h) r = Ok i} = unat (cv_weight v)"
proof -
  let ?m = "cm_validators c" and ?vs = "bt_values (cm_validators c)"
  let ?T = "voting_power ?m (members ?m)"
  have wf: "bt_wf ?m" and ids: "\<And>i v. bt_get ?m i = Some v \<Longrightarrow> cv_id v = i" and pos: "0 < ?T"
    using assms(1) by (auto simp: committee_ok_def)
  have "map cv_id ?vs = map fst ?m"
    using ids unfolding bt_values_def by (auto simp: bt_get_eq_Some[OF wf])
  then have d: "distinct (map cv_id ?vs)" using bt_wf_distinct[OF wf] by simp
  have v: "v \<in> set ?vs" "cv_id v = i"
    using assms(3) ids unfolding bt_values_def by (force simp: bt_get_eq_Some[OF wf])+
  have T: "?T = weights ?vs" using total_power_ok[OF assms(1)] by auto
  have "proposer_id c (word_of_nat h) r = Ok i \<longleftrightarrow> pick ((h + unat r) mod ?T) ?vs = Some i" if "h < ?T" for h
  proof -
    have "unat (word_of_nat h :: u64) = h" using that assms(2) by (simp add: unat_of_nat take_bit_nat_eq_self)
    then show ?thesis using proposer_id_pick[OF assms(1,2), of "word_of_nat h" r] by auto
  qed
  then have "{h. h < ?T \<and> proposer_id c (word_of_nat h) r = Ok i} = {h. h < ?T \<and> pick ((h + unat r) mod ?T) ?vs = Some i}"
    by auto
  also have "card \<dots> = card {t. t < ?T \<and> pick t ?vs = Some i}" by (rule shift_mod_count[OF pos])
  also have "\<dots> = unat (cv_weight v)" using pick_count[OF d v(1)] by (simp add: T v(2))
  finally show ?thesis .
qed

theorem proposer_rotation_proportional_witness:
  "card {h. h < 3 \<and> proposer_id sample_committee (word_of_nat h) 0 = Ok ''bob''} = 1"
proof -
  have m: "members (cm_validators sample_committee) = {''alice'', ''bob'', ''carol''}" by (auto simp: sample_committee_get)
  have p: "voting_power (cm_validators sample_committee) (members (cm_validators sample_committee)) = 3"
    unfolding m by (subst sample_power) simp_all
  from proposer_rotation_proportional[OF sample_committee_ok, of "''bob''" _ 0] show ?thesis
    unfolding p by (simp add: sample_committee_get signer_validator_def)
qed

end
