(* ===== verification/Tendermint_Safety.thy ===== *)
theory Tendermint_Safety
  imports Tendermint
begin

text \<open>
  Agreement of the Tendermint engine. Every validator outside a set \<open>F\<close> runs the round state of
  \<open>consensus/src/tendermint.rs\<close> and follows its driver contract: it signs at most one prevote and
  one precommit per round, the prevote first, with the values that \<open>prevote_value\<close> and
  \<open>precommit_value\<close> return. Validators in \<open>F\<close> send anything. Messages are delivered in any order,
  repeatedly or never; the only assumption on the network is that a vote that verifies under the
  key of a validator outside \<open>F\<close> was cast by it.
\<close>

section \<open>The world\<close>

type_synonym cast_vote = "string \<times> u32 \<times> tendermint_step \<times> hash32 option"

record tm_world =
  tw_node :: "string \<Rightarrow> tendermint_round_state"
  tw_cast :: "cast_vote set"

definition cast_of :: "tendermint_vote \<Rightarrow> cast_vote" where
  "cast_of v = (tv_validator_id v, tv_round v, tv_step v, tv_block_hash v)"

definition unforged :: "crypto_env \<Rightarrow> sig_env \<Rightarrow> committee \<Rightarrow> string set \<Rightarrow> u64 \<Rightarrow> tm_world \<Rightarrow> tendermint_vote \<Rightarrow> bool" where
  "unforged E S c F h w v \<longleftrightarrow>
     (verify_vote E S c v = Ok () \<and> tv_height v = h \<and> tv_validator_id v \<notin> F \<longrightarrow> cast_of v \<in> tw_cast w)"

abbreviation set_node :: "tm_world \<Rightarrow> string \<Rightarrow> tendermint_round_state \<Rightarrow> tm_world" where
  "set_node w i st \<equiv> w\<lparr>tw_node := (tw_node w)(i := st)\<rparr>"

abbreviation add_cast :: "tm_world \<Rightarrow> cast_vote \<Rightarrow> tm_world" where
  "add_cast w x \<equiv> w\<lparr>tw_cast := insert x (tw_cast w)\<rparr>"

inductive tm_step :: "crypto_env \<Rightarrow> sig_env \<Rightarrow> committee \<Rightarrow> string set \<Rightarrow> u64 \<Rightarrow> tm_world \<Rightarrow> tm_world \<Rightarrow> bool"
  for E S c F h where
  proposal: "tm_step E S c F h w (set_node w i (snd (receive_proposal E S c (tw_node w i) p)))"
| vote: "unforged E S c F h w v \<Longrightarrow> tm_step E S c F h w (set_node w i (snd (receive_vote E S c (tw_node w i) v)))"
| prevote: "i \<notin> F \<Longrightarrow> prevote_value E S c (tw_node w i) = Ok x \<Longrightarrow>
    \<forall>s y. (i, rt_round (tw_node w i), s, y) \<notin> tw_cast w \<Longrightarrow>
    tm_step E S c F h w (add_cast w (i, rt_round (tw_node w i), Prevote, x))"
| precommit: "i \<notin> F \<Longrightarrow> precommit_value E S c (tw_node w i) = (Ok x, st) \<Longrightarrow>
    \<forall>y. (i, rt_round (tw_node w i), Precommit, y) \<notin> tw_cast w \<Longrightarrow>
    tm_step E S c F h w (add_cast (set_node w i st) (i, rt_round (tw_node w i), Precommit, x))"
| advance: "tm_step E S c F h w (set_node w i (snd (advance_round (tw_node w i))))"

inductive tm_reach :: "crypto_env \<Rightarrow> sig_env \<Rightarrow> committee \<Rightarrow> string set \<Rightarrow> u64 \<Rightarrow> tm_world \<Rightarrow> bool"
  for E S c F h where
  start: "new_round_state c h = Ok st \<Longrightarrow> tm_reach E S c F h \<lparr>tw_node = (\<lambda>_. st), tw_cast = {}\<rparr>"
| run: "tm_reach E S c F h w \<Longrightarrow> tm_step E S c F h w w' \<Longrightarrow> tm_reach E S c F h w'"

section \<open>Invariants\<close>

text \<open>A value has a prevote quorum in a round, counted over the votes cast outside \<open>F\<close>.\<close>

definition polka :: "committee \<Rightarrow> string set \<Rightarrow> cast_vote set \<Rightarrow> u32 \<Rightarrow> tendermint_step \<Rightarrow> hash32 \<Rightarrow> bool" where
  "polka c F C r s x \<longleftrightarrow> (\<exists>Q \<subseteq> members (cm_validators c). unat (cm_quorum c) \<le> voting_power (cm_validators c) Q \<and>
     (\<forall>q\<in>Q - F. (q, r, s, Some x) \<in> C))"

definition nodes_ok :: "crypto_env \<Rightarrow> sig_env \<Rightarrow> committee \<Rightarrow> string set \<Rightarrow> u64 \<Rightarrow> tm_world \<Rightarrow> bool" where
  "nodes_ok E S c F h w \<longleftrightarrow> (\<forall>i. round_state_ok E S c (tw_node w i) \<and> rt_height (tw_node w i) = h \<and>
     (\<forall>v\<in>set (rt_votes (tw_node w i)). tv_validator_id v \<notin> F \<longrightarrow> cast_of v \<in> tw_cast w))"

definition cast_ok :: "tm_world \<Rightarrow> bool" where
  "cast_ok w \<longleftrightarrow> (\<forall>i r s x. (i, r, s, x) \<in> tw_cast w \<longrightarrow> r \<le> rt_round (tw_node w i)) \<and>
     (\<forall>i r s x y. (i, r, s, x) \<in> tw_cast w \<longrightarrow> (i, r, s, y) \<in> tw_cast w \<longrightarrow> x = y)"

definition locks_ok :: "committee \<Rightarrow> string set \<Rightarrow> tm_world \<Rightarrow> bool" where
  "locks_ok c F w \<longleftrightarrow>
     (\<forall>i r x. (i, r, Precommit, Some x) \<in> tw_cast w \<longrightarrow> polka c F (tw_cast w) r Prevote x \<and>
        (\<exists>y l. rt_locked_value (tw_node w i) = Some y \<and> rt_locked_round (tw_node w i) = Some l \<and>
               r \<le> l \<and> (l = r \<longrightarrow> y = x))) \<and>
     (\<forall>i l. i \<notin> F \<longrightarrow> rt_locked_round (tw_node w i) = Some l \<longrightarrow>
        (i, l, Precommit, rt_locked_value (tw_node w i)) \<in> tw_cast w)"

definition prevotes_ok :: "committee \<Rightarrow> string set \<Rightarrow> tm_world \<Rightarrow> bool" where
  "prevotes_ok c F w \<longleftrightarrow>
     (\<forall>i r x r' y. (i, r, Precommit, Some x) \<in> tw_cast w \<longrightarrow> (i, r', Prevote, Some y) \<in> tw_cast w \<longrightarrow> r < r' \<longrightarrow>
        y = x \<or> (\<exists>l. r \<le> l \<and> l < r' \<and> polka c F (tw_cast w) l Prevote y))"

definition world_ok :: "crypto_env \<Rightarrow> sig_env \<Rightarrow> committee \<Rightarrow> string set \<Rightarrow> u64 \<Rightarrow> tm_world \<Rightarrow> bool" where
  "world_ok E S c F h w \<longleftrightarrow> nodes_ok E S c F h w \<and> cast_ok w \<and> locks_ok c F w \<and> prevotes_ok c F w"

lemma polka_mono: "polka c F C r s x \<Longrightarrow> C \<subseteq> C' \<Longrightarrow> polka c F C' r s x"
  unfolding polka_def by blast

lemma quorum_polka:
  assumes "committee_ok S c" "nodes_ok E S c F h w" "has_quorum c (tw_node w i) r s (Some x)"
  shows "polka c F (tw_cast w) r s x"
proof -
  let ?st = "tw_node w i"
  let ?Q = "voters (rt_votes ?st) (rt_height ?st) r s (Some x)"
  have v: "votes_ok E S c ?st" using assms(2) by (simp add: nodes_ok_def round_state_ok_def)
  have "?Q \<subseteq> members (cm_validators c)" using vote_power_total[OF assms(1) v] by blast
  moreover have "(q, r, s, Some x) \<in> tw_cast w" if "q \<in> ?Q - F" for q
    using that assms(2) by (force simp: in_voters vote_matches_def nodes_ok_def cast_of_def)
  ultimately show ?thesis using assms(3) unfolding polka_def has_quorum_def by blast
qed

section \<open>Steps that only change what a node has received\<close>

text \<open>Receiving a message or advancing keeps the locks, the round at least, and only adds genuine votes.\<close>

definition quiet :: "string set \<Rightarrow> tm_world \<Rightarrow> tendermint_round_state \<Rightarrow> tendermint_round_state \<Rightarrow> bool" where
  "quiet F w st st' \<longleftrightarrow> rt_height st' = rt_height st \<and> rt_round st \<le> rt_round st' \<and>
     rt_locked_value st' = rt_locked_value st \<and> rt_locked_round st' = rt_locked_round st \<and>
     (\<forall>v\<in>set (rt_votes st') - set (rt_votes st). tv_validator_id v \<notin> F \<longrightarrow> cast_of v \<in> tw_cast w)"

lemma quiet_refl [simp]: "quiet F w st st"
  by (simp add: quiet_def)

lemma quiet_keeps:
  assumes "world_ok E S c F h w" "quiet F w (tw_node w i) st" "round_state_ok E S c st"
  shows "world_ok E S c F h (set_node w i st)"
proof -
  have "nodes_ok E S c F h (set_node w i st)"
    using assms unfolding world_ok_def nodes_ok_def quiet_def by auto
  moreover have "cast_ok (set_node w i st)"
    using assms(1,2) unfolding world_ok_def cast_ok_def quiet_def
    by (auto, metis order_trans)
  moreover have "locks_ok c F (set_node w i st)"
    using assms(1,2) unfolding world_ok_def locks_ok_def quiet_def by auto
  moreover have "prevotes_ok c F (set_node w i st)"
    using assms(1) unfolding world_ok_def prevotes_ok_def by simp
  ultimately show ?thesis unfolding world_ok_def by simp
qed

lemma receive_proposal_quiet: "quiet F w st (snd (receive_proposal E S c st p))"
  by (auto simp: receive_proposal_def quiet_def split: sum.splits option.splits)

lemma advance_round_quiet: "quiet F w st (snd (advance_round st))"
  by (auto simp: advance_round_def quiet_def u_arith word_le_nat_alt split: sum.splits option.splits)

lemma on_quorum_quiet:
  "quiet F w st st' \<Longrightarrow> quiet F w st (snd (on_quorum st' r s x))"
  by (auto simp: on_quorum_def quiet_def Let_def split: tendermint_step.splits option.splits)

lemma receive_vote_quiet:
  assumes "committee_ok S c" "round_state_ok E S c st" "rt_height st = h" "unforged E S c F h w v"
  shows "quiet F w st (snd (receive_vote E S c st v))"
proof (cases "vote_kept E S c st v")
  case True
  have "quiet F w st (push_vote st v)"
    using assms(3,4) True by (auto simp: quiet_def unforged_def vote_kept_def)
  then show ?thesis
    unfolding receive_vote_kept[OF assms(1,2) True] using on_quorum_quiet by auto
next
  case False
  show ?thesis unfolding receive_vote_not_kept[OF False] by simp
qed

section \<open>Casting votes\<close>

lemma prevote_value_cases:
  assumes "committee_ok S c" "round_state_ok E S c st" "prevote_value E S c st = Ok (Some y)"
  shows "rt_locked_value st = None \<or> rt_locked_value st = Some y \<or>
    (\<exists>l r. rt_locked_round st = Some l \<and> l \<le> r \<and> r < rt_round st \<and> has_quorum c st r Prevote (Some y))"
proof -
  from assms(3) obtain p where p: "find (\<lambda>p. tp_round p = rt_round st) (rt_proposals st) = Some p"
    and y: "tp_block_hash p = y"
    by (auto simp: prevote_value_def res_simps split: option.splits if_splits)
  from p have mem: "p \<in> set (rt_proposals st)" and r: "tp_round p = rt_round st"
    by (auto simp: find_Some_iff)
  have "verify_proposal E S c p = Ok ()"
    using assms(2) mem by (simp add: round_state_ok_def proposals_ok_def list_all_iff)
  then have low: "\<not> bad_valid_round (tp_valid_round p) (rt_round st)"
    by (auto simp: verify_proposal_def res_simps r split: if_splits)
  have v: "votes_ok E S c st" using assms(2) by (simp add: round_state_ok_def)
  show ?thesis
  proof (cases "rt_locked_value st = None \<or> rt_locked_value st = Some y")
    case False
    then obtain l vr pw where "rt_locked_round st = Some l" "tp_valid_round p = Some vr" "\<not> vr < l"
      "vote_power E S c (rt_votes st) (rt_height st) vr Prevote (Some y) = Ok pw" "cm_quorum c \<le> pw"
      using assms(3) p y
      by (auto simp: prevote_value_def res_simps ensure_live_def split: option.splits if_splits)
    moreover from this have "has_quorum c st vr Prevote (Some y)"
      using vote_power_total[OF assms(1) v, of vr Prevote "Some y"] by auto
    moreover have "vr < rt_round st" using low calculation(2) by (simp add: bad_valid_round_def)
    ultimately show ?thesis by (auto simp: not_less)
  qed auto
qed

lemma nodes_ok_add_cast: "nodes_ok E S c F h w \<Longrightarrow> nodes_ok E S c F h (add_cast w x)"
  by (auto simp: nodes_ok_def)

lemma prevote_keeps:
  assumes "committee_ok S c" "world_ok E S c F h w" "i \<notin> F" "prevote_value E S c (tw_node w i) = Ok x"
    and fresh: "\<forall>s y. (i, rt_round (tw_node w i), s, y) \<notin> tw_cast w"
  shows "world_ok E S c F h (add_cast w (i, rt_round (tw_node w i), Prevote, x))"
proof -
  let ?st = "tw_node w i" and ?C = "tw_cast w"
  let ?w = "add_cast w (i, rt_round ?st, Prevote, x)"
  have n: "nodes_ok E S c F h w" and k: "cast_ok w" and l: "locks_ok c F w" and pv: "prevotes_ok c F w"
    using assms(2) by (simp_all add: world_ok_def)
  have st: "round_state_ok E S c ?st" using n by (simp add: nodes_ok_def)
  have mono: "polka c F ?C r s y \<Longrightarrow> polka c F (tw_cast ?w) r s y" for r s y
    by (rule polka_mono) auto
  have justified: "y = a \<or> (\<exists>q. r \<le> q \<and> q < rt_round ?st \<and> polka c F ?C q Prevote y)"
    if "(i, r, Precommit, Some a) \<in> ?C" "x = Some y" for r a y
  proof -
    from l that(1) obtain b q where lk: "rt_locked_value ?st = Some b" "rt_locked_round ?st = Some q"
      "r \<le> q" "q = r \<longrightarrow> b = a" unfolding locks_ok_def by blast
    from l lk assms(3) have qc: "(i, q, Precommit, Some b) \<in> ?C" unfolding locks_ok_def by metis
    from k qc have "q \<le> rt_round ?st" unfolding cast_ok_def by blast
    moreover have "q \<noteq> rt_round ?st" using fresh qc by blast
    ultimately have q: "q < rt_round ?st" by simp
    from l qc have pol: "polka c F ?C q Prevote b" unfolding locks_ok_def by blast
    from prevote_value_cases[OF assms(1) st] assms(4) that(2) lk
    consider "b = y" | l' where "q \<le> l'" "l' < rt_round ?st" "has_quorum c ?st l' Prevote (Some y)" by auto
    then show ?thesis
    proof cases
      case 1
      with lk(3,4) q pol show ?thesis by blast
    next
      case 2
      with quorum_polka[OF assms(1) n 2(3)] lk(3) show ?thesis by (meson order_trans)
    qed
  qed
  have "cast_ok ?w" using k fresh unfolding cast_ok_def by auto
  moreover have "locks_ok c F ?w"
    using l mono unfolding locks_ok_def by auto
  moreover have "prevotes_ok c F ?w"
    unfolding prevotes_ok_def
  proof (intro allI impI)
    fix j r a r' y
    assume "(j, r, Precommit, Some a) \<in> tw_cast ?w" "(j, r', Prevote, Some y) \<in> tw_cast ?w" "r < r'"
    then have a: "(j, r, Precommit, Some a) \<in> ?C"
      and "(j, r', Prevote, Some y) \<in> ?C \<or> j = i \<and> r' = rt_round ?st \<and> x = Some y" by auto
    then consider "(j, r', Prevote, Some y) \<in> ?C" | "j = i" "r' = rt_round ?st" "x = Some y" by blast
    then show "y = a \<or> (\<exists>l. r \<le> l \<and> l < r' \<and> polka c F (tw_cast ?w) l Prevote y)"
    proof cases
      case 1
      with pv a \<open>r < r'\<close> mono show ?thesis unfolding prevotes_ok_def by meson
    next
      case 2
      with justified[of r a y] a mono show ?thesis by blast
    qed
  qed
  ultimately show ?thesis using nodes_ok_add_cast[OF n] unfolding world_ok_def by blast
qed

lemma precommit_keeps:
  assumes "committee_ok S c" "world_ok E S c F h w" "i \<notin> F" "precommit_value E S c (tw_node w i) = (Ok x, st)"
    and fresh: "\<forall>y. (i, rt_round (tw_node w i), Precommit, y) \<notin> tw_cast w"
  shows "world_ok E S c F h (add_cast (set_node w i st) (i, rt_round (tw_node w i), Precommit, x))"
proof -
  let ?st = "tw_node w i" and ?C = "tw_cast w"
  let ?w = "add_cast (set_node w i st) (i, rt_round ?st, Precommit, x)"
  have n: "nodes_ok E S c F h w" and k: "cast_ok w" and l: "locks_ok c F w" and pv: "prevotes_ok c F w"
    using assms(2) by (simp_all add: world_ok_def)
  have ok: "round_state_ok E S c ?st" using n by (simp add: nodes_ok_def)
  have live: "rt_decision ?st = None"
    using assms(4) by (auto simp: precommit_value_def ensure_live_def split: if_splits)
  have q: "has_quorum c ?st (rt_round ?st) Prevote x" and st: "st = (case x of Some h \<Rightarrow> lock_on ?st h | None \<Rightarrow> ?st)"
    using precommit_value_cases[OF assms(1) ok live] assms(4) by auto
  have same: "rt_height st = rt_height ?st" "rt_round st = rt_round ?st" "rt_votes st = rt_votes ?st"
    unfolding st by (auto split: option.splits)
  have sok: "round_state_ok E S c st" using precommit_value_keeps[OF assms(1) ok] assms(4) by simp
  have sub: "?C \<subseteq> tw_cast ?w" by auto
  note mono = polka_mono[OF _ sub]
  have "nodes_ok E S c F h ?w" using n same sok unfolding nodes_ok_def by auto
  moreover have "cast_ok ?w" using k fresh same unfolding cast_ok_def by auto
  moreover have "locks_ok c F ?w"
  proof (cases x)
    case None
    then show ?thesis using l mono unfolding locks_ok_def st by auto
  next
    case (Some y)
    have old: "r < rt_round ?st" if "(i, r, Precommit, z) \<in> ?C" for r z
      using k fresh that unfolding cast_ok_def by (metis order_le_neq_trans)
    have pol: "polka c F (tw_cast ?w) (rt_round ?st) Prevote y"
      using mono[OF quorum_polka[OF assms(1) n q[unfolded Some]]] .
    show ?thesis
      using l mono pol old fresh unfolding locks_ok_def st Some by (auto simp: less_imp_le)
  qed
  moreover have "prevotes_ok c F ?w"
    unfolding prevotes_ok_def
  proof (intro allI impI)
    fix j r a r' y
    assume "(j, r, Precommit, Some a) \<in> tw_cast ?w" "(j, r', Prevote, Some y) \<in> tw_cast ?w" "r < r'"
    moreover from this have "(j, r', Prevote, Some y) \<in> ?C" by simp
    moreover from this k have "r' \<le> rt_round (tw_node w j)" unfolding cast_ok_def by blast
    ultimately have "(j, r, Precommit, Some a) \<in> ?C" "(j, r', Prevote, Some y) \<in> ?C" "r < r'" by auto
    with pv mono show "y = a \<or> (\<exists>l. r \<le> l \<and> l < r' \<and> polka c F (tw_cast ?w) l Prevote y)"
      unfolding prevotes_ok_def by meson
  qed
  ultimately show ?thesis unfolding world_ok_def by blast
qed

section \<open>Reachable worlds\<close>

lemma world_ok_step:
  assumes "committee_ok S c" "tm_step E S c F h w w'" "world_ok E S c F h w"
  shows "world_ok E S c F h w'"
proof -
  have st: "round_state_ok E S c (tw_node w i)" "rt_height (tw_node w i) = h" for i
    using assms(3) by (simp_all add: world_ok_def nodes_ok_def)
  from assms(2) show ?thesis
  proof cases
    case (proposal i p)
    show ?thesis unfolding proposal
      by (rule quiet_keeps[OF assms(3) receive_proposal_quiet receive_proposal_keeps[OF st(1)]])
  next
    case (vote v i)
    show ?thesis unfolding vote(1)
      by (rule quiet_keeps[OF assms(3) receive_vote_quiet[OF assms(1) st vote(2)] receive_vote_keeps[OF assms(1) st(1)]])
  next
    case (prevote i x)
    then show ?thesis using prevote_keeps[OF assms(1,3)] by blast
  next
    case (precommit i x st)
    then show ?thesis using precommit_keeps[OF assms(1,3)] by blast
  next
    case (advance i)
    show ?thesis unfolding advance
      by (rule quiet_keeps[OF assms(3) advance_round_quiet advance_round_keeps[OF st(1)]])
  qed
qed

lemma world_ok_start:
  assumes "new_round_state c h = Ok st"
  shows "world_ok E S c F h \<lparr>tw_node = (\<lambda>_. st), tw_cast = {}\<rparr>"
proof -
  have "rt_height st = h" "rt_votes st = []" "rt_locked_round st = None"
    using assms by (auto simp: new_round_state_def res_simps)
  then show ?thesis
    using round_state_ok_new[OF assms]
    by (simp add: world_ok_def nodes_ok_def cast_ok_def locks_ok_def prevotes_ok_def)
qed

lemma reach_world_ok:
  assumes "tm_reach E S c F h w" "committee_ok S c"
  shows "world_ok E S c F h w"
  using assms(1) by induction (use assms(2) world_ok_start world_ok_step in blast)+

section \<open>Agreement\<close>

lemma polka_meet:
  assumes "polka c F C r s x" "polka c F C r' s' y" "finite F"
    and "voting_power (cm_validators c) (members (cm_validators c)) + voting_power (cm_validators c) F < 2 * unat (cm_quorum c)"
  shows "\<exists>i. (i, r, s, Some x) \<in> C \<and> (i, r', s', Some y) \<in> C"
proof (rule ccontr)
  assume none: "\<not> ?thesis"
  let ?m = "cm_validators c"
  from assms(1,2) obtain Q Q' where Q: "Q \<subseteq> members ?m" "unat (cm_quorum c) \<le> voting_power ?m Q" "\<forall>q\<in>Q - F. (q, r, s, Some x) \<in> C"
    and Q': "Q' \<subseteq> members ?m" "unat (cm_quorum c) \<le> voting_power ?m Q'" "\<forall>q\<in>Q' - F. (q, r', s', Some y) \<in> C"
    unfolding polka_def by blast
  have "Q \<inter> Q' \<subseteq> F" using none Q(3) Q'(3) by blast
  then have "voting_power ?m (Q \<inter> Q') \<le> voting_power ?m F" using assms(3) by (rule power_mono)
  with power_overlap[OF finite_dom_bt_get Q(1) Q'(1), of ?m] Q(2) Q'(2) assms(4) show False by linarith
qed

lemma precommit_quorum_fixes_value:
  assumes "world_ok E S c F h w" "finite F"
    and byz: "voting_power (cm_validators c) (members (cm_validators c)) + voting_power (cm_validators c) F < 2 * unat (cm_quorum c)"
    and "polka c F (tw_cast w) r Precommit x" "polka c F (tw_cast w) r' Prevote y" "r \<le> r'"
  shows "y = x"
  using assms(5,6)
proof (induction r' arbitrary: y rule: less_induct)
  case (less r')
  let ?C = "tw_cast w"
  have k: "cast_ok w" and l: "locks_ok c F w" and pv: "prevotes_ok c F w"
    using assms(1) by (simp_all add: world_ok_def)
  from polka_meet[OF assms(4) less.prems(1) assms(2) byz] obtain i
    where i: "(i, r, Precommit, Some x) \<in> ?C" "(i, r', Prevote, Some y) \<in> ?C" by blast
  show ?case
  proof (cases "r = r'")
    case True
    from l i(1) have "polka c F ?C r Prevote x" unfolding locks_ok_def by blast
    from polka_meet[OF this less.prems(1) assms(2) byz] obtain j
      where "(j, r, Prevote, Some x) \<in> ?C" "(j, r', Prevote, Some y) \<in> ?C" by blast
    with k True show ?thesis unfolding cast_ok_def by blast
  next
    case False
    with less.prems(2) have "r < r'" by simp
    with pv i consider "y = x" | q where "r \<le> q" "q < r'" "polka c F ?C q Prevote y"
      unfolding prevotes_ok_def by meson
    then show ?thesis using less.IH by cases blast+
  qed
qed

lemma precommit_quorums_agree:
  assumes "world_ok E S c F h w" "finite F"
    and byz: "voting_power (cm_validators c) (members (cm_validators c)) + voting_power (cm_validators c) F < 2 * unat (cm_quorum c)"
    and "polka c F (tw_cast w) r Precommit x" "polka c F (tw_cast w) r' Precommit y"
  shows "x = y"
proof -
  have pol: "polka c F (tw_cast w) q Prevote z" if "polka c F (tw_cast w) q Precommit z" for q z
  proof -
    from polka_meet[OF that that assms(2) byz] obtain i where "(i, q, Precommit, Some z) \<in> tw_cast w" by blast
    then show ?thesis using assms(1) unfolding world_ok_def locks_ok_def by blast
  qed
  note fix_value = precommit_quorum_fixes_value[OF assms(1-3)]
  show ?thesis
  proof (cases "r \<le> r'")
    case True
    from fix_value[OF assms(4) pol[OF assms(5)] True] show ?thesis by simp
  next
    case False
    then show ?thesis using fix_value[OF assms(5) pol[OF assms(4)]] by simp
  qed
qed

lemma decision_polka:
  assumes "committee_ok S c" "nodes_ok E S c F h w" "rt_decision (tw_node w i) = Some d"
  shows "polka c F (tw_cast w) (td_round d) Precommit (td_block_hash d)"
proof -
  have "has_quorum c (tw_node w i) (td_round d) Precommit (Some (td_block_hash d))"
    using assms(2,3) by (simp add: nodes_ok_def round_state_ok_def decision_ok_def)
  then show ?thesis by (rule quorum_polka[OF assms(1,2)])
qed

text \<open>The quorum check at the start of a height turns a third of faulty power into the overlap condition.\<close>

lemma quorum_two_thirds:
  assumes "committee_ok S c" "new_round_state c h = Ok st"
  shows "2 * voting_power (cm_validators c) (members (cm_validators c)) < 3 * unat (cm_quorum c)"
proof -
  obtain t where t: "total_power c = Ok t" "unat t = voting_power (cm_validators c) (members (cm_validators c))"
    using total_power_ok[OF assms(1)] by blast
  from assms(2) t(1) obtain a b where "checked_mul (cm_quorum c) 3 = Some a" "checked_mul t 2 = Some b" "\<not> a \<le> b"
    by (auto simp: new_round_state_def validate_tendermint_quorum_def res_simps split: if_splits)
  then show ?thesis by (auto simp: u_arith t(2)[symmetric] word_le_nat_alt)
qed

lemma reach_two_thirds:
  assumes "tm_reach E S c F h w" "committee_ok S c"
  shows "2 * voting_power (cm_validators c) (members (cm_validators c)) < 3 * unat (cm_quorum c)"
  using assms(1) by induction (use assms(2) quorum_two_thirds in blast)+

section \<open>Decisions\<close>

text \<open>A state that has not decided holds no precommit quorum for a block.\<close>

definition prompt :: "committee \<Rightarrow> tendermint_round_state \<Rightarrow> bool" where
  "prompt c st \<longleftrightarrow> (rt_decision st = None \<longrightarrow> (\<forall>r x. \<not> has_quorum c st r Precommit (Some x)))"

lemma prompt_cong:
  "rt_decision st' = rt_decision st \<Longrightarrow> rt_height st' = rt_height st \<Longrightarrow> rt_votes st' = rt_votes st \<Longrightarrow>
   prompt c st' = prompt c st"
  by (simp add: prompt_def has_quorum_def)

lemma quorum_push_vote:
  "has_quorum c (push_vote st v) r s x \<Longrightarrow>
   has_quorum c st r s x \<or> r = tv_round v \<and> s = tv_step v \<and> x = tv_block_hash v"
  by (cases "vote_matches (rt_height st) r s x v")
     (auto simp: has_quorum_def voters_append, auto simp: voters_def vote_matches_def)

lemma receive_vote_prompt:
  assumes "committee_ok S c" "round_state_ok E S c st" "prompt c st"
  shows "prompt c (snd (receive_vote E S c st v))"
proof (cases "vote_kept E S c st v")
  case True
  then have live: "rt_decision st = None" by (simp add: vote_kept_def)
  let ?q = "has_quorum c (push_vote st v) (tv_round v) (tv_step v) (tv_block_hash v)"
  have new: "has_quorum c (push_vote st v) r Precommit (Some x) \<Longrightarrow>
      ?q \<and> tv_step v = Precommit \<and> tv_block_hash v = Some x" for r x
    using quorum_push_vote[of c st v r Precommit "Some x"] assms(3) live by (auto simp: prompt_def)
  show ?thesis
  proof (cases "?q \<and> tv_step v = Precommit \<and> tv_block_hash v \<noteq> None")
    case True
    then show ?thesis unfolding receive_vote_kept[OF assms(1,2) \<open>vote_kept E S c st v\<close>]
      by (auto simp: on_quorum_def prompt_def Let_def)
  next
    case False
    then have "prompt c (push_vote st v)" using new unfolding prompt_def by (metis option.distinct(1))
    moreover have "rt_decision (snd (on_quorum (push_vote st v) r s x)) = rt_decision (push_vote st v) \<and>
        rt_height (snd (on_quorum (push_vote st v) r s x)) = rt_height (push_vote st v) \<and>
        rt_votes (snd (on_quorum (push_vote st v) r s x)) = rt_votes (push_vote st v)"
      if "s = Prevote \<or> x = None" for r s x
      using that by (auto simp: on_quorum_def split: tendermint_step.splits option.splits)
    ultimately show ?thesis
      using False unfolding receive_vote_kept[OF assms(1,2) \<open>vote_kept E S c st v\<close>]
      by (cases "tv_step v") (auto simp: prompt_cong[of "snd (on_quorum _ _ _ _)" "push_vote st v"])
  qed
next
  case False
  show ?thesis unfolding receive_vote_not_kept[OF False] by (rule assms(3))
qed

lemma step_prompt:
  assumes "committee_ok S c" "tm_step E S c F h w w'" "world_ok E S c F h w" "\<forall>i. prompt c (tw_node w i)"
  shows "\<forall>i. prompt c (tw_node w' i)"
proof -
  have st: "round_state_ok E S c (tw_node w i)" for i
    using assms(3) by (simp add: world_ok_def nodes_ok_def)
  from assms(2) show ?thesis
  proof cases
    case (proposal i p)
    have "prompt c (snd (receive_proposal E S c (tw_node w i) p)) = prompt c (tw_node w i)"
      by (rule prompt_cong) (auto simp: receive_proposal_def split: sum.splits option.splits)
    then show ?thesis using assms(4) by (simp add: proposal)
  next
    case (vote v i)
    then show ?thesis using assms(4) receive_vote_prompt[OF assms(1) st] by simp
  next
    case (prevote i x)
    then show ?thesis using assms(4) by simp
  next
    case (precommit i x st')
    have live: "rt_decision (tw_node w i) = None"
      using precommit(3) by (auto simp: precommit_value_def ensure_live_def split: if_splits)
    have "prompt c st' = prompt c (tw_node w i)"
      using precommit_value_cases[OF assms(1) st live] precommit(3)
      by (intro prompt_cong) (auto split: option.splits)
    then show ?thesis using assms(4) by (simp add: precommit(1))
  next
    case (advance i)
    have "prompt c (snd (advance_round (tw_node w i))) = prompt c (tw_node w i)"
      by (rule prompt_cong) (auto simp: advance_round_def split: sum.splits option.splits)
    then show ?thesis using assms(4) by (simp add: advance)
  qed
qed

lemma reach_prompt:
  assumes "tm_reach E S c F h w" "committee_ok S c"
  shows "prompt c (tw_node w i)"
proof -
  from assms(1) have "\<forall>i. prompt c (tw_node w i)"
  proof induction
    case (start st)
    then have "rt_votes st = []" by (auto simp: new_round_state_def res_simps)
    moreover have "0 < unat (cm_quorum c)" using assms(2) by (simp add: committee_ok_def)
    ultimately show ?case by (simp add: prompt_def has_quorum_def voters_def)
  next
    case (run w w')
    from step_prompt[OF assms(2) run.hyps(2) reach_world_ok[OF run.hyps(1) assms(2)] run.IH] show ?case .
  qed
  then show ?thesis by blast
qed

text \<open>The precommits of a decision pass the check of the finalisation.\<close>

lemma decision_accepted:
  assumes "committee_ok S c" "round_state_ok E S c st" "rt_decision st = Some d"
    and "mb_consensus_kind b = Tendermint" "mb_number b = rt_height st" "block_hash E b = Ok (td_block_hash d)"
  shows "\<exists>f. finalise_block_with_decision E S c b d = Ok f \<and> fw_block f = b \<and> fw_block_hash f = td_block_hash d \<and>
     fw_round f = td_round d \<and> wp_signatures (fw_certificate f) =
       map (\<lambda>v. \<lparr>sig_validator_id = tv_validator_id v, sig_signature = tv_signature v\<rparr>) (td_precommits d)"
proof -
  let ?m = "vote_matches (rt_height st) (td_round d) Precommit (Some (td_block_hash d))"
  have d: "td_height d = rt_height st" "td_precommits d = filter ?m (rt_votes st)"
    "unat (cm_quorum c) \<le> voting_power (cm_validators c) (voters (rt_votes st) (rt_height st) (td_round d) Precommit (Some (td_block_hash d)))"
    using assms(2,3) by (auto simp: round_state_ok_def decision_ok_def has_quorum_def)
  have v: "distinct (map vote_slot (rt_votes st))" "\<forall>v\<in>set (rt_votes st). verify_vote E S c v = Ok ()"
    using assms(2) by (auto simp: round_state_ok_def votes_ok_def list_all_iff)
  have vs: "voters (filter ?m (rt_votes st)) (rt_height st) (td_round d) Precommit (Some (td_block_hash d)) =
      voters (rt_votes st) (rt_height st) (td_round d) Precommit (Some (td_block_hash d))"
    by (simp add: voters_def)
  have "distinct (map tv_validator_id (filter ?m (filter ?m (rt_votes st)))) \<and>
      list_all (\<lambda>v. verify_vote E S c v = Ok ()) (filter ?m (filter ?m (rt_votes st)))"
    using matching_distinct[OF v(1)] v(2) by (auto simp: list_all_iff)
  from res_iff_total[OF vote_power_spec[OF assms(1)] this] obtain p
    where p: "vote_power E S c (td_precommits d) (rt_height st) (td_round d) Precommit (Some (td_block_hash d)) = Ok p"
      "\<not> p < cm_quorum c"
    using d(3) unfolding d(2) vs by (auto simp: word_less_nat_alt)
  have len: "signature64 (tv_signature v) (tv_validator_id v) = Ok (tv_signature v)" if "v \<in> set (td_precommits d)" for v
    using v(2) that d(2) by (auto simp: verify_vote_iff signed_by_def verify_schnorr_def signature64_def split: option.splits)
  have "map_res (\<lambda>v. res_bind (signature64 (tv_signature v) (tv_validator_id v)) (\<lambda>sg.
        Ok \<lparr>sig_validator_id = tv_validator_id v, sig_signature = sg\<rparr>)) (td_precommits d) =
      Ok (map (\<lambda>v. \<lparr>sig_validator_id = tv_validator_id v, sig_signature = tv_signature v\<rparr>) (td_precommits d))"
    by (rule map_res_map_Ok) (simp add: len)
  with p show ?thesis by (simp add: finalise_block_with_decision_def assms(4-6) d(1))
qed

section \<open>Signed messages verify\<close>

lemma signer_signs:
  assumes "sig_env_ok S" "committee_ok S c" "sg_secret_ok S (cs_secret_key g)" "validate_signer S c g = Ok ()"
  shows "signed_by S (cm_validators c) digest (cs_validator_id g) (sign_tendermint_digest S g (digest (cs_validator_id g)))"
proof -
  from assms(4) obtain v where "bt_get (cm_validators c) (cs_validator_id g) = Some v" "cv_public_key v = signer_public_key S g"
    by (auto simp: validate_signer_def res_simps split: if_splits)
  then show ?thesis
    using assms(1,3)
    by (simp add: signed_by_def verify_schnorr_def sign_tendermint_digest_def signer_public_key_def sig_env_ok_def)
qed

lemma vote_from_signer_verifies:
  assumes "sig_env_ok S" "committee_ok S c" "sg_secret_ok S (cs_secret_key g)" "vote_from_signer E S c h r s x g = Ok v"
  shows "verify_vote E S c v = Ok () \<and> vote_matches h r s x v \<and> tv_validator_id v = cs_validator_id g"
proof -
  from assms(4) have val: "validate_signer S c g = Ok ()" and v: "v = \<lparr>tv_height = h, tv_round = r, tv_step = s,
      tv_block_hash = x, tv_validator_id = cs_validator_id g,
      tv_signature = sign_tendermint_digest S g (vote_digest E h r s x (cs_validator_id g))\<rparr>"
    by (auto simp: vote_from_signer_def res_simps)
  show ?thesis
    using signer_signs[OF assms(1-3) val, of "vote_digest E h r s x"] by (simp add: verify_vote_iff vote_matches_def v)
qed

lemma proposal_from_signer_verifies:
  assumes "sig_env_ok S" "committee_ok S c" "sg_secret_ok S (cs_secret_key g)"
    "proposal_from_signer E S c h r x vr g = Ok p"
  shows "verify_proposal E S c p = Ok () \<and> tp_height p = h \<and> tp_round p = r \<and> tp_block_hash p = x \<and> tp_valid_round p = vr"
proof -
  from assms(4) have id: "proposer_id c h r = Ok (cs_validator_id g)" and val: "validate_signer S c g = Ok ()"
    and low: "\<not> bad_valid_round vr r" and p: "p = \<lparr>tp_height = h, tp_round = r, tp_block_hash = x, tp_valid_round = vr,
      tp_proposer_id = cs_validator_id g,
      tp_signature = sign_tendermint_digest S g (proposal_digest E h r x vr (cs_validator_id g))\<rparr>"
    by (auto simp: proposal_from_signer_def res_simps split: if_splits)
  from signer_signs[OF assms(1-3) val, of "proposal_digest E h r x vr"]
  show ?thesis using id low
    by (auto simp: verify_proposal_def p signed_by_def verify_schnorr_def signature64_def split: option.splits)
qed

section \<open>A run of one validator\<close>

definition solo_signer :: committee_signer where
  "solo_signer = sample_signer ''alice'' 1"

definition solo :: committee where
  "solo = \<lparr>cm_validators = [(''alice'', signer_validator toy_sig solo_signer 1)], cm_quorum = 1\<rparr>"

abbreviation solo_hash :: hash32 where
  "solo_hash \<equiv> sample_hash Tendermint"

definition solo_proposal :: tendermint_proposal where
  "solo_proposal = projr (proposal_from_signer toy_env toy_sig solo 7 0 solo_hash None solo_signer)"

definition solo_vote :: "tendermint_step \<Rightarrow> tendermint_vote" where
  "solo_vote s = projr (vote_from_signer toy_env toy_sig solo 7 0 s (Some solo_hash) solo_signer)"

definition solo_start :: tendermint_round_state where
  "solo_start = projr (new_round_state solo 7)"

lemma solo_get: "bt_get (cm_validators solo) = [''alice'' \<mapsto> signer_validator toy_sig solo_signer 1]" "cm_quorum solo = 1"
  by (auto simp: solo_def bt_get_def fun_eq_iff)

lemma solo_power: "voting_power (cm_validators solo) {''alice''} = 1"
  by (simp add: voting_power_def weight_in_def solo_get signer_validator_def)

lemma solo_members: "members (cm_validators solo) = {''alice''}"
  by (auto simp: solo_get)

lemma solo_ok: "committee_ok toy_sig solo"
proof -
  have "bt_wf (cm_validators solo)" by (simp add: solo_def bt_wf_def)
  then show ?thesis unfolding committee_ok_def solo_members solo_power
    by (simp add: solo_get validator_ok_def signer_validator_def solo_signer_def sample_signer_def
        signer_public_key_def toy_sig_def)
qed

lemma solo_validate: "validate_signer toy_sig solo solo_signer = Ok ()" "sg_secret_ok toy_sig (cs_secret_key solo_signer)"
  "cs_validator_id solo_signer = ''alice''"
  by (simp_all add: validate_signer_def solo_get solo_signer_def sample_signer_def signer_validator_def toy_sig_def)

lemma solo_proposer: "proposer_id solo 7 0 = Ok ''alice''"
  by (simp add: proposer_id_def total_power_def solo_def bt_values_def add_power_def signer_validator_def
      solo_signer_def sample_signer_def checked_add_def)

lemma solo_start_new: "new_round_state solo 7 = Ok solo_start"
  by (simp add: solo_start_def new_round_state_def validate_tendermint_quorum_def total_power_def solo_def
      bt_values_def add_power_def signer_validator_def checked_add_def checked_mul_def)

lemma solo_messages:
  "verify_proposal toy_env toy_sig solo solo_proposal = Ok () \<and> tp_height solo_proposal = 7 \<and> tp_round solo_proposal = 0 \<and>
     tp_block_hash solo_proposal = solo_hash \<and> tp_valid_round solo_proposal = None"
  "verify_vote toy_env toy_sig solo (solo_vote s) = Ok () \<and> vote_matches 7 0 s (Some solo_hash) (solo_vote s) \<and>
     tv_validator_id (solo_vote s) = ''alice''"
proof -
  have p: "proposal_from_signer toy_env toy_sig solo 7 0 solo_hash None solo_signer = Ok solo_proposal"
    by (simp add: solo_proposal_def proposal_from_signer_def solo_proposer solo_validate bad_valid_round_def)
  have v: "vote_from_signer toy_env toy_sig solo 7 0 s (Some solo_hash) solo_signer = Ok (solo_vote s)"
    by (simp add: solo_vote_def vote_from_signer_def solo_validate)
  show "verify_proposal toy_env toy_sig solo solo_proposal = Ok () \<and> tp_height solo_proposal = 7 \<and> tp_round solo_proposal = 0 \<and>
     tp_block_hash solo_proposal = solo_hash \<and> tp_valid_round solo_proposal = None"
    by (rule proposal_from_signer_verifies[OF toy_sig_ok solo_ok solo_validate(2) p])
  show "verify_vote toy_env toy_sig solo (solo_vote s) = Ok () \<and> vote_matches 7 0 s (Some solo_hash) (solo_vote s) \<and>
     tv_validator_id (solo_vote s) = ''alice''"
    using vote_from_signer_verifies[OF toy_sig_ok solo_ok solo_validate(2) v] solo_validate(3) by simp
qed

lemma solo_fields:
  "tv_height (solo_vote s) = 7" "tv_round (solo_vote s) = 0" "tv_step (solo_vote s) = s"
  "tv_block_hash (solo_vote s) = Some solo_hash" "tv_validator_id (solo_vote s) = ''alice''"
  using solo_messages(2)[of s] by (simp_all add: vote_matches_def)

abbreviation solo_votes :: "tendermint_round_state \<Rightarrow> tendermint_vote list \<Rightarrow> tendermint_round_state" where
  "solo_votes st vs \<equiv> st\<lparr>rt_proposals := [solo_proposal], rt_votes := vs\<rparr>"

definition solo_prevoted :: tendermint_round_state where
  "solo_prevoted = snd (receive_vote toy_env toy_sig solo (solo_votes solo_start []) (solo_vote Prevote))"

definition solo_decided :: tendermint_round_state where
  "solo_decided = snd (receive_vote toy_env toy_sig solo (lock_on solo_prevoted solo_hash) (solo_vote Precommit))"

lemma solo_quorum:
  assumes "rt_height st = 7" "solo_vote s \<in> set (rt_votes st)" "\<forall>v\<in>set (rt_votes st). tv_validator_id v = ''alice''"
  shows "has_quorum solo st 0 s (Some solo_hash)"
proof -
  have "voters (rt_votes st) 7 0 s (Some solo_hash) = {''alice''}"
    using assms(2,3) solo_messages(2)[of s] by (force simp: voters_def)
  then show ?thesis by (simp add: has_quorum_def assms(1) solo_power solo_get)
qed

lemma solo_start_eq: "solo_start = \<lparr>rt_height = 7, rt_round = 0, rt_locked_value = None, rt_locked_round = None,
    rt_valid_value = None, rt_valid_round = None, rt_proposals = [], rt_votes = [], rt_decision = None\<rparr>"
  using solo_start_new by (auto simp: new_round_state_def res_simps)

lemma solo_states_ok:
  "round_state_ok toy_env toy_sig solo (solo_votes solo_start [])"
  "round_state_ok toy_env toy_sig solo solo_prevoted"
proof -
  have p: "snd (receive_proposal toy_env toy_sig solo solo_start solo_proposal) = solo_votes solo_start []"
    using solo_messages(1) by (simp add: receive_proposal_def ensure_live_def check_valid_round_def solo_start_eq)
  show "round_state_ok toy_env toy_sig solo (solo_votes solo_start [])"
    using receive_proposal_keeps[OF round_state_ok_new[OF solo_start_new]] unfolding p[symmetric] by simp
  from receive_vote_keeps[OF solo_ok this] show "round_state_ok toy_env toy_sig solo solo_prevoted"
    unfolding solo_prevoted_def .
qed

lemma solo_prevoted_eq:
  "solo_prevoted = (solo_votes solo_start [solo_vote Prevote])\<lparr>rt_valid_value := Some solo_hash, rt_valid_round := Some 0\<rparr>"
proof -
  let ?st = "solo_votes solo_start []" and ?v = "solo_vote Prevote"
  have "vote_kept toy_env toy_sig solo ?st ?v"
    using solo_messages(2) by (simp add: vote_kept_def solo_start_eq solo_fields)
  from receive_vote_kept[OF solo_ok solo_states_ok(1) this] show ?thesis
    using solo_quorum[of "push_vote ?st ?v" Prevote]
    by (simp add: solo_prevoted_def solo_fields on_quorum_def) (simp add: solo_start_eq solo_fields)
qed

lemma solo_precommit:
  "precommit_value toy_env toy_sig solo solo_prevoted = (Ok (Some solo_hash), lock_on solo_prevoted solo_hash)"
proof -
  have q: "has_quorum solo solo_prevoted 0 Prevote (Some solo_hash)"
    by (rule solo_quorum) (simp_all add: solo_prevoted_eq solo_start_eq solo_fields)
  have cand: "precommit_candidates solo_prevoted = [Some solo_hash]"
    by (simp add: precommit_candidates_def solo_prevoted_eq solo_start_eq solo_fields)
  have v: "votes_ok toy_env toy_sig solo solo_prevoted" using solo_states_ok(2) by (simp add: round_state_ok_def)
  have r: "rt_round solo_prevoted = 0" "rt_decision solo_prevoted = None" by (simp_all add: solo_prevoted_eq solo_start_eq)
  show ?thesis
    using precommit_loop_cases[OF solo_ok v, of "[Some solo_hash]"] q
    by (simp add: precommit_value_def ensure_live_def cand r)
qed

lemma solo_decided_decision:
  "rt_decision solo_decided = Some \<lparr>td_height = 7, td_round = 0, td_block_hash = solo_hash,
     td_precommits = [solo_vote Precommit]\<rparr>"
proof -
  let ?st = "lock_on solo_prevoted solo_hash" and ?v = "solo_vote Precommit"
  have ok: "round_state_ok toy_env toy_sig solo ?st"
    using precommit_value_keeps[OF solo_ok solo_states_ok(2)] unfolding solo_precommit by simp
  have "vote_kept toy_env toy_sig solo ?st ?v"
    using solo_messages(2) by (simp add: vote_kept_def solo_prevoted_eq solo_start_eq solo_fields vote_slot_def)
  from receive_vote_kept[OF solo_ok ok this] show ?thesis
    using solo_quorum[of "push_vote ?st ?v" Precommit]
    by (simp add: solo_decided_def solo_fields on_quorum_def Let_def)
       (simp add: solo_prevoted_eq solo_start_eq solo_fields vote_matches_def)
qed

abbreviation solo_world :: "tendermint_round_state \<Rightarrow> cast_vote set \<Rightarrow> tm_world" where
  "solo_world st C \<equiv> \<lparr>tw_node = (\<lambda>_. solo_start)(''alice'' := st), tw_cast = C\<rparr>"

lemma solo_run:
  "tm_reach toy_env toy_sig solo {} 7 (solo_world solo_decided
     {(''alice'', 0, Precommit, Some solo_hash), (''alice'', 0, Prevote, Some solo_hash)})"
proof -
  let ?reach = "tm_reach toy_env toy_sig solo {} 7"
  let ?p = "(''alice'', 0, Prevote, Some solo_hash) :: cast_vote"
  let ?c = "(''alice'', 0, Precommit, Some solo_hash) :: cast_vote"
  have "?reach \<lparr>tw_node = (\<lambda>_. solo_start), tw_cast = {}\<rparr>" by (rule tm_reach.start[OF solo_start_new])
  from tm_reach.run[OF this tm_step.proposal[of _ _ _ _ _ _ "''alice''" solo_proposal]]
  have "?reach (solo_world (solo_votes solo_start []) {})"
    using solo_messages(1) by (simp add: receive_proposal_def ensure_live_def check_valid_round_def solo_start_eq)
  from tm_reach.run[OF this tm_step.prevote[of "''alice''" _ _ _ _ _ "Some solo_hash"]]
  have "?reach (solo_world (solo_votes solo_start []) {?p})"
    using solo_messages(1) by (simp add: prevote_value_def ensure_live_def solo_start_eq)
  from tm_reach.run[OF this tm_step.vote[of _ _ _ _ _ _ "solo_vote Prevote" "''alice''"]]
  have "?reach (solo_world solo_prevoted {?p})"
    by (simp add: unforged_def cast_of_def solo_fields solo_prevoted_def)
  from tm_reach.run[OF this tm_step.precommit[of "''alice''" _ _ _ _ _ "Some solo_hash" "lock_on solo_prevoted solo_hash"]]
  have "?reach (solo_world (lock_on solo_prevoted solo_hash) {?c, ?p})"
    using solo_precommit by (simp add: solo_prevoted_eq solo_start_eq)
  from tm_reach.run[OF this tm_step.vote[of _ _ _ _ _ _ "solo_vote Precommit" "''alice''"]]
  show ?thesis by (simp add: unforged_def cast_of_def solo_fields solo_decided_def)
qed

text \<open>A second node that only hears the precommit decides as well.\<close>

definition solo_observer :: tendermint_round_state where
  "solo_observer = snd (receive_vote toy_env toy_sig solo solo_start (solo_vote Precommit))"

lemma solo_observer_decision:
  "rt_decision solo_observer = Some \<lparr>td_height = 7, td_round = 0, td_block_hash = solo_hash,
     td_precommits = [solo_vote Precommit]\<rparr>"
proof -
  let ?v = "solo_vote Precommit"
  have "vote_kept toy_env toy_sig solo solo_start ?v"
    using solo_messages(2) by (simp add: vote_kept_def solo_start_eq solo_fields)
  from receive_vote_kept[OF solo_ok round_state_ok_new[OF solo_start_new] this] show ?thesis
    using solo_quorum[of "push_vote solo_start ?v" Precommit]
    by (simp add: solo_observer_def solo_fields on_quorum_def Let_def)
       (simp add: solo_start_eq solo_fields vote_matches_def)
qed

lemma solo_run_observed:
  "tm_reach toy_env toy_sig solo {} 7 (set_node (solo_world solo_decided
     {(''alice'', 0, Precommit, Some solo_hash), (''alice'', 0, Prevote, Some solo_hash)}) ''bob'' solo_observer)"
  using tm_reach.run[OF solo_run tm_step.vote[of _ _ _ _ _ _ "solo_vote Precommit" "''bob''"]]
  by (simp add: unforged_def cast_of_def solo_fields solo_observer_def)

section \<open>Properties\<close>

text \<open>
  \<^bold>\<open>C24\<close>. Agreement: when the faulty validators hold at most a third of the voting power, any
  two decisions that validators reach at a height, in whatever rounds and after whatever sequence
  of message deliveries, votes and round changes, are for the same block.
\<close>

theorem tendermint_agreement:
  assumes "committee_ok S c" "tm_reach E S c F h w" "finite F"
    and "3 * voting_power (cm_validators c) F \<le> voting_power (cm_validators c) (members (cm_validators c))"
    and "rt_decision (tw_node w i) = Some d" "rt_decision (tw_node w j) = Some d'"
  shows "td_block_hash d = td_block_hash d'"
proof -
  have ok: "world_ok E S c F h w" by (rule reach_world_ok[OF assms(2,1)])
  then have n: "nodes_ok E S c F h w" by (simp add: world_ok_def)
  have byz: "voting_power (cm_validators c) (members (cm_validators c)) + voting_power (cm_validators c) F < 2 * unat (cm_quorum c)"
    using assms(4) reach_two_thirds[OF assms(2,1)] by linarith
  show ?thesis
    by (rule precommit_quorums_agree[OF ok assms(3) byz decision_polka[OF assms(1) n assms(5)] decision_polka[OF assms(1) n assms(6)]])
qed

theorem tendermint_agreement_witness:
  "rt_decision solo_decided \<noteq> None \<and> rt_decision solo_observer \<noteq> None \<and>
   td_block_hash (the (rt_decision solo_decided)) = td_block_hash (the (rt_decision solo_observer))"
  using tendermint_agreement[OF solo_ok solo_run_observed, of "''alice''" "the (rt_decision solo_decided)" "''bob''"
      "the (rt_decision solo_observer)"]
    solo_decided_decision solo_observer_decision by simp

text \<open>
  \<^bold>\<open>C25\<close>. A validator decides exactly when it holds a quorum: in every reachable world a node has
  decided if and only if, for some round and block, the verified precommits it has received weigh
  at least the quorum; it never waits with one and never decides without.
\<close>

theorem decides_iff_quorum:
  assumes "committee_ok S c" "tm_reach E S c F h w"
  shows "rt_decision (tw_node w i) \<noteq> None \<longleftrightarrow>
     (\<exists>r x. unat (cm_quorum c) \<le> voting_power (cm_validators c)
        {tv_validator_id v | v. v \<in> set (rt_votes (tw_node w i)) \<and> tv_height v = h \<and> tv_round v = r \<and>
           tv_step v = Precommit \<and> tv_block_hash v = Some x \<and> verify_vote E S c v = Ok ()})"
proof -
  have st: "round_state_ok E S c (tw_node w i)" "rt_height (tw_node w i) = h"
    using reach_world_ok[OF assms(2,1)] by (simp_all add: world_ok_def nodes_ok_def)
  have eq: "{tv_validator_id v | v. v \<in> set (rt_votes (tw_node w i)) \<and> tv_height v = h \<and> tv_round v = r \<and>
           tv_step v = Precommit \<and> tv_block_hash v = Some x \<and> verify_vote E S c v = Ok ()} =
      voters (rt_votes (tw_node w i)) h r Precommit (Some x)" for r x
    using st(1) by (fastforce simp: voters_def vote_matches_def round_state_ok_def votes_ok_def list_all_iff)
  have "rt_decision (tw_node w i) \<noteq> None \<longleftrightarrow> (\<exists>r x. has_quorum c (tw_node w i) r Precommit (Some x))"
    using reach_prompt[OF assms(2,1), of i] st(1) by (auto simp: prompt_def round_state_ok_def decision_ok_def)
  then show ?thesis unfolding eq has_quorum_def st(2) .
qed

theorem decides_iff_quorum_witness:
  "\<exists>r x. unat (cm_quorum solo) \<le> voting_power (cm_validators solo)
     {tv_validator_id v | v. v \<in> set (rt_votes solo_decided) \<and> tv_height v = 7 \<and> tv_round v = r \<and>
        tv_step v = Precommit \<and> tv_block_hash v = Some x \<and> verify_vote toy_env toy_sig solo v = Ok ()}"
  using decides_iff_quorum[OF solo_ok solo_run, of "''alice''"] solo_decided_decision by simp

text \<open>
  \<^bold>\<open>C26\<close>. A decision finalises its block: in every reachable world, the decision of a node
  passes \<open>finalise_block_with_decision\<close> for the Tendermint block of that height whose hash it names, and the
  certificate carries exactly the signatures of the deciding precommits.
\<close>

theorem decision_finalises:
  assumes "committee_ok S c" "tm_reach E S c F h w" "rt_decision (tw_node w i) = Some d"
    and "mb_consensus_kind b = Tendermint" "mb_number b = h" "block_hash E b = Ok (td_block_hash d)"
  shows "\<exists>f. finalise_block_with_decision E S c b d = Ok f \<and> fw_block f = b \<and> fw_block_hash f = td_block_hash d \<and>
     fw_round f = td_round d \<and> wp_signatures (fw_certificate f) =
       map (\<lambda>v. \<lparr>sig_validator_id = tv_validator_id v, sig_signature = tv_signature v\<rparr>) (td_precommits d)"
proof -
  have st: "round_state_ok E S c (tw_node w i)" "rt_height (tw_node w i) = h"
    using reach_world_ok[OF assms(2,1)] by (simp_all add: world_ok_def nodes_ok_def)
  show ?thesis by (rule decision_accepted[OF assms(1) st(1) assms(3,4)]) (simp_all add: st(2) assms(5,6))
qed

theorem decision_finalises_witness:
  "\<exists>f. finalise_block_with_decision toy_env toy_sig solo (sample_block Tendermint) (the (rt_decision solo_decided)) = Ok f \<and>
     fw_round f = 0"
proof -
  have "mb_consensus_kind (sample_block Tendermint) = Tendermint" "mb_number (sample_block Tendermint) = 7"
    by (simp_all add: sample_block_def)
  moreover have "rt_decision (tw_node (solo_world solo_decided C) ''alice'') = rt_decision solo_decided" for C by simp
  ultimately show ?thesis
    using decision_finalises[OF solo_ok solo_run, of "''alice''" "the (rt_decision solo_decided)" "sample_block Tendermint"]
      solo_decided_decision sample_block_hash[of Tendermint] by auto
qed

end
