(* ===== verification/Authority.thy ===== *)
theory Authority
  imports Consensus
begin

text \<open>
  Rotating proof of authority, \<open>consensus/src/proof_of_authority.rs\<close>, with the CKB identities and
  digests of \<open>wallet-auth/src/lib.rs\<close> it signs with. A compressed key that parses serialises to the
  same 33 bytes, so \<open>lock_arg_from_public_key\<close> hashes the key as given. The texts of library errors
  are left out of the error values.
\<close>

section \<open>Wallet identities\<close>

type_synonym ckb_lock_arg = bytes

datatype wallet_auth_error =
    InvalidSecretKey
  | InvalidPublicKey
  | InvalidRecoverableSignature
  | LockArgMismatch

definition put_bytes :: "bytes \<Rightarrow> bytes" where
  "put_bytes v = u32_le (as_u32 (length v)) @ v"

definition ckb_blake2b_256 :: "crypto_env \<Rightarrow> bytes \<Rightarrow> hash32" where
  "ckb_blake2b_256 E data = cr_blake2b E data"

definition compressed_public_key :: "sig_env \<Rightarrow> bytes \<Rightarrow> wallet_auth_error + bytes" where
  "compressed_public_key S secret =
     (if sg_secret_ok S secret then Ok (sg_compressed_public S secret) else Err InvalidSecretKey)"

definition lock_arg_from_public_key :: "crypto_env \<Rightarrow> sig_env \<Rightarrow> bytes \<Rightarrow> wallet_auth_error + ckb_lock_arg" where
  "lock_arg_from_public_key E S public_key =
     (if sg_compressed_ok S public_key then Ok (take 20 (ckb_blake2b_256 E public_key)) else Err InvalidPublicKey)"

definition lock_arg_from_secret :: "crypto_env \<Rightarrow> sig_env \<Rightarrow> bytes \<Rightarrow> wallet_auth_error + ckb_lock_arg" where
  "lock_arg_from_secret E S secret = res_bind (compressed_public_key S secret) (lock_arg_from_public_key E S)"

record login_challenge =
  lc_deployment_commitment :: hash32
  lc_nonce :: hash32
  lc_issued_at_ms :: u64
  lc_expires_at_ms :: u64
  lc_network :: u8

definition login_preimage :: "login_challenge \<Rightarrow> string \<Rightarrow> ckb_lock_arg \<Rightarrow> bytes" where
  "login_preimage challenge alias lock_arg =
     put_bytes (str_bytes ''veloren:myelin:ckb-wallet-login'')
     @ lc_deployment_commitment challenge @ lc_nonce challenge
     @ u64_le (lc_issued_at_ms challenge) @ u64_le (lc_expires_at_ms challenge)
     @ [lc_network challenge] @ put_bytes (str_bytes alias) @ lock_arg"

definition login_digest :: "crypto_env \<Rightarrow> login_challenge \<Rightarrow> string \<Rightarrow> ckb_lock_arg \<Rightarrow> hash32" where
  "login_digest E challenge alias lock_arg = ckb_blake2b_256 E (login_preimage challenge alias lock_arg)"

definition poa_seal_preimage :: "string \<Rightarrow> hash32 \<Rightarrow> u64 \<Rightarrow> bytes" where
  "poa_seal_preimage authority_id bh height =
     put_bytes (str_bytes ''myelin:ckb-proof-of-authority-seal'') @ u64_le height
     @ put_bytes (str_bytes authority_id) @ bh"

definition poa_seal_digest :: "crypto_env \<Rightarrow> string \<Rightarrow> hash32 \<Rightarrow> u64 \<Rightarrow> hash32" where
  "poa_seal_digest E authority_id bh height = ckb_blake2b_256 E (poa_seal_preimage authority_id bh height)"

definition sign_recoverable :: "sig_env \<Rightarrow> bytes \<Rightarrow> hash32 \<Rightarrow> wallet_auth_error + bytes" where
  "sign_recoverable S secret digest =
     (if sg_secret_ok S secret then Ok (sg_sign_recoverable S secret digest) else Err InvalidSecretKey)"

definition recover_public_key :: "sig_env \<Rightarrow> hash32 \<Rightarrow> bytes \<Rightarrow> wallet_auth_error + bytes" where
  "recover_public_key S digest signature = ok_or InvalidRecoverableSignature (sg_recover S digest signature)"

definition verify_lock_arg :: "crypto_env \<Rightarrow> sig_env \<Rightarrow> hash32 \<Rightarrow> bytes \<Rightarrow> ckb_lock_arg \<Rightarrow> wallet_auth_error + bytes" where
  "verify_lock_arg E S digest signature expected_lock_arg =
     res_bind (recover_public_key S digest signature) (\<lambda>public_key.
     res_bind (lock_arg_from_public_key E S public_key) (\<lambda>lock_arg.
     if lock_arg \<noteq> expected_lock_arg then Err LockArgMismatch else Ok public_key))"

section \<open>The engine\<close>

record authority =
  au_id :: string
  au_public_key :: bytes

record proof_of_authority_seal =
  se_block_hash :: hash32
  se_height :: u64
  se_authority_id :: string
  se_signature :: bytes

record finalised_proof_of_authority_block =
  fp_block :: myelin_block
  fp_block_hash :: hash32
  fp_seal :: proof_of_authority_seal

type_synonym proof_of_authority = "authority list"

definition add_authority ::
  "crypto_env \<Rightarrow> sig_env \<Rightarrow> string set \<times> bytes set \<Rightarrow> authority \<Rightarrow> consensus_error + string set \<times> bytes set" where
  "add_authority E S st authority =
     (let (ids, lock_args) = st
      in if au_id authority = [] then Err (InvalidConfig ''authority id must not be empty'')
         else if au_id authority \<in> ids then Err (DuplicateAuthority (au_id authority))
         else case lock_arg_from_public_key E S (au_public_key authority) of
                Inl _ \<Rightarrow> Err (InvalidConfig (''authority '' @ au_id authority @ '' has invalid compressed public key''))
              | Inr lock_arg \<Rightarrow>
                  if lock_arg \<in> lock_args then Err DuplicateAuthorityKey
                  else Ok (insert (au_id authority) ids, insert lock_arg lock_args))"

definition proof_of_authority_new ::
  "crypto_env \<Rightarrow> sig_env \<Rightarrow> authority list \<Rightarrow> consensus_error + proof_of_authority" where
  "proof_of_authority_new E S authorities =
     (if authorities = []
      then Err (InvalidConfig ''proof-of-authority must contain at least one authority'')
      else res_bind (fold_res (add_authority E S) ({}, {}) authorities) (\<lambda>_. Ok authorities))"

definition expected_authority :: "proof_of_authority \<Rightarrow> u64 \<Rightarrow> authority" where
  "expected_authority authorities height = authorities ! unat (height mod as_u64 (length authorities))"

definition seal_from_signer ::
  "crypto_env \<Rightarrow> sig_env \<Rightarrow> proof_of_authority \<Rightarrow> hash32 \<Rightarrow> u64 \<Rightarrow> committee_signer
     \<Rightarrow> consensus_error + proof_of_authority_seal" where
  "seal_from_signer E S p bh height signer =
     (let expected = expected_authority p height
      in if cs_validator_id signer \<noteq> au_id expected
         then Err (UnexpectedAuthority (au_id expected) (cs_validator_id signer))
         else if signer_ckb_public_key S signer \<noteq> au_public_key expected
         then Err (SignerKeyMismatch (au_id expected))
         else Ok \<lparr>se_block_hash = bh, se_height = height, se_authority_id = au_id expected,
                   se_signature = sign_ckb_recoverable S signer (poa_seal_digest E (au_id expected) bh height)\<rparr>)"

definition verify_seal ::
  "crypto_env \<Rightarrow> sig_env \<Rightarrow> proof_of_authority \<Rightarrow> hash32 \<Rightarrow> u64 \<Rightarrow> proof_of_authority_seal \<Rightarrow> consensus_error + unit" where
  "verify_seal E S p bh height seal =
     (if se_block_hash seal \<noteq> bh then Err WrongBlockHash
      else if se_height seal \<noteq> height then Err (WrongHeight height (se_height seal))
      else let expected = expected_authority p height
           in if se_authority_id seal \<noteq> au_id expected
              then Err (UnexpectedAuthority (au_id expected) (se_authority_id seal))
              else case recover_public_key S (poa_seal_digest E (se_authority_id seal) bh height) (se_signature seal) of
                     Inr public_key \<Rightarrow>
                       if public_key = au_public_key expected then Ok () else Err (InvalidSignature (se_authority_id seal))
                   | Inl _ \<Rightarrow> Err (InvalidSignature (se_authority_id seal)))"

definition finalise_block_with_seal ::
  "crypto_env \<Rightarrow> sig_env \<Rightarrow> proof_of_authority \<Rightarrow> myelin_block \<Rightarrow> proof_of_authority_seal
     \<Rightarrow> consensus_error + finalised_proof_of_authority_block" where
  "finalise_block_with_seal E S p block seal =
     (if mb_consensus_kind block \<noteq> ProofOfAuthority
      then Err (WrongEngine ProofOfAuthority (mb_consensus_kind block))
      else res_bind (block_hash E block) (\<lambda>bh.
           res_bind (verify_seal E S p bh (mb_number block) seal) (\<lambda>_.
           Ok \<lparr>fp_block = block, fp_block_hash = bh, fp_seal = seal\<rparr>)))"

definition authority_config_bytes :: "authority \<Rightarrow> bytes" where
  "authority_config_bytes a = put_config_bytes (str_bytes (au_id a)) @ au_public_key a"

definition poa_config_preimage :: "authority list \<Rightarrow> bytes" where
  "poa_config_preimage authorities =
     str_bytes ''myelin:consensus-config'' @ put_config_bytes (str_bytes (kind_as_str ProofOfAuthority))
     @ u64_le (as_u64 (length authorities)) @ concat (map authority_config_bytes authorities)"

definition poa_config_commitment :: "crypto_env \<Rightarrow> authority list \<Rightarrow> hash32" where
  "poa_config_commitment E authorities = cr_blake3 E (poa_config_preimage authorities)"

section \<open>Building the authority set\<close>

definition authority_ok :: "sig_env \<Rightarrow> authority \<Rightarrow> bool" where
  "authority_ok S a = (au_id a \<noteq> [] \<and> sg_compressed_ok S (au_public_key a))"

abbreviation lock_arg_of :: "crypto_env \<Rightarrow> authority \<Rightarrow> bytes" where
  "lock_arg_of E a \<equiv> take 20 (cr_blake2b E (au_public_key a))"

definition authorities_ok :: "crypto_env \<Rightarrow> sig_env \<Rightarrow> authority list \<Rightarrow> bool" where
  "authorities_ok E S as = (list_all (authority_ok S) as \<and> distinct (map au_id as) \<and> distinct (map (lock_arg_of E) as))"

lemma add_authorities_spec:
  "res_iff (authorities_ok E S as) (\<lambda>st. st = (au_id ` set as, lock_arg_of E ` set as))
     (fold_res (add_authority E S) ({}, {}) as)"
proof (induction as rule: rev_induct)
  case Nil
  then show ?case by (simp add: authorities_ok_def)
next
  case (snoc a as)
  have "res_iff (authorities_ok E S as \<and> (authority_ok S a \<and> au_id a \<notin> au_id ` set as \<and> lock_arg_of E a \<notin> lock_arg_of E ` set as))
      (\<lambda>st. st = (au_id ` set (as @ [a]), lock_arg_of E ` set (as @ [a])))
      (fold_res (add_authority E S) ({}, {}) (as @ [a]))"
    unfolding fold_res_snoc
    by (rule res_iff_bind[OF snoc.IH])
       (auto simp: add_authority_def authority_ok_def lock_arg_from_public_key_def ckb_blake2b_256_def)
  then show ?case by (rule res_iff_cong) (auto simp: authorities_ok_def)
qed

lemma proof_of_authority_new_spec:
  "res_iff (authorities \<noteq> [] \<and> authorities_ok E S authorities) (\<lambda>p. p = authorities)
     (proof_of_authority_new E S authorities)"
  using add_authorities_spec[of E S authorities]
  by (cases "fold_res (add_authority E S) ({}, {}) authorities") (auto simp: proof_of_authority_new_def)

section \<open>Schedule and seals\<close>

lemma expected_authority_nth:
  assumes "p \<noteq> []" "short64 p"
  shows "expected_authority p height = p ! (unat height mod length p)"
proof -
  have "unat (as_u64 (length p) :: u64) = length p"
    using assms(2) by (simp add: short64_def as_u64_def unat_of_nat take_bit_nat_eq_self)
  then show ?thesis by (simp add: expected_authority_def unat_mod)
qed

lemma expected_authority_mem: "p \<noteq> [] \<Longrightarrow> short64 p \<Longrightarrow> expected_authority p height \<in> set p"
  by (simp add: expected_authority_nth)

lemma verify_seal_iff:
  "verify_seal E S p bh height seal = Ok () \<longleftrightarrow>
     se_block_hash seal = bh \<and> se_height seal = height \<and> se_authority_id seal = au_id (expected_authority p height) \<and>
     sg_recover S (poa_seal_digest E (se_authority_id seal) bh height) (se_signature seal) =
       Some (au_public_key (expected_authority p height))"
  by (auto simp: verify_seal_def recover_public_key_def Let_def ok_or_def split: option.splits sum.splits)

lemma seal_from_signer_verifies:
  assumes "sig_env_ok S" "sg_secret_ok S (cs_secret_key signer)" "seal_from_signer E S p bh height signer = Ok seal"
  shows "verify_seal E S p bh height seal = Ok ()"
  using assms
  by (auto simp: seal_from_signer_def verify_seal_iff Let_def sig_env_ok_def signer_ckb_public_key_def
      sign_ckb_recoverable_def split: if_splits)

lemma mod_window_unique:
  fixes a n i :: nat
  assumes "i < n"
  shows "\<exists>!h. a \<le> h \<and> h < a + n \<and> h mod n = i"
proof (rule ex_ex1I)
  let ?h = "a + (n + i - a mod n) mod n"
  have "?h mod n = (a mod n + (n + i - a mod n)) mod n" by (simp add: mod_add_left_eq mod_add_right_eq)
  also have "a mod n + (n + i - a mod n) = n + i"
    using assms mod_less_divisor[of n a] by (simp add: less_imp_le trans_le_add1)
  finally have "?h mod n = i" using assms by simp
  moreover have "?h < a + n" using assms by simp
  ultimately show "\<exists>h. a \<le> h \<and> h < a + n \<and> h mod n = i" by (intro exI[of _ ?h]) simp
next
  fix h h' assume h: "a \<le> h \<and> h < a + n \<and> h mod n = i" and h': "a \<le> h' \<and> h' < a + n \<and> h' mod n = i"
  have "x = y" if "x \<le> y" "a \<le> x" "y < a + n" "x mod n = y mod n" for x y
  proof -
    have "n dvd y - x" using that(1,4) by (metis mod_eq_dvd_iff_nat)
    moreover have "y - x < n" using that by linarith
    ultimately show "x = y" using that(1) by (meson dvd_imp_le diff_is_0_eq' le_antisym not_less zero_less_diff)
  qed
  from this[of h h'] this[of h' h] h h' show "h = h'" by (cases "h \<le> h'") auto
qed

section \<open>Bound bytes\<close>

lemma put_bytes_len32: "put_bytes = len32_bytes"
  by (simp add: put_bytes_def len32_bytes_def fun_eq_iff)

lemma short32_str_bytes [simp]: "short32 (str_bytes s) = short32 s"
  by (simp add: short32_def)

lemma poa_seal_preimage_inj:
  assumes "short32 i" "short32 j" "poa_seal_preimage i b h = poa_seal_preimage j b' h'"
  shows "i = j \<and> b = b' \<and> h = h'"
proof -
  have eq: "u64_le h @ len32_bytes (str_bytes i) @ b = u64_le h' @ len32_bytes (str_bytes j) @ b'"
    using assms(3) by (simp add: poa_seal_preimage_def put_bytes_len32)
  from u64_code.prefix_inj[OF TrueI TrueI eq] have h: "h = h'"
    and rest: "len32_bytes (str_bytes i) @ b = len32_bytes (str_bytes j) @ b'" by auto
  from len32_code.prefix_inj[OF _ _ rest] assms(1,2) h show ?thesis by auto
qed

section \<open>Properties\<close>

text \<open>
  \<^bold>\<open>C27\<close>. Authority rotation is fair: for an accepted authority set, in every window of as many
  consecutive heights as there are authorities, each authority is scheduled at exactly one height.
\<close>

theorem poa_rotation_fair:
  assumes "proof_of_authority_new E S authorities = Ok p" "short64 authorities" "a \<in> set authorities"
    and "start + length authorities \<le> 2 ^ 64"
  shows "\<exists>!h. start \<le> h \<and> h < start + length authorities \<and> expected_authority p (word_of_nat h) = a"
proof -
  have p: "p = authorities" and ne: "authorities \<noteq> []" and d: "distinct (map au_id authorities)"
    using res_iff_OkD[OF proof_of_authority_new_spec assms(1)] by (auto simp: authorities_ok_def)
  from assms(3) obtain i where i: "i < length authorities" "authorities ! i = a" by (auto simp: in_set_conv_nth)
  have "expected_authority p (word_of_nat h) = a \<longleftrightarrow> h mod length authorities = i"
    if "h < start + length authorities" for h
  proof -
    have "unat (word_of_nat h :: u64) = h" using that assms(4) by (simp add: unat_of_nat take_bit_nat_eq_self)
    moreover have "h mod length authorities < length authorities" using ne by simp
    moreover have "distinct authorities" using d by (simp add: distinct_map)
    ultimately show ?thesis
      using i by (auto simp: p expected_authority_nth[OF ne assms(2)] nth_eq_iff_index_eq)
  qed
  then show ?thesis using mod_window_unique[OF i(1), of start] by (auto intro!: ex1I)
qed

definition sample_authorities :: "authority list" where
  "sample_authorities = [\<lparr>au_id = ''alice'', au_public_key = 2 # replicate 32 1\<rparr>,
     \<lparr>au_id = ''bob'', au_public_key = 2 # replicate 32 2\<rparr>]"

lemma sample_authorities_new: "proof_of_authority_new toy_env toy_sig sample_authorities = Ok sample_authorities"
proof -
  have "authorities_ok toy_env toy_sig sample_authorities"
    unfolding authorities_ok_def sample_authorities_def by code_simp
  then show ?thesis
    using res_iff_total[OF proof_of_authority_new_spec, of sample_authorities toy_env toy_sig]
    by (auto simp: sample_authorities_def)
qed

theorem poa_rotation_fair_witness:
  "\<exists>!h. 5 \<le> h \<and> h < 7 \<and> expected_authority sample_authorities (word_of_nat h) = \<lparr>au_id = ''bob'', au_public_key = 2 # replicate 32 2\<rparr>"
  using poa_rotation_fair[OF sample_authorities_new, of "\<lparr>au_id = ''bob'', au_public_key = 2 # replicate 32 2\<rparr>" 5]
  by (simp add: sample_authorities_def short64_def)


end
