(* ===== verification/Engine.thy ===== *)
theory Engine
  imports Authority Tendermint
begin

text \<open>
  The selectable engines of \<open>consensus/src/lib.rs\<close>: configuration and its
  parser, dispatch of typed finality proofs, and the module catalog (\<open>catalog.rs\<close>). TOML and hex
  parsing are libraries and parameters of the definitions.
\<close>

section \<open>Configuration\<close>

record consensus_config =
  co_kind :: consensus_kind
  co_static_committee :: "committee_config option"
  co_proof_of_authority :: "authority list option"
  co_tendermint :: "committee_config option"

definition config_static_closed_committee :: "committee_config \<Rightarrow> consensus_config" where
  "config_static_closed_committee c = \<lparr>co_kind = StaticClosedCommittee, co_static_committee = Some c,
     co_proof_of_authority = None, co_tendermint = None\<rparr>"

definition config_proof_of_authority :: "authority list \<Rightarrow> consensus_config" where
  "config_proof_of_authority p = \<lparr>co_kind = ProofOfAuthority, co_static_committee = None,
     co_proof_of_authority = Some p, co_tendermint = None\<rparr>"

definition config_tendermint :: "committee_config \<Rightarrow> consensus_config" where
  "config_tendermint t = \<lparr>co_kind = Tendermint, co_static_committee = None,
     co_proof_of_authority = None, co_tendermint = Some t\<rparr>"

record raw_committee_validator =
  rv_id :: string
  rv_public_key :: string
  rv_weight :: u64

record raw_committee_config =
  rc_quorum :: u64
  rc_validators :: "raw_committee_validator list"

record raw_authority =
  ra_id :: string
  ra_public_key :: string

record raw_consensus_config =
  rw_kind :: string
  rw_static_committee :: "raw_committee_config option"
  rw_proof_of_authority :: "raw_authority list option"
  rw_tendermint :: "raw_committee_config option"

text \<open>\<open>unhex\<close> stands for \<open>hex::decode\<close>.\<close>

definition strip_0x :: "string \<Rightarrow> string" where
  "strip_0x value = (if take 2 value = ''0x'' then drop 2 value else value)"

definition parse_hex_32 :: "(string \<Rightarrow> bytes option) \<Rightarrow> string \<Rightarrow> consensus_error + hash32" where
  "parse_hex_32 unhex value =
     res_bind (ok_or (InvalidConfig ''invalid hex key'') (unhex (strip_0x value))) (\<lambda>decoded.
     if length decoded = 32 then Ok decoded else Err (InvalidConfig ''public key must be 32 bytes''))"

definition parse_hex_33 :: "(string \<Rightarrow> bytes option) \<Rightarrow> string \<Rightarrow> consensus_error + bytes" where
  "parse_hex_33 unhex value =
     res_bind (ok_or (InvalidConfig ''invalid hex key'') (unhex (strip_0x value))) (\<lambda>decoded.
     if length decoded = 33 then Ok decoded else Err (InvalidConfig ''compressed public key must be 33 bytes''))"

definition raw_validator :: "(string \<Rightarrow> bytes option) \<Rightarrow> raw_committee_validator \<Rightarrow> consensus_error + committee_validator" where
  "raw_validator unhex v =
     res_bind (parse_hex_32 unhex (rv_public_key v)) (\<lambda>key.
     Ok \<lparr>cv_id = rv_id v, cv_public_key = key, cv_weight = rv_weight v\<rparr>)"

text \<open>The two committee configurations are converted by the same code.\<close>

definition raw_committee :: "(string \<Rightarrow> bytes option) \<Rightarrow> raw_committee_config \<Rightarrow> consensus_error + committee_config" where
  "raw_committee unhex raw =
     res_bind (map_res (raw_validator unhex) (rc_validators raw)) (\<lambda>validators.
     Ok \<lparr>cfg_validators = validators, cfg_quorum = rc_quorum raw\<rparr>)"

definition raw_proof_of_authority :: "(string \<Rightarrow> bytes option) \<Rightarrow> raw_authority list \<Rightarrow> consensus_error + authority list" where
  "raw_proof_of_authority unhex raw =
     map_res (\<lambda>a. res_bind (parse_hex_33 unhex (ra_public_key a)) (\<lambda>key.
       Ok \<lparr>au_id = ra_id a, au_public_key = key\<rparr>)) raw"

definition from_toml_str ::
  "(string \<Rightarrow> bytes option) \<Rightarrow> (string \<Rightarrow> string + raw_consensus_config) \<Rightarrow> string \<Rightarrow> consensus_error + consensus_config" where
  "from_toml_str unhex toml input =
     res_bind (map_err InvalidConfig (toml input)) (\<lambda>raw.
     res_bind (kind_from_canonical_str (rw_kind raw)) (\<lambda>kind.
     case kind of
       StaticClosedCommittee \<Rightarrow>
         res_bind (ok_or (InvalidConfig ''static-closed-committee requires [static_committee]'') (rw_static_committee raw)) (\<lambda>r.
         res_bind (raw_committee unhex r) (\<lambda>c. Ok (config_static_closed_committee c)))
     | ProofOfAuthority \<Rightarrow>
         res_bind (ok_or (InvalidConfig ''proof-of-authority requires [proof_of_authority]'') (rw_proof_of_authority raw)) (\<lambda>r.
         res_bind (raw_proof_of_authority unhex r) (\<lambda>p. Ok (config_proof_of_authority p)))
     | Tendermint \<Rightarrow>
         res_bind (ok_or (InvalidConfig ''tendermint requires [tendermint]'') (rw_tendermint raw)) (\<lambda>r.
         res_bind (raw_committee unhex r) (\<lambda>c. Ok (config_tendermint c)))))"

section \<open>Selected engine\<close>

datatype finality_proof =
    StaticProof committee_certificate
  | AuthorityProof proof_of_authority_seal
  | TendermintProof tendermint_decision

fun proof_kind :: "finality_proof \<Rightarrow> consensus_kind" where
  "proof_kind (StaticProof _) = StaticClosedCommittee"
| "proof_kind (AuthorityProof _) = ProofOfAuthority"
| "proof_kind (TendermintProof _) = Tendermint"

record finalised_consensus_block =
  fc_block :: myelin_block
  fc_block_hash :: hash32
  fc_proof :: finality_proof

datatype selected_consensus =
    SelectedStatic committee
  | SelectedAuthority proof_of_authority
  | SelectedTendermint committee

fun engine_kind :: "selected_consensus \<Rightarrow> consensus_kind" where
  "engine_kind (SelectedStatic _) = StaticClosedCommittee"
| "engine_kind (SelectedAuthority _) = ProofOfAuthority"
| "engine_kind (SelectedTendermint _) = Tendermint"

definition from_config :: "crypto_env \<Rightarrow> sig_env \<Rightarrow> consensus_config \<Rightarrow> consensus_error + selected_consensus" where
  "from_config E S config =
     (case co_kind config of
        StaticClosedCommittee \<Rightarrow>
          res_bind (ok_or (InvalidConfig ''missing static committee config'') (co_static_committee config)) (\<lambda>committee.
          res_bind (static_committee_new S committee) (\<lambda>engine. Ok (SelectedStatic engine)))
      | ProofOfAuthority \<Rightarrow>
          res_bind (ok_or (InvalidConfig ''missing proof-of-authority config'') (co_proof_of_authority config)) (\<lambda>poa.
          res_bind (proof_of_authority_new E S poa) (\<lambda>engine. Ok (SelectedAuthority engine)))
      | Tendermint \<Rightarrow>
          res_bind (ok_or (InvalidConfig ''missing tendermint config'') (co_tendermint config)) (\<lambda>tendermint.
          res_bind (tendermint_new S tendermint) (\<lambda>engine. Ok (SelectedTendermint engine))))"

fun config_commitment :: "crypto_env \<Rightarrow> selected_consensus \<Rightarrow> hash32" where
  "config_commitment E (SelectedStatic c) = committee_config_commitment E StaticClosedCommittee c"
| "config_commitment E (SelectedAuthority p) = poa_config_commitment E p"
| "config_commitment E (SelectedTendermint c) = committee_config_commitment E Tendermint c"

definition finalise_with_proof ::
  "crypto_env \<Rightarrow> sig_env \<Rightarrow> selected_consensus \<Rightarrow> myelin_block \<Rightarrow> finality_proof
     \<Rightarrow> consensus_error + finalised_consensus_block" where
  "finalise_with_proof E S engine block proof =
     (if proof_kind proof \<noteq> engine_kind engine
      then Err (WrongFinalityProof (engine_kind engine) (proof_kind proof))
      else res_bind (block_hash E block) (\<lambda>bh.
           res_bind
             (case (engine, proof) of
                (SelectedStatic c, StaticProof certificate) \<Rightarrow> res_bind (finalise_block E S c block certificate) (\<lambda>_. Ok ())
              | (SelectedAuthority p, AuthorityProof seal) \<Rightarrow> res_bind (finalise_block_with_seal E S p block seal) (\<lambda>_. Ok ())
              | (SelectedTendermint c, TendermintProof decision) \<Rightarrow>
                  res_bind (finalise_block_with_decision E S c block decision) (\<lambda>_. Ok ())
              | _ \<Rightarrow> Err (WrongFinalityProof (engine_kind engine) (proof_kind proof)))
             (\<lambda>_. Ok \<lparr>fc_block = block, fc_block_hash = bh, fc_proof = proof\<rparr>)))"

section \<open>Module catalog\<close>

record consensus_module_descriptor =
  md_module_name :: string
  md_module_protocol_version :: u32
  md_consensus_kind :: consensus_kind
  md_proof_schema_hash :: hash32
  md_message_schema_hash :: hash32
  md_wal_schema_hash :: hash32
  md_config_commitment :: hash32
  md_capabilities :: u32

definition put_field :: "bytes \<Rightarrow> bytes" where
  "put_field value = u64_le (as_u64 (length value)) @ value"

definition schema_preimage :: "string \<Rightarrow> string \<Rightarrow> bytes" where
  "schema_preimage class label =
     str_bytes ''myelin:consensus-schema'' @ put_field (str_bytes class) @ put_field (str_bytes label)"

definition schema_hash :: "crypto_env \<Rightarrow> string \<Rightarrow> string \<Rightarrow> hash32" where
  "schema_hash E class label = cr_blake3 E (schema_preimage class label)"

fun proof_label :: "consensus_kind \<Rightarrow> string" where
  "proof_label StaticClosedCommittee = ''static-closed-committee-proof-v1''"
| "proof_label ProofOfAuthority = ''proof-of-authority-proof-v1''"
| "proof_label Tendermint = ''tendermint-decision-proof-v1''"

fun message_label :: "consensus_kind \<Rightarrow> string" where
  "message_label StaticClosedCommittee = ''static-closed-committee-driver-message-v1''"
| "message_label ProofOfAuthority = ''proof-of-authority-driver-message-v1''"
| "message_label Tendermint = ''tendermint-proposal-vote-message-v1''"

fun wal_label :: "consensus_kind \<Rightarrow> string" where
  "wal_label StaticClosedCommittee = ''static-closed-committee-wal-v1''"
| "wal_label ProofOfAuthority = ''proof-of-authority-wal-v1''"
| "wal_label Tendermint = ''tendermint-round-state-wal-v1''"

definition proof_schema_hash :: "crypto_env \<Rightarrow> consensus_kind \<Rightarrow> hash32" where
  "proof_schema_hash E kind = schema_hash E ''proof'' (proof_label kind)"

definition message_schema_hash :: "crypto_env \<Rightarrow> consensus_kind \<Rightarrow> hash32" where
  "message_schema_hash E kind = schema_hash E ''message'' (message_label kind)"

definition wal_schema_hash :: "crypto_env \<Rightarrow> consensus_kind \<Rightarrow> hash32" where
  "wal_schema_hash E kind = schema_hash E ''wal'' (wal_label kind)"

definition descriptor :: "crypto_env \<Rightarrow> consensus_kind \<Rightarrow> hash32 \<Rightarrow> consensus_module_descriptor" where
  "descriptor E kind commitment =
     (let (module_name, capabilities) =
        (case kind of
           StaticClosedCommittee \<Rightarrow> (''static-closed-committee'', 1)
         | ProofOfAuthority \<Rightarrow> (''proof-of-authority'', 2)
         | Tendermint \<Rightarrow> (''tendermint'', or 1 4))
      in \<lparr>md_module_name = module_name, md_module_protocol_version = 1, md_consensus_kind = kind,
          md_proof_schema_hash = proof_schema_hash E kind, md_message_schema_hash = message_schema_hash E kind,
          md_wal_schema_hash = wal_schema_hash E kind, md_config_commitment = commitment,
          md_capabilities = capabilities\<rparr>)"

definition module_preimage :: "consensus_module_descriptor \<Rightarrow> bytes" where
  "module_preimage d =
     str_bytes ''myelin:consensus-module'' @ put_field (str_bytes (md_module_name d))
     @ u32_le (md_module_protocol_version d) @ put_field (str_bytes (kind_as_str (md_consensus_kind d)))
     @ md_proof_schema_hash d @ md_message_schema_hash d @ md_wal_schema_hash d
     @ md_config_commitment d @ u32_le (md_capabilities d)"

definition descriptor_commitment :: "crypto_env \<Rightarrow> consensus_module_descriptor \<Rightarrow> hash32" where
  "descriptor_commitment E d = cr_blake3 E (module_preimage d)"

definition module_descriptor :: "crypto_env \<Rightarrow> selected_consensus \<Rightarrow> consensus_module_descriptor" where
  "module_descriptor E engine = descriptor E (engine_kind engine) (config_commitment E engine)"

definition module_commitment :: "crypto_env \<Rightarrow> selected_consensus \<Rightarrow> hash32" where
  "module_commitment E engine = descriptor_commitment E (module_descriptor E engine)"

section \<open>What a selected engine accepts\<close>

fun selected_ok :: "crypto_env \<Rightarrow> sig_env \<Rightarrow> selected_consensus \<Rightarrow> bool" where
  "selected_ok E S (SelectedStatic c) = committee_ok S c"
| "selected_ok E S (SelectedAuthority p) = (p \<noteq> [] \<and> authorities_ok E S p)"
| "selected_ok E S (SelectedTendermint c) = committee_ok S c"

lemma from_config_ok:
  assumes "from_config E S config = Ok e"
  shows "selected_ok E S e \<and> engine_kind e = co_kind config"
  using assms
  by (cases "co_kind config")
     (auto simp: from_config_def res_simps static_committee_new_def tendermint_new_def
       dest: committee_new_ok res_iff_OkD[OF proof_of_authority_new_spec])

text \<open>The evidence each engine asks for, in terms of signers and their power.\<close>

definition committee_evidence :: "crypto_env \<Rightarrow> sig_env \<Rightarrow> committee \<Rightarrow> hash32 \<Rightarrow> committee_certificate \<Rightarrow> bool" where
  "committee_evidence E S c bh x \<longleftrightarrow> cc_block_hash x = bh \<and>
     signatures_valid S (cm_validators c) (\<lambda>i. static_signature_digest E i bh) (cc_signatures x) \<and>
     unat (cm_quorum c) \<le> voting_power (cm_validators c) (signer_set (cc_signatures x))"

definition authority_evidence ::
  "crypto_env \<Rightarrow> sig_env \<Rightarrow> proof_of_authority \<Rightarrow> u64 \<Rightarrow> hash32 \<Rightarrow> proof_of_authority_seal \<Rightarrow> bool" where
  "authority_evidence E S p height bh seal \<longleftrightarrow> se_block_hash seal = bh \<and> se_height seal = height \<and>
     (let a = expected_authority p height
      in se_authority_id seal = au_id a \<and>
         sg_recover S (poa_seal_digest E (au_id a) bh height) (se_signature seal) = Some (au_public_key a))"

definition decision_evidence ::
  "crypto_env \<Rightarrow> sig_env \<Rightarrow> committee \<Rightarrow> u64 \<Rightarrow> hash32 \<Rightarrow> tendermint_decision \<Rightarrow> bool" where
  "decision_evidence E S c height bh d \<longleftrightarrow> td_height d = height \<and> td_block_hash d = bh \<and>
     list_all (\<lambda>v. length (tv_signature v) = 64) (td_precommits d) \<and>
     (let vs = filter (vote_matches height (td_round d) Precommit (Some bh)) (td_precommits d)
      in distinct (map tv_validator_id vs) \<and> list_all (\<lambda>v. verify_vote E S c v = Ok ()) vs \<and>
         unat (cm_quorum c) \<le> voting_power (cm_validators c) (tv_validator_id ` set vs))"

fun finality_evidence :: "crypto_env \<Rightarrow> sig_env \<Rightarrow> selected_consensus \<Rightarrow> u64 \<Rightarrow> hash32 \<Rightarrow> finality_proof \<Rightarrow> bool" where
  "finality_evidence E S (SelectedStatic c) height bh (StaticProof x) = committee_evidence E S c bh x"
| "finality_evidence E S (SelectedAuthority p) height bh (AuthorityProof seal) = authority_evidence E S p height bh seal"
| "finality_evidence E S (SelectedTendermint c) height bh (TendermintProof d) = decision_evidence E S c height bh d"
| "finality_evidence E S _ height bh _ = False"

lemma committee_evidence_iff:
  assumes "committee_ok S c" "block_hash E b = Ok bh"
  shows "(\<exists>f. finalise_block E S c b x = Ok f) \<longleftrightarrow>
     mb_consensus_kind b = StaticClosedCommittee \<and> committee_evidence E S c bh x"
  by (auto simp: finalise_block_def res_simps assms(2) committee_evidence_def verify_certificate_iff[OF assms(1)] quorum_certified_def
      dest: verify_certificate_iff[OF assms(1), THEN iffD1])

lemma authority_evidence_iff:
  assumes "block_hash E b = Ok bh"
  shows "(\<exists>f. finalise_block_with_seal E S p b seal = Ok f) \<longleftrightarrow>
     mb_consensus_kind b = ProofOfAuthority \<and> authority_evidence E S p (mb_number b) bh seal"
  by (auto simp: finalise_block_with_seal_def res_simps assms authority_evidence_def verify_seal_iff Let_def)

lemma map_res_total_iff: "(\<exists>ys. map_res f xs = Ok ys) \<longleftrightarrow> list_all (\<lambda>x. \<exists>y. f x = Ok y) xs"
  by (induction xs) (auto simp: res_simps)

lemma decision_evidence_iff:
  assumes "committee_ok S c" "block_hash E b = Ok bh"
  shows "(\<exists>f. finalise_block_with_decision E S c b d = Ok f) \<longleftrightarrow>
     mb_consensus_kind b = Tendermint \<and> decision_evidence E S c (mb_number b) bh d"
proof -
  let ?m = "vote_matches (mb_number b) (td_round d) Precommit (Some bh)"
  let ?vs = "filter ?m (td_precommits d)"
  let ?sig = "\<lambda>v. res_bind (signature64 (tv_signature v) (tv_validator_id v)) (\<lambda>sg.
      Ok \<lparr>sig_validator_id = tv_validator_id v, sig_signature = sg\<rparr>) :: consensus_error + committee_signature"
  have sig: "(\<exists>ys. map_res ?sig (td_precommits d) = Ok ys) \<longleftrightarrow> list_all (\<lambda>v. length (tv_signature v) = 64) (td_precommits d)"
    unfolding map_res_total_iff by (simp add: signature64_def list_all_iff)
  have pw: "(\<exists>p. vote_power E S c (td_precommits d) (mb_number b) (td_round d) Precommit (Some bh) = Ok p \<and> cm_quorum c \<le> p) \<longleftrightarrow>
      distinct (map tv_validator_id ?vs) \<and> list_all (\<lambda>v. verify_vote E S c v = Ok ()) ?vs \<and>
      unat (cm_quorum c) \<le> voting_power (cm_validators c) (tv_validator_id ` set ?vs)"
    using vote_power_spec[OF assms(1), of "mb_number b" "td_round d" Precommit "Some bh" "td_precommits d" E]
    by (cases "vote_power E S c (td_precommits d) (mb_number b) (td_round d) Precommit (Some bh)")
       (auto simp: voters_def word_le_nat_alt)
  have "(\<exists>f. finalise_block_with_decision E S c b d = Ok f) \<longleftrightarrow>
      mb_consensus_kind b = Tendermint \<and> td_height d = mb_number b \<and> td_block_hash d = bh \<and>
      (\<exists>p. vote_power E S c (td_precommits d) (mb_number b) (td_round d) Precommit (Some bh) = Ok p \<and> cm_quorum c \<le> p) \<and>
      (\<exists>ys. map_res ?sig (td_precommits d) = Ok ys)"
    by (auto simp: finalise_block_with_decision_def res_simps assms(2) not_less split: if_splits)
  then show ?thesis unfolding pw sig decision_evidence_def Let_def by blast
qed

lemma finality_evidence_kind: "finality_evidence E S e h bh p \<Longrightarrow> proof_kind p = engine_kind e"
  by (cases e; cases p) simp_all

lemma finalise_with_proof_iff:
  assumes "selected_ok E S e" "block_hash E b = Ok bh"
  shows "finalise_with_proof E S e b p = Ok f \<longleftrightarrow>
     mb_consensus_kind b = engine_kind e \<and> finality_evidence E S e (mb_number b) bh p \<and>
     f = \<lparr>fc_block = b, fc_block_hash = bh, fc_proof = p\<rparr>"
proof -
  have bind: "res_bind (res_bind r (\<lambda>_. Ok ())) (\<lambda>_. Ok y) = Ok z \<longleftrightarrow> (\<exists>x. r = Ok x) \<and> z = y" for r :: "'e + 'a" and y z :: 'b
    by (cases r) auto
  show ?thesis
    using assms(1) committee_evidence_iff[OF _ assms(2), of S] authority_evidence_iff[OF assms(2), of S]
      decision_evidence_iff[OF _ assms(2), of S]
    by (cases e; cases p) (auto simp: finalise_with_proof_def assms(2) bind)
qed

section \<open>Descriptor bytes\<close>

lemma put_field_len64: "put_field = len64_bytes"
  by (simp add: put_field_def len64_bytes_def fun_eq_iff)

definition descriptor_wf :: "consensus_module_descriptor \<Rightarrow> bool" where
  "descriptor_wf d \<longleftrightarrow> short64 (md_module_name d) \<and>
     list_all (\<lambda>h. length h = 32) [md_proof_schema_hash d, md_message_schema_hash d, md_wal_schema_hash d, md_config_commitment d]"

lemma short64_kind [simp]: "short64 (kind_as_str k)"
  by (cases k) (simp_all add: short64_def)

lemma module_preimage_inj:
  assumes "descriptor_wf d" "descriptor_wf d'" "module_preimage d = module_preimage d'"
  shows "d = d'"
proof -
  have eq: "len64_bytes (str_bytes (md_module_name d)) @ u32_le (md_module_protocol_version d) @
      len64_bytes (str_bytes (kind_as_str (md_consensus_kind d))) @ md_proof_schema_hash d @ md_message_schema_hash d @
      md_wal_schema_hash d @ md_config_commitment d @ u32_le (md_capabilities d) =
    len64_bytes (str_bytes (md_module_name d')) @ u32_le (md_module_protocol_version d') @
      len64_bytes (str_bytes (kind_as_str (md_consensus_kind d'))) @ md_proof_schema_hash d' @ md_message_schema_hash d' @
      md_wal_schema_hash d' @ md_config_commitment d' @ u32_le (md_capabilities d')"
    using assms(3) by (simp add: module_preimage_def put_field_len64)
  have names: "short64 (str_bytes (md_module_name d))" "short64 (str_bytes (md_module_name d'))"
    using assms(1,2) by (simp_all add: descriptor_wf_def)
  note 1 = len64_code.prefix_inj[OF names eq]
  note 2 = u32_code.prefix_inj[OF TrueI TrueI conjunct2[OF 1]]
  note 3 = len64_code.prefix_inj[OF _ _ conjunct2[OF 2]]
  show ?thesis
    using 1 2 3 assms(1,2) by (cases d; cases d') (auto simp: descriptor_wf_def)
qed

lemma authority_code_prefix:
  "prefix_code authority_config_bytes (\<lambda>a. length (au_public_key a) = 33 \<and> short64 (au_id a))"
proof
  fix a b r s
  assume a: "length (au_public_key a) = 33 \<and> short64 (au_id a)" and b: "length (au_public_key b) = 33 \<and> short64 (au_id b)"
    and eq: "authority_config_bytes a @ r = authority_config_bytes b @ s"
  have "len64_bytes (str_bytes (au_id a)) @ au_public_key a @ r = len64_bytes (str_bytes (au_id b)) @ au_public_key b @ s"
    using eq by (simp add: authority_config_bytes_def put_config_bytes_def len64_bytes_def)
  from len64_code.prefix_inj[OF _ _ this] a b show "a = b \<and> r = s" by (cases a; cases b) auto
qed

interpretation authority_code: prefix_code authority_config_bytes "\<lambda>a. length (au_public_key a) = 33 \<and> short64 (au_id a)"
  by (rule authority_code_prefix)

lemma poa_config_preimage_inj:
  assumes "list_all (\<lambda>a. length (au_public_key a) = 33 \<and> short64 (au_id a)) as" "short64 as"
    and "list_all (\<lambda>a. length (au_public_key a) = 33 \<and> short64 (au_id a)) bs" "short64 bs"
    and "poa_config_preimage as = poa_config_preimage bs"
  shows "as = bs"
proof -
  have "count64_list authority_config_bytes as = count64_list authority_config_bytes bs"
    using assms(5) by (simp add: poa_config_preimage_def count64_list_def)
  then show ?thesis
    using prefix_code.enc_inj[OF authority_code.count64_list_prefix] assms(1-4) by (simp add: list_all_iff)
qed

section \<open>Properties\<close>

text \<open>
  \<^bold>\<open>C29\<close>. The selected engine finalises a block exactly when the block and the proof are of the
  configured kind and the proof is evidence for this block: for a static committee distinct
  verified signers of its hash with a quorum, for proof of authority the seal of the authority
  scheduled at its number, for Tendermint distinct verified precommits of its number and hash with
  a quorum. No other combination of engine, block and proof is accepted.
\<close>

theorem finality_exact:
  assumes "from_config E S config = Ok e" "block_hash E b = Ok bh"
  shows "finalise_with_proof E S e b p = Ok f \<longleftrightarrow>
     mb_consensus_kind b = co_kind config \<and> finality_evidence E S e (mb_number b) bh p \<and>
     f = \<lparr>fc_block = b, fc_block_hash = bh, fc_proof = p\<rparr>"
  using finalise_with_proof_iff[OF _ assms(2)] from_config_ok[OF assms(1)] by simp

theorem finality_exact_witness:
  "from_config toy_env toy_sig (config_static_closed_committee sample_config) = Ok (SelectedStatic sample_committee) \<and>
   finalise_with_proof toy_env toy_sig (SelectedStatic sample_committee) (sample_block StaticClosedCommittee)
     (StaticProof sample_certificate) =
     Ok \<lparr>fc_block = sample_block StaticClosedCommittee, fc_block_hash = sample_hash StaticClosedCommittee,
         fc_proof = StaticProof sample_certificate\<rparr>"
proof -
  have c: "from_config toy_env toy_sig (config_static_closed_committee sample_config) = Ok (SelectedStatic sample_committee)"
    by (simp add: from_config_def config_static_closed_committee_def static_committee_new_def sample_committee_new)
  have "committee_evidence toy_env toy_sig sample_committee (sample_hash StaticClosedCommittee) sample_certificate"
    using sample_signatures_valid[of "\<lambda>i. static_signature_digest toy_env i (sample_hash StaticClosedCommittee)"]
    by (simp add: committee_evidence_def sample_certificate_def sign_static_def sample_signer_set sample_power sample_committee_get(2))
  then show ?thesis
    using finality_exact[OF c sample_block_hash[of StaticClosedCommittee], of "StaticProof sample_certificate"] c
    by (simp add: config_static_closed_committee_def) (simp add: sample_block_def)
qed

text \<open>
  \<^bold>\<open>C30\<close>. The module commitment written into a session genesis binds the engine: equal hashed
  bytes for two engines mean the same kind and the same configuration commitment.
\<close>

theorem module_commitment_binds:
  assumes "hash_env_ok E"
    and "module_preimage (module_descriptor E e) = module_preimage (module_descriptor E e')"
  shows "engine_kind e = engine_kind e' \<and> config_commitment E e = config_commitment E e'"
proof -
  have len: "length (config_commitment E x) = 32" for x
    using assms(1) by (cases x) (simp_all add: committee_config_commitment_def validator_config_commitment_def poa_config_commitment_def)
  have "descriptor_wf (module_descriptor E x)" for x
    using assms(1) len[of x]
    by (cases "engine_kind x") (simp_all add: descriptor_wf_def module_descriptor_def descriptor_def short64_def
        proof_schema_hash_def message_schema_hash_def wal_schema_hash_def schema_hash_def)
  from module_preimage_inj[OF this this assms(2)] show ?thesis
    by (cases "engine_kind e"; cases "engine_kind e'") (simp_all add: module_descriptor_def descriptor_def)
qed

theorem module_commitment_binds_witness:
  "module_preimage (module_descriptor toy_env (SelectedStatic sample_committee)) \<noteq>
   module_preimage (module_descriptor toy_env (SelectedTendermint sample_committee)) \<and>
   engine_kind (SelectedStatic sample_committee) = StaticClosedCommittee"
  using module_commitment_binds[OF toy_env_ok, of "SelectedStatic sample_committee" "SelectedTendermint sample_committee"]
    module_commitment_binds[OF toy_env_ok, of "SelectedStatic sample_committee" "SelectedStatic sample_committee", OF refl]
  by auto

end
