(* ===== verification/Proof_Codec.thy ===== *)
theory Proof_Codec
  imports Engine
begin

text \<open>
  The wire formats of the engines: the finality-proof codec \<open>consensus/src/proof_codec.rs\<close> and the
  Tendermint driver messages of \<open>consensus/src/tendermint.rs\<close>. \<open>serde_json\<close> is a parameter;
  \<open>json_env_ok\<close> states that parsing gives back what was serialised and that no JSON text is empty.
\<close>

section \<open>Wire formats\<close>

record signature_wire =
  sw_validator_id :: string
  sw_signature :: bytes

datatype proof_wire =
    StaticWire hash32 "signature_wire list"
  | AuthorityWire hash32 u64 string bytes
  | TendermintWire tendermint_decision

record proof_envelope_wire =
  pe_format_version :: u16
  pe_consensus_kind :: string
  pe_proof_schema_hash :: hash32
  pe_payload_hash :: hash32
  pe_payload :: proof_wire

record json_env =
  js_payload_to_vec :: "proof_wire \<Rightarrow> string + bytes"
  js_envelope_to_vec :: "proof_envelope_wire \<Rightarrow> string + bytes"
  js_envelope_from_slice :: "bytes \<Rightarrow> string + proof_envelope_wire"
  js_proposal_to_vec :: "tendermint_proposal \<Rightarrow> string + bytes"
  js_proposal_from_slice :: "bytes \<Rightarrow> string + tendermint_proposal"
  js_vote_to_vec :: "tendermint_vote \<Rightarrow> string + bytes"
  js_vote_from_slice :: "bytes \<Rightarrow> string + tendermint_vote"

definition json_env_ok :: "json_env \<Rightarrow> bool" where
  "json_env_ok J \<longleftrightarrow>
     (\<forall>x bs. js_envelope_to_vec J x = Ok bs \<longrightarrow> bs \<noteq> [] \<and> js_envelope_from_slice J bs = Ok x) \<and>
     (\<forall>x bs. js_proposal_to_vec J x = Ok bs \<longrightarrow> bs \<noteq> [] \<and> js_proposal_from_slice J bs = Ok x) \<and>
     (\<forall>x bs. js_vote_to_vec J x = Ok bs \<longrightarrow> bs \<noteq> [] \<and> js_vote_from_slice J bs = Ok x)"

fun wire_kind :: "proof_wire \<Rightarrow> consensus_kind" where
  "wire_kind (StaticWire _ _) = StaticClosedCommittee"
| "wire_kind (AuthorityWire _ _ _ _) = ProofOfAuthority"
| "wire_kind (TendermintWire _) = Tendermint"

definition signature_to_wire :: "committee_signature \<Rightarrow> signature_wire" where
  "signature_to_wire g = \<lparr>sw_validator_id = sig_validator_id g, sw_signature = sig_signature g\<rparr>"

fun proof_to_wire :: "finality_proof \<Rightarrow> proof_wire" where
  "proof_to_wire (StaticProof c) = StaticWire (cc_block_hash c) (map signature_to_wire (cc_signatures c))"
| "proof_to_wire (AuthorityProof s) = AuthorityWire (se_block_hash s) (se_height s) (se_authority_id s) (se_signature s)"
| "proof_to_wire (TendermintProof d) = TendermintWire d"

definition fixed_signature :: "nat \<Rightarrow> bytes \<Rightarrow> string \<Rightarrow> consensus_error + bytes" where
  "fixed_signature n value label =
     (if length value = n then Ok value else Err (ProofCodec (label @ '' must be exact'')))"

definition signature_from_wire :: "signature_wire \<Rightarrow> consensus_error + committee_signature" where
  "signature_from_wire w =
     res_bind (fixed_signature 64 (sw_signature w) ''signature'') (\<lambda>sg.
     Ok \<lparr>sig_validator_id = sw_validator_id w, sig_signature = sg\<rparr>)"

fun proof_from_wire :: "proof_wire \<Rightarrow> consensus_error + finality_proof" where
  "proof_from_wire (StaticWire bh signatures) =
     res_bind (map_res signature_from_wire signatures) (\<lambda>sigs.
     Ok (StaticProof \<lparr>cc_block_hash = bh, cc_signatures = sigs\<rparr>))"
| "proof_from_wire (AuthorityWire bh height authority_id signature) =
     res_bind (fixed_signature 65 signature ''CKB PoA signature'') (\<lambda>sg.
     Ok (AuthorityProof \<lparr>se_block_hash = bh, se_height = height, se_authority_id = authority_id, se_signature = sg\<rparr>))"
| "proof_from_wire (TendermintWire decision) = Ok (TendermintProof decision)"

text \<open>\<open>MAX_SIGNATURES\<close>, \<open>MAX_VALIDATOR_ID_BYTES\<close>, \<open>MAX_PROOF_BYTES\<close> and \<open>MAX_DRIVER_MESSAGE_BYTES\<close>.\<close>

definition max_signatures :: nat where "max_signatures = 4096"
definition max_validator_id_bytes :: nat where "max_validator_id_bytes = 128"
definition max_proof_bytes :: nat where "max_proof_bytes = 8 * 1024 * 1024"
definition max_driver_message_bytes :: nat where "max_driver_message_bytes = 4 * 1024 * 1024"

definition validate_id :: "string \<Rightarrow> consensus_error + unit" where
  "validate_id i =
     (if i = [] \<or> max_validator_id_bytes < length i
      then Err (ProofCodec ''validator/authority id length must be 1..=128 bytes'') else Ok ())"

definition validate_precommit :: "tendermint_vote \<Rightarrow> consensus_error + unit" where
  "validate_precommit v =
     (if tv_step v \<noteq> Precommit then Err (ProofCodec ''Tendermint decision contains a non-precommit vote'')
      else res_bind (validate_id (tv_validator_id v)) (\<lambda>_.
           if length (tv_signature v) \<noteq> 64 then Err (ProofCodec ''Tendermint signature must be exactly 64 bytes'') else Ok ()))"

definition validate_decision :: "tendermint_decision \<Rightarrow> consensus_error + unit" where
  "validate_decision d =
     (if max_signatures < length (td_precommits d) then Err (ProofCodec ''too many Tendermint precommits'')
      else fold_res (\<lambda>_. validate_precommit) () (td_precommits d))"

definition validate_signature :: "signature_wire \<Rightarrow> consensus_error + unit" where
  "validate_signature w =
     res_bind (validate_id (sw_validator_id w)) (\<lambda>_.
     if length (sw_signature w) \<noteq> 64 then Err (ProofCodec ''signature must be exactly 64 bytes'') else Ok ())"

definition validate_signatures :: "signature_wire list \<Rightarrow> consensus_error + unit" where
  "validate_signatures signatures =
     (if max_signatures < length signatures then Err (ProofCodec ''too many committee signatures'')
      else fold_res (\<lambda>_. validate_signature) () signatures)"

fun validate_payload :: "proof_wire \<Rightarrow> consensus_error + unit" where
  "validate_payload (StaticWire _ signatures) = validate_signatures signatures"
| "validate_payload (AuthorityWire _ _ authority_id signature) =
     res_bind (validate_id authority_id) (\<lambda>_.
     if length signature \<noteq> 65 then Err (ProofCodec ''CKB PoA signature must be exactly 65 bytes'') else Ok ())"
| "validate_payload (TendermintWire decision) = validate_decision decision"

fun validate_containers :: "finality_proof \<Rightarrow> consensus_error + unit" where
  "validate_containers (StaticProof certificate) =
     (if max_signatures < length (cc_signatures certificate) then Err (ProofCodec ''too many committee signatures'')
      else fold_res (\<lambda>_ g. validate_id (sig_validator_id g)) () (cc_signatures certificate))"
| "validate_containers (AuthorityProof seal) = validate_id (se_authority_id seal)"
| "validate_containers (TendermintProof decision) = validate_decision decision"

definition proof_envelope :: "crypto_env \<Rightarrow> finality_proof \<Rightarrow> bytes \<Rightarrow> proof_envelope_wire" where
  "proof_envelope E proof payload_bytes =
     \<lparr>pe_format_version = 1, pe_consensus_kind = kind_as_str (proof_kind proof),
      pe_proof_schema_hash = proof_schema_hash E (proof_kind proof),
      pe_payload_hash = cr_blake3 E payload_bytes, pe_payload = proof_to_wire proof\<rparr>"

definition encode_proof :: "crypto_env \<Rightarrow> json_env \<Rightarrow> finality_proof \<Rightarrow> consensus_error + bytes" where
  "encode_proof E J proof =
     res_bind (validate_containers proof) (\<lambda>_.
     res_bind (validate_payload (proof_to_wire proof)) (\<lambda>_.
     res_bind (map_err ProofCodec (js_payload_to_vec J (proof_to_wire proof))) (\<lambda>payload_bytes.
     res_bind (map_err ProofCodec (js_envelope_to_vec J (proof_envelope E proof payload_bytes))) (\<lambda>encoded.
     if max_proof_bytes < length encoded then Err (ProofCodec ''proof exceeds 8388608 bytes'') else Ok encoded))))"

definition decode_proof :: "crypto_env \<Rightarrow> json_env \<Rightarrow> bytes \<Rightarrow> consensus_error + finality_proof" where
  "decode_proof E J bs =
     (if bs = [] \<or> max_proof_bytes < length bs then Err (ProofCodec ''proof size must be 1..=8388608 bytes'')
      else res_bind (map_err ProofCodec (js_envelope_from_slice J bs)) (\<lambda>envelope.
      if pe_format_version envelope \<noteq> 1 then Err (ProofCodec ''unsupported proof format version'')
      else res_bind (kind_from_canonical_str (pe_consensus_kind envelope)) (\<lambda>kind.
      if pe_proof_schema_hash envelope \<noteq> proof_schema_hash E kind
      then Err (ProofCodec ''proof schema commitment mismatch'')
      else if wire_kind (pe_payload envelope) \<noteq> kind
      then Err (ProofCodec ''proof kind does not match its envelope'')
      else res_bind (validate_payload (pe_payload envelope)) (\<lambda>_.
      res_bind (map_err ProofCodec (js_payload_to_vec J (pe_payload envelope))) (\<lambda>payload_bytes.
      if cr_blake3 E payload_bytes \<noteq> pe_payload_hash envelope
      then Err (ProofCodec ''proof payload hash mismatch'')
      else res_bind (proof_from_wire (pe_payload envelope)) (\<lambda>proof.
      res_bind (encode_proof E J proof) (\<lambda>canonical.
      if canonical \<noteq> bs then Err (ProofCodec ''proof encoding is not canonical'') else Ok proof)))))))"

text \<open>Driver messages.\<close>

datatype tendermint_driver_message =
    ProposalMessage tendermint_proposal
  | PrevoteMessage tendermint_vote
  | PrecommitMessage tendermint_vote

record encoded_consensus_message =
  em_format_version :: u32
  em_type_tag :: u32
  em_payload :: bytes

definition ensure_vote_step :: "tendermint_vote \<Rightarrow> tendermint_step \<Rightarrow> consensus_error + unit" where
  "ensure_vote_step v expected =
     (if tv_step v \<noteq> expected then Err (MessageCodec ''Tendermint message tag requires another step'')
      else if length (tv_signature v) \<noteq> 64 then Err (MessageCodec ''Tendermint vote signature must be exactly 64 bytes'')
      else Ok ())"

definition message_parts :: "json_env \<Rightarrow> tendermint_driver_message \<Rightarrow> consensus_error + u32 \<times> bytes" where
  "message_parts J message =
     (case message of
        ProposalMessage p \<Rightarrow> res_bind (map_err MessageCodec (js_proposal_to_vec J p)) (\<lambda>payload. Ok (1, payload))
      | PrevoteMessage v \<Rightarrow>
          res_bind (ensure_vote_step v Prevote) (\<lambda>_.
          res_bind (map_err MessageCodec (js_vote_to_vec J v)) (\<lambda>payload. Ok (2, payload)))
      | PrecommitMessage v \<Rightarrow>
          res_bind (ensure_vote_step v Precommit) (\<lambda>_.
          res_bind (map_err MessageCodec (js_vote_to_vec J v)) (\<lambda>payload. Ok (3, payload))))"

definition encode_message :: "json_env \<Rightarrow> tendermint_driver_message \<Rightarrow> consensus_error + encoded_consensus_message" where
  "encode_message J message =
     res_bind (message_parts J message) (\<lambda>(type_tag, payload).
     if max_driver_message_bytes < length payload
     then Err (MessageCodec ''Tendermint driver message exceeds 4194304 bytes'')
     else Ok \<lparr>em_format_version = 1, em_type_tag = type_tag, em_payload = payload\<rparr>)"

definition decode_message :: "json_env \<Rightarrow> encoded_consensus_message \<Rightarrow> consensus_error + tendermint_driver_message" where
  "decode_message J encoded =
     (if em_format_version encoded \<noteq> 1 then Err (MessageCodec ''unsupported Tendermint message format version'')
      else if em_payload encoded = [] \<or> max_driver_message_bytes < length (em_payload encoded)
      then Err (MessageCodec ''Tendermint driver payload size must be 1..=4194304 bytes'')
      else res_bind
        (if em_type_tag encoded = 1
         then res_bind (map_err MessageCodec (js_proposal_from_slice J (em_payload encoded))) (\<lambda>p. Ok (ProposalMessage p))
         else if em_type_tag encoded = 2
         then res_bind (map_err MessageCodec (js_vote_from_slice J (em_payload encoded))) (\<lambda>v.
              res_bind (ensure_vote_step v Prevote) (\<lambda>_. Ok (PrevoteMessage v)))
         else if em_type_tag encoded = 3
         then res_bind (map_err MessageCodec (js_vote_from_slice J (em_payload encoded))) (\<lambda>v.
              res_bind (ensure_vote_step v Precommit) (\<lambda>_. Ok (PrecommitMessage v)))
         else Err (MessageCodec ''unknown Tendermint message type tag''))
        (\<lambda>message.
         res_bind (encode_message J message) (\<lambda>again.
         if again \<noteq> encoded then Err (MessageCodec ''Tendermint message encoding is not canonical'') else Ok message)))"

section \<open>Finality proofs\<close>

lemma fold_res_units: "fold_res (\<lambda>_. f) () xs = Ok u \<longleftrightarrow> list_all (\<lambda>x. f x = Ok ()) xs"
  by (induction xs) (auto simp: res_simps)

lemma wire_kind_proof [simp]: "wire_kind (proof_to_wire p) = proof_kind p"
  by (cases p) simp_all

lemma signatures_from_wire:
  "validate_signatures (map signature_to_wire gs) = Ok u \<Longrightarrow> map_res signature_from_wire (map signature_to_wire gs) = Ok gs"
  by (induction gs)
     (auto simp: validate_signatures_def validate_signature_def fold_res_units res_simps signature_to_wire_def
       signature_from_wire_def fixed_signature_def split: if_splits)

lemma proof_from_to_wire:
  "validate_payload (proof_to_wire p) = Ok u \<Longrightarrow> proof_from_wire (proof_to_wire p) = Ok p"
  by (cases p) (auto simp: signatures_from_wire fixed_signature_def res_simps split: if_splits)

lemma decode_encode_proof:
  assumes "json_env_ok J" "encode_proof E J p = Ok bs"
  shows "decode_proof E J bs = Ok p"
proof -
  from assms(2) obtain payload where v: "validate_payload (proof_to_wire p) = Ok ()"
    and pb: "js_payload_to_vec J (proof_to_wire p) = Ok payload"
    and env: "js_envelope_to_vec J (proof_envelope E p payload) = Ok bs" and len: "\<not> max_proof_bytes < length bs"
    by (auto simp: encode_proof_def res_simps split: if_splits)
  have "bs \<noteq> []" "js_envelope_from_slice J bs = Ok (proof_envelope E p payload)"
    using assms(1) env by (auto simp: json_env_ok_def)
  moreover have "kind_from_canonical_str (kind_as_str (proof_kind p)) = Ok (proof_kind p)"
    by (simp add: kind_round_trip)
  ultimately show ?thesis
    using v pb len proof_from_to_wire[OF v] assms(2) by (simp add: decode_proof_def proof_envelope_def)
qed

lemma encode_decode_proof: "decode_proof E J bs = Ok p \<Longrightarrow> encode_proof E J p = Ok bs"
  by (auto simp: decode_proof_def res_simps split: if_splits)

section \<open>Driver messages\<close>

lemma decode_encode_message:
  assumes "json_env_ok J" "encode_message J m = Ok e"
  shows "decode_message J e = Ok m"
proof -
  from assms(2) obtain tag payload where parts: "message_parts J m = Ok (tag, payload)"
    and e: "e = \<lparr>em_format_version = 1, em_type_tag = tag, em_payload = payload\<rparr>"
    and len: "\<not> max_driver_message_bytes < length payload"
    by (auto simp: encode_message_def res_simps split: if_splits)
  have pv: "\<And>p bs. js_proposal_to_vec J p = Ok bs \<Longrightarrow> bs \<noteq> [] \<and> js_proposal_from_slice J bs = Ok p"
    and vv: "\<And>v bs. js_vote_to_vec J v = Ok bs \<Longrightarrow> bs \<noteq> [] \<and> js_vote_from_slice J bs = Ok v"
    using assms(1) by (simp_all add: json_env_ok_def)
  show ?thesis
  proof (cases m)
    case (ProposalMessage p)
    with parts have "tag = 1" "js_proposal_to_vec J p = Ok payload" by (auto simp: message_parts_def res_simps)
    with pv assms(2) len show ?thesis by (simp add: decode_message_def e ProposalMessage)
  next
    case (PrevoteMessage v)
    with parts have "tag = 2" "js_vote_to_vec J v = Ok payload" "ensure_vote_step v Prevote = Ok ()"
      by (auto simp: message_parts_def res_simps)
    with vv assms(2) len show ?thesis by (simp add: decode_message_def e PrevoteMessage)
  next
    case (PrecommitMessage v)
    with parts have "tag = 3" "js_vote_to_vec J v = Ok payload" "ensure_vote_step v Precommit = Ok ()"
      by (auto simp: message_parts_def res_simps)
    with vv assms(2) len show ?thesis by (simp add: decode_message_def e PrecommitMessage)
  qed
qed

lemma encode_decode_message: "decode_message J e = Ok m \<Longrightarrow> encode_message J m = Ok e"
  by (auto simp: decode_message_def res_simps split: if_splits)

text \<open>
  Both codecs check what they encode and re-encode what they decode. Over a library that gives back
  what it serialised, that makes them canonical.
\<close>

locale checked_codec =
  fixes library_ok :: bool and enc :: "'a \<Rightarrow> 'e + 'w" and dec :: "'w \<Rightarrow> 'e + 'a"
  assumes dec_enc: "library_ok \<Longrightarrow> enc x = Ok w \<Longrightarrow> dec w = Ok x"
    and enc_dec: "dec w = Ok x \<Longrightarrow> enc x = Ok w"
begin

lemma dec_iff: "library_ok \<Longrightarrow> dec w = Ok x \<longleftrightarrow> enc x = Ok w"
  using dec_enc enc_dec by blast

lemma wire_unique: "dec w = Ok x \<Longrightarrow> dec w' = Ok x \<Longrightarrow> w = w'"
  using enc_dec[of w x] enc_dec[of w' x] by simp

end

interpretation proof_wire_codec: checked_codec "json_env_ok J" "encode_proof E J" "decode_proof E J" for E J
  by unfold_locales (auto intro: decode_encode_proof encode_decode_proof)

interpretation message_codec: checked_codec "json_env_ok J" "encode_message J" "decode_message J" for J
  by unfold_locales (auto intro: decode_encode_message encode_decode_message)

section \<open>Properties\<close>

definition sample_wire_proof :: finality_proof where
  "sample_wire_proof = StaticProof \<lparr>cc_block_hash = replicate 32 3,
     cc_signatures = [\<lparr>sig_validator_id = ''alice'', sig_signature = replicate 64 4\<rparr>]\<rparr>"

definition sample_vote_message :: tendermint_vote where
  "sample_vote_message = \<lparr>tv_height = 7, tv_round = 2, tv_step = Precommit, tv_block_hash = Some (replicate 32 3),
     tv_validator_id = ''alice'', tv_signature = replicate 64 6\<rparr>"

text \<open>A JSON library that knows one envelope and one vote.\<close>

definition toy_json :: json_env where
  "toy_json = (let env = proof_envelope toy_env sample_wire_proof [112]
     in \<lparr>js_payload_to_vec = (\<lambda>_. Ok [112]),
         js_envelope_to_vec = (\<lambda>x. if x = env then Ok [101] else Err ''unsupported''),
         js_envelope_from_slice = (\<lambda>bs. if bs = [101] then Ok env else Err ''syntax''),
         js_proposal_to_vec = (\<lambda>_. Err ''unsupported''), js_proposal_from_slice = (\<lambda>_. Err ''syntax''),
         js_vote_to_vec = (\<lambda>v. if v = sample_vote_message then Ok [118] else Err ''unsupported''),
         js_vote_from_slice = (\<lambda>bs. if bs = [118] then Ok sample_vote_message else Err ''syntax'')\<rparr>)"

lemma toy_json_ok: "json_env_ok toy_json"
  by (auto simp: json_env_ok_def toy_json_def Let_def split: if_splits)

text \<open>
  \<^bold>\<open>C31\<close>. The proof codec is canonical: a byte string decodes to a finality proof exactly when it
  is the encoding of that proof, so each proof has one accepted encoding and each accepted byte
  string one proof.
\<close>

theorem proof_codec_canonical:
  assumes "json_env_ok J"
  shows "decode_proof E J bs = Ok p \<longleftrightarrow> encode_proof E J p = Ok bs"
  by (rule proof_wire_codec.dec_iff[OF assms])

theorem proof_codec_canonical_witness:
  "decode_proof toy_env toy_json [101] = Ok sample_wire_proof"
proof -
  have "encode_proof toy_env toy_json sample_wire_proof = Ok [101]"
    by (simp add: encode_proof_def sample_wire_proof_def validate_signatures_def validate_signature_def validate_id_def
        signature_to_wire_def max_signatures_def max_validator_id_bytes_def max_proof_bytes_def toy_json_def Let_def)
  then show ?thesis using proof_codec_canonical[OF toy_json_ok, of toy_env "[101]" sample_wire_proof] by simp
qed

text \<open>
  \<^bold>\<open>C32\<close>. Driver messages are canonical on the wire: a frame decodes to a message exactly when it
  is the encoding of that message; in particular the tag of a vote frame always agrees with the
  step of the vote it carries, and its signature has 64 bytes.
\<close>

theorem driver_message_canonical:
  assumes "json_env_ok J"
  shows "(decode_message J e = Ok m \<longleftrightarrow> encode_message J m = Ok e) \<and>
    (decode_message J e = Ok (PrecommitMessage v) \<longrightarrow> em_type_tag e = 3 \<and> tv_step v = Precommit \<and> length (tv_signature v) = 64) \<and>
    (decode_message J e = Ok (PrevoteMessage v) \<longrightarrow> em_type_tag e = 2 \<and> tv_step v = Prevote \<and> length (tv_signature v) = 64)"
proof -
  have "encode_message J (PrecommitMessage v) = Ok e \<Longrightarrow> em_type_tag e = 3 \<and> tv_step v = Precommit \<and> length (tv_signature v) = 64"
    "encode_message J (PrevoteMessage v) = Ok e \<Longrightarrow> em_type_tag e = 2 \<and> tv_step v = Prevote \<and> length (tv_signature v) = 64"
    by (auto simp: encode_message_def message_parts_def ensure_vote_step_def res_simps split: if_splits)
  then show ?thesis using message_codec.dec_iff[OF assms] by blast
qed

theorem driver_message_canonical_witness:
  "decode_message toy_json \<lparr>em_format_version = 1, em_type_tag = 3, em_payload = [118]\<rparr> = Ok (PrecommitMessage sample_vote_message)"
proof -
  have "encode_message toy_json (PrecommitMessage sample_vote_message) =
      Ok \<lparr>em_format_version = 1, em_type_tag = 3, em_payload = [118]\<rparr>"
    by (simp add: encode_message_def message_parts_def ensure_vote_step_def max_driver_message_bytes_def toy_json_def Let_def)
       (simp add: sample_vote_message_def)
  then show ?thesis using driver_message_canonical[OF toy_json_ok] by blast
qed

end
