(* ===== verification/Mempool.thy ===== *)
theory Mempool
  imports Transition
begin

text \<open>
  The Cell transaction pool of \<open>mempool/src/cellpool.rs\<close>: admission of contextually verified
  transactions, replacement of a conflicting package by a better-paying transaction, removal of a
  package. Operations work on a copy and store it at the end, so they return the pool they leave.
  The floating-point score of \<open>scorer.rs\<close> is a parameter; only the order of its totals matters. The
  arithmetic of the statistics panics on overflow (\<open>PoolPanic\<close>), which leaves the pool unchanged.
\<close>

section \<open>Data\<close>

datatype mempool_error =
    TxExists hash32
  | TxNotFound hash32
  | InvalidTx string
  | MempoolFull nat
  | DependencyNotFound hash32
  | RBFFailed string
  | PoolPanic

record 's pool_entry =
  pe_tx :: cell_tx
  pe_txid :: hash32
  pe_wtxid :: hash32
  pe_score :: 's
  pe_timestamp :: u64
  pe_fee :: u64
  pe_cycles :: u64
  pe_admitted_state_root :: hash32
  pe_resulting_state_root :: hash32
  pe_dependencies :: "hash32 list"
  pe_dependents :: "hash32 list"

record pool_stats =
  ps_total_txs :: u64
  ps_total_size :: u64
  ps_total_fee :: u64
  ps_txs_added :: u64
  ps_txs_removed :: u64
  ps_rbf_count :: u64

type_synonym 's pool_txs = "(hash32, 's pool_entry) indexmap"

record 's pool_inner =
  pi_txs :: "'s pool_txs"
  pi_spent_outputs :: "(outpoint, hash32) btree"
  pi_stats :: pool_stats

record 's cell_pool =
  cp_inner :: "'s pool_inner"
  cp_max_size :: nat
  cp_base_state_root :: hash32

section \<open>Operations\<close>

definition pool_new :: "nat \<Rightarrow> hash32 \<Rightarrow> 's cell_pool" where
  "pool_new max_size base =
     \<lparr>cp_inner = \<lparr>pi_txs = [], pi_spent_outputs = [],
        pi_stats = \<lparr>ps_total_txs = 0, ps_total_size = 0, ps_total_fee = 0, ps_txs_added = 0, ps_txs_removed = 0, ps_rbf_count = 0\<rparr>\<rparr>,
      cp_max_size = max_size, cp_base_state_root = base\<rparr>"

definition effective_size :: "cell_tx \<Rightarrow> u64 \<Rightarrow> u64" where
  "effective_size tx cycles = max (saturating_mul (as_u64 (serialized_size tx)) 100) cycles"

definition push_child :: "hash32 \<Rightarrow> hash32 set \<times> hash32 list \<Rightarrow> hash32 set \<times> hash32 list" where
  "push_child child st = (if child \<in> fst st then st else (insert child (fst st), snd st @ [child]))"

abbreviation children :: "'s pool_txs \<Rightarrow> hash32 set" where
  "children txs \<equiv> \<Union>(set ` pe_dependents ` snd ` set txs)"

lemma push_children:
  "fst (fold push_child cs st) = fst st \<union> set cs"
  "set (snd (fold push_child cs st)) = set (snd st) \<union> (set cs - fst st)"
  "fst (fold push_child cs st) = fst st \<Longrightarrow> snd (fold push_child cs st) = snd st"
proof (induction cs arbitrary: st)
  case (Cons c cs)
  {
    case 1
    show ?case using Cons(1)[of "push_child c st"] by (auto simp: push_child_def)
  next
    case 2
    show ?case using Cons(2)[of "push_child c st"] by (auto simp: push_child_def)
  next
    case 3
    then have "c \<in> fst st" using Cons(1)[of "push_child c st"] by (auto simp: push_child_def)
    with 3 Cons(3)[of st] show ?case by (simp add: push_child_def)
  }
qed simp_all

function descendants_loop :: "'s pool_txs \<Rightarrow> hash32 set \<Rightarrow> hash32 list \<Rightarrow> hash32 set" where
  "descendants_loop txs result [] = result"
| "descendants_loop txs result (txid # queue) =
     (case map_of txs txid of
        None \<Rightarrow> descendants_loop txs result queue
      | Some entry \<Rightarrow>
          (let st = fold push_child (pe_dependents entry) (result, queue)
           in descendants_loop txs (fst st) (snd st)))"
  by pat_completeness auto

termination descendants_loop
proof (relation "measures [\<lambda>(txs, result, _). card (children txs - result), \<lambda>(_, _, queue). length queue]", goal_cases)
  case (3 txs result txid queue entry st)
  have sub: "set (pe_dependents entry) \<subseteq> children txs"
    using map_of_SomeD[OF 3(1)] by force
  have res: "fst st = result \<union> set (pe_dependents entry)"
    unfolding 3(2) by (simp add: push_children)
  show ?case
  proof (cases "fst st = result")
    case True
    then have "snd st = queue" using push_children(3)[of "pe_dependents entry" "(result, queue)"] by (simp add: 3(2))
    with True show ?thesis by (simp only: in_measures case_prod_conv) simp
  next
    case False
    with res obtain x where x: "x \<in> set (pe_dependents entry)" "x \<notin> result" by auto
    have "card (children txs - fst st) < card (children txs - result)"
    proof (rule psubset_card_mono)
      show "finite (children txs - result)" by simp
      show "children txs - fst st \<subset> children txs - result"
        using x subsetD[OF sub x(1)] unfolding res by (metis Diff_iff Diff_mono UnI2 Un_upper1 order_refl psubsetI)
    qed
    then show ?thesis by (simp only: in_measures case_prod_conv) simp
  qed
qed simp_all

definition descendants_including :: "'s pool_txs \<Rightarrow> hash32 set \<Rightarrow> hash32 set" where
  "descendants_including txs roots = descendants_loop txs roots (sorted_list_of_set roots)"

definition release_input :: "hash32 \<Rightarrow> outpoint \<Rightarrow> (outpoint, hash32) btree \<Rightarrow> (outpoint, hash32) btree" where
  "release_input txid p spent = (if bt_get spent p = Some txid then bt_remove p spent else spent)"

definition forget_child :: "hash32 \<Rightarrow> hash32 \<Rightarrow> 's pool_txs \<Rightarrow> 's pool_txs" where
  "forget_child txid parent txs =
     (case map_of txs parent of
        Some p \<Rightarrow> ix_insert parent (p\<lparr>pe_dependents := filter (\<lambda>child. child \<noteq> txid) (pe_dependents p)\<rparr>) txs
      | None \<Rightarrow> txs)"

definition forget_stats :: "'s pool_entry \<Rightarrow> pool_stats \<Rightarrow> mempool_error + pool_stats" where
  "forget_stats entry s =
     res_bind (ok_or PoolPanic (checked_sub (ps_total_txs s) 1)) (\<lambda>txs.
     res_bind (ok_or PoolPanic (checked_sub (ps_total_size s) (as_u64 (serialized_size (pe_tx entry))))) (\<lambda>size.
     res_bind (ok_or PoolPanic (checked_sub (ps_total_fee s) (pe_fee entry))) (\<lambda>fee.
     res_bind (ok_or PoolPanic (checked_add (ps_txs_removed s) 1)) (\<lambda>removed.
     Ok (s\<lparr>ps_total_txs := txs, ps_total_size := size, ps_total_fee := fee, ps_txs_removed := removed\<rparr>)))))"

definition remove_one :: "'s pool_inner \<Rightarrow> hash32 \<Rightarrow> mempool_error + cell_tx option \<times> 's pool_inner" where
  "remove_one inner txid =
     (case map_of (pi_txs inner) txid of
        None \<Rightarrow> Ok (None, inner)
      | Some entry \<Rightarrow>
          res_bind (forget_stats entry (pi_stats inner)) (\<lambda>stats.
          Ok (Some (pe_tx entry),
              \<lparr>pi_txs = fold (forget_child txid) (pe_dependencies entry) (bt_remove txid (pi_txs inner)),
               pi_spent_outputs = fold (release_input txid) (input_points (pe_tx entry)) (pi_spent_outputs inner),
               pi_stats = stats\<rparr>)))"

definition remove_each :: "'s pool_inner \<Rightarrow> hash32 list \<Rightarrow> mempool_error + cell_tx list \<times> 's pool_inner" where
  "remove_each inner txids =
     fold_res (\<lambda>(removed, inner) txid.
       res_bind (remove_one inner txid) (\<lambda>(tx, inner).
       Ok (case tx of Some tx \<Rightarrow> removed @ [tx] | None \<Rightarrow> removed, inner))) ([], inner) txids"

definition evicted_totals :: "'s pool_txs \<Rightarrow> u64 \<times> u64 \<Rightarrow> hash32 \<Rightarrow> mempool_error + u64 \<times> u64" where
  "evicted_totals txs st txid =
     res_bind (ok_or (TxNotFound txid) (map_of txs txid)) (\<lambda>entry.
     res_bind (ok_or (RBFFailed ''evicted fee overflow'') (checked_add (fst st) (pe_fee entry))) (\<lambda>fee.
     res_bind (ok_or (RBFFailed ''evicted effective size overflow'')
                (checked_add (snd st) (effective_size (pe_tx entry) (pe_cycles entry)))) (\<lambda>size.
     Ok (fee, size))))"

definition validate_replacement ::
  "'s pool_txs \<Rightarrow> verified_state_transaction \<Rightarrow> hash32 set \<Rightarrow> mempool_error + unit" where
  "validate_replacement txs admitted evicted =
     res_bind (fold_res (evicted_totals txs) (0, 0) (sorted_list_of_set evicted)) (\<lambda>(old_fee, old_size).
     let new_fee = vt_fee admitted; new_size = effective_size (vt_tx admitted) (vt_cycles admitted)
     in if new_fee \<le> old_fee then Err (RBFFailed ''replacement fee must exceed evicted package fee'')
        else if unat new_fee * unat old_size \<le> unat old_fee * unat new_size
        then Err (RBFFailed ''replacement fee density must exceed the evicted package'')
        else Ok ())"

definition direct_conflicts :: "'s pool_inner \<Rightarrow> cell_tx \<Rightarrow> hash32 set" where
  "direct_conflicts inner tx = set (List.map_filter (bt_get (pi_spent_outputs inner)) (input_points tx))"

definition find_parent :: "'s pool_txs \<Rightarrow> hash32 set \<Rightarrow> outpoint \<Rightarrow> hash32 option" where
  "find_parent txs evicted p =
     map_option fst (find (\<lambda>(parent_txid, parent). parent_txid \<notin> evicted \<and> op_tx_hash p = pe_txid parent) txs)"

definition check_parent_root ::
  "'s pool_txs \<Rightarrow> hash32 \<Rightarrow> hash32 list \<Rightarrow> verified_state_transaction \<Rightarrow> mempool_error + unit" where
  "check_parent_root txs base dependencies admitted =
     (case dependencies of
        [] \<Rightarrow> if vt_state_root admitted \<noteq> base
              then Err (InvalidTx ''transaction was not admitted against the pool base state root'') else Ok ()
      | [parent_txid] \<Rightarrow>
          res_bind (ok_or (TxNotFound parent_txid) (map_of txs parent_txid)) (\<lambda>parent.
          if vt_state_root admitted \<noteq> pe_resulting_state_root parent
          then Err (InvalidTx ''child admission root does not match its parent result root'') else Ok ())
      | _ \<Rightarrow> Err (InvalidTx ''multi-parent package admission requires a combined overlay proof and is not supported''))"

definition add_dependent :: "hash32 \<Rightarrow> hash32 \<Rightarrow> 's pool_txs \<Rightarrow> 's pool_txs" where
  "add_dependent txid parent txs =
     (case map_of txs parent of
        Some p \<Rightarrow> ix_insert parent (p\<lparr>pe_dependents := remdups_adj (sort (pe_dependents p @ [txid]))\<rparr>) txs
      | None \<Rightarrow> txs)"

definition admit_stats :: "cell_tx \<Rightarrow> u64 \<Rightarrow> bool \<Rightarrow> pool_stats \<Rightarrow> mempool_error + pool_stats" where
  "admit_stats tx fee rbf s =
     res_bind (ok_or PoolPanic (checked_add (ps_total_txs s) 1)) (\<lambda>txs.
     res_bind (ok_or PoolPanic (checked_add (ps_total_size s) (as_u64 (serialized_size tx)))) (\<lambda>size.
     res_bind (ok_or PoolPanic (checked_add (ps_txs_added s) 1)) (\<lambda>added.
     res_bind (if rbf then ok_or PoolPanic (checked_add (ps_rbf_count s) 1) else Ok (ps_rbf_count s)) (\<lambda>count.
     Ok (s\<lparr>ps_total_txs := txs, ps_total_size := size, ps_total_fee := saturating_add (ps_total_fee s) fee,
            ps_txs_added := added, ps_rbf_count := count\<rparr>)))))"

definition admit ::
  "crypto_env \<Rightarrow> (cell_tx \<Rightarrow> u64 \<Rightarrow> u64 \<Rightarrow> 's) \<Rightarrow> verified_state_transaction \<Rightarrow> hash32 list \<Rightarrow> bool
     \<Rightarrow> 's pool_inner \<Rightarrow> mempool_error + 's pool_inner" where
  "admit E score admitted dependencies rbf next =
     (let tx = vt_tx admitted; txid = vt_txid admitted;
          entry = \<lparr>pe_tx = tx, pe_txid = txid, pe_wtxid = compute_wtxid E tx,
                   pe_score = score tx (vt_fee admitted) (vt_cycles admitted), pe_timestamp = 0,
                   pe_fee = vt_fee admitted, pe_cycles = vt_cycles admitted,
                   pe_admitted_state_root = vt_state_root admitted,
                   pe_resulting_state_root = vt_state_root_after admitted,
                   pe_dependencies = dependencies, pe_dependents = []\<rparr>
      in res_bind (admit_stats tx (vt_fee admitted) rbf (pi_stats next)) (\<lambda>stats.
         Ok \<lparr>pi_txs = ix_insert txid entry (fold (add_dependent txid) dependencies (pi_txs next)),
             pi_spent_outputs = fold (\<lambda>p. bt_insert p txid) (input_points tx) (pi_spent_outputs next),
             pi_stats = stats\<rparr>))"

definition add_inner ::
  "crypto_env \<Rightarrow> (cell_tx \<Rightarrow> u64 \<Rightarrow> u64 \<Rightarrow> 's) \<Rightarrow> 's cell_pool \<Rightarrow> verified_state_transaction
     \<Rightarrow> mempool_error + 's pool_inner" where
  "add_inner E score pool admitted =
     (let tx = vt_tx admitted; txid = vt_txid admitted; inner = cp_inner pool
      in if tx_id E tx \<noteq> txid then Err (InvalidTx ''admission proof transaction id mismatch'')
         else if card (set (input_points tx)) \<noteq> length (tx_inputs tx) then Err (InvalidTx ''duplicate transaction input'')
         else if map_of (pi_txs inner) txid \<noteq> None then Err (TxExists txid)
         else let evicted = descendants_including (pi_txs inner) (direct_conflicts inner tx)
              in if cp_max_size pool \<le> length (pi_txs inner) - card evicted then Err (MempoolFull (cp_max_size pool))
                 else res_bind (if evicted = {} then Ok () else validate_replacement (pi_txs inner) admitted evicted) (\<lambda>_.
                      let dependencies = sorted_list_of_set (set (List.map_filter (find_parent (pi_txs inner) evicted) (input_points tx)))
                      in res_bind (check_parent_root (pi_txs inner) (cp_base_state_root pool) dependencies admitted) (\<lambda>_.
                         res_bind (remove_each inner (sorted_list_of_set evicted)) (\<lambda>(_, next).
                         admit E score admitted dependencies (evicted \<noteq> {}) next))))"

definition pool_add ::
  "crypto_env \<Rightarrow> (cell_tx \<Rightarrow> u64 \<Rightarrow> u64 \<Rightarrow> 's) \<Rightarrow> 's cell_pool \<Rightarrow> verified_state_transaction
     \<Rightarrow> (mempool_error + hash32) \<times> 's cell_pool" where
  "pool_add E score pool admitted =
     (case add_inner E score pool admitted of
        Inl e \<Rightarrow> (Err e, pool)
      | Inr next \<Rightarrow> (Ok (vt_txid admitted), pool\<lparr>cp_inner := next\<rparr>))"

definition remove_package :: "'s cell_pool \<Rightarrow> hash32 \<Rightarrow> (mempool_error + cell_tx list) \<times> 's cell_pool" where
  "remove_package pool txid =
     (let inner = cp_inner pool
      in if map_of (pi_txs inner) txid = None then (Err (TxNotFound txid), pool)
         else case remove_each inner (sorted_list_of_set (descendants_including (pi_txs inner) {txid})) of
                Inl e \<Rightarrow> (Err e, pool)
              | Inr (removed, next) \<Rightarrow> (Ok removed, pool\<lparr>cp_inner := next\<rparr>))"

definition pool_get :: "'s cell_pool \<Rightarrow> hash32 \<Rightarrow> 's pool_entry option" where
  "pool_get pool txid = map_of (pi_txs (cp_inner pool)) txid"

text \<open>\<open>sort_by\<close> is stable and its comparison is by descending score, then by id.\<close>

definition get_sorted :: "('s \<Rightarrow> 't::linorder) \<Rightarrow> 's cell_pool \<Rightarrow> nat \<Rightarrow> 's pool_entry list" where
  "get_sorted key pool limit =
     take limit (rev (sort_key (\<lambda>e. key (pe_score e)) (rev (sort_key pe_txid (map snd (pi_txs (cp_inner pool)))))))"

section \<open>The package of a transaction\<close>

definition child_rel :: "'s pool_txs \<Rightarrow> (hash32 \<times> hash32) set" where
  "child_rel txs = {(x, y). \<exists>e. map_of txs x = Some e \<and> y \<in> set (pe_dependents e)}"

lemma descendants_loop_spec:
  assumes "R \<subseteq> result" "result \<subseteq> (child_rel txs)\<^sup>* `` R" "set queue \<subseteq> result"
    and "\<forall>x\<in>result - set queue. \<forall>y. (x, y) \<in> child_rel txs \<longrightarrow> y \<in> result"
  shows "descendants_loop txs result queue = (child_rel txs)\<^sup>* `` R"
  using assms
proof (induction txs result queue rule: descendants_loop.induct)
  case (1 txs result)
  have cl: "y \<in> result" if "(x, y) \<in> (child_rel txs)\<^sup>*" "x \<in> R" for x y
    using that(1)
  proof (induction rule: rtrancl_induct)
    case base
    show ?case using that(2) 1(1) by (rule subsetD[rotated])
  next
    case (step y z)
    then show ?case using 1(4) by simp
  qed
  have "(child_rel txs)\<^sup>* `` R \<subseteq> result"
  proof
    fix y assume "y \<in> (child_rel txs)\<^sup>* `` R"
    then show "y \<in> result" by (rule ImageE) (rule cl)
  qed
  with 1(2) show ?case by (simp only: descendants_loop.simps(1) set_eq_subset simp_thms)
next
  case (2 txs result txid queue)
  show ?case
  proof (cases "map_of txs txid")
    case None
    have "\<forall>x\<in>result - set queue. \<forall>y. (x, y) \<in> child_rel txs \<longrightarrow> y \<in> result"
    proof (intro ballI allI impI)
      fix x y assume x: "x \<in> result - set queue" and xy: "(x, y) \<in> child_rel txs"
      have "x \<noteq> txid" using xy None by (cases "x = txid") (simp_all add: child_rel_def)
      with x have "x \<in> result - set (txid # queue)" by simp
      from "2.prems"(4)[rule_format, OF this xy] show "y \<in> result" .
    qed
    then have "descendants_loop txs result queue = (child_rel txs)\<^sup>* `` R"
      using "2.prems"(1-3) by (intro "2.IH"(1)[OF None]) simp_all
    then show ?thesis using None by simp
  next
    case (Some e)
    let ?st = "fold push_child (pe_dependents e) (result, queue)"
    have st: "fst ?st = result \<union> set (pe_dependents e)" "set (snd ?st) = set queue \<union> (set (pe_dependents e) - result)"
      by (simp_all add: push_children)
    have "set (pe_dependents e) \<subseteq> (child_rel txs)\<^sup>* `` R"
    proof
      fix y assume "y \<in> set (pe_dependents e)"
      then have "(txid, y) \<in> child_rel txs" using Some by (auto simp: child_rel_def)
      moreover have "txid \<in> (child_rel txs)\<^sup>* `` R" using "2.prems"(2,3) by (simp add: subset_iff)
      then obtain r where "r \<in> R" "(r, txid) \<in> (child_rel txs)\<^sup>*" by (rule ImageE)
      ultimately show "y \<in> (child_rel txs)\<^sup>* `` R" by (metis ImageI rtrancl.rtrancl_into_rtrancl)
    qed
    moreover have "\<forall>x\<in>fst ?st - set (snd ?st). \<forall>y. (x, y) \<in> child_rel txs \<longrightarrow> y \<in> fst ?st"
    proof (intro ballI allI impI)
      fix x y assume x: "x \<in> fst ?st - set (snd ?st)" and xy: "(x, y) \<in> child_rel txs"
      show "y \<in> fst ?st"
      proof (cases "x = txid")
        case True
        with xy Some show ?thesis unfolding st by (simp add: child_rel_def)
      next
        case False
        with x have "x \<in> result - set (txid # queue)" unfolding st by auto
        from "2.prems"(4)[rule_format, OF this xy] show ?thesis unfolding st by simp
      qed
    qed
    ultimately have "descendants_loop txs (fst ?st) (snd ?st) = (child_rel txs)\<^sup>* `` R"
      using "2.prems"(1-3) by (intro "2.IH"(2)[OF Some refl]) (simp_all add: st le_supI1 subset_Un_eq[THEN iffD1] le_supI2 Diff_subset_conv)
    then show ?thesis using Some by (simp add: Let_def)
  qed
qed

lemma descendants_including_spec:
  "finite roots \<Longrightarrow> descendants_including txs roots = (child_rel txs)\<^sup>* `` roots"
  unfolding descendants_including_def by (rule descendants_loop_spec) auto

section \<open>Invariant\<close>

abbreviation inner_get :: "'s pool_inner \<Rightarrow> hash32 \<Rightarrow> 's pool_entry option" where
  "inner_get inner \<equiv> map_of (pi_txs inner)"

definition entry_ok :: "crypto_env \<Rightarrow> hash32 \<Rightarrow> 's pool_entry \<Rightarrow> bool" where
  "entry_ok E txid e \<longleftrightarrow> pe_txid e = txid \<and> tx_id E (pe_tx e) = txid \<and> distinct (input_points (pe_tx e))"

definition spent_ok :: "'s pool_inner \<Rightarrow> bool" where
  "spent_ok inner \<longleftrightarrow> bt_wf (pi_spent_outputs inner) \<and>
     (\<forall>p txid. bt_get (pi_spent_outputs inner) p = Some txid \<longleftrightarrow>
        (\<exists>e. inner_get inner txid = Some e \<and> p \<in> set (input_points (pe_tx e))))"

definition counts_ok :: "'s pool_inner \<Rightarrow> bool" where
  "counts_ok inner \<longleftrightarrow> unat (ps_total_txs (pi_stats inner)) = map_total (\<lambda>_ _. 1) (inner_get inner) \<and>
     unat (ps_total_size (pi_stats inner)) = map_total (\<lambda>_ e. serialized_size (pe_tx e)) (inner_get inner)"

definition pool_weak :: "crypto_env \<Rightarrow> 's pool_inner \<Rightarrow> bool" where
  "pool_weak E inner \<longleftrightarrow> ix_wf (pi_txs inner) \<and> spent_ok inner \<and> counts_ok inner \<and>
     (\<forall>txid e. inner_get inner txid = Some e \<longrightarrow> entry_ok E txid e) \<and>
     (\<forall>p e c. inner_get inner p = Some e \<longrightarrow> c \<in> set (pe_dependents e) \<longrightarrow>
        (\<exists>ce. inner_get inner c = Some ce \<and> p \<in> set (pe_dependencies ce)))"

definition pool_ok :: "crypto_env \<Rightarrow> 's pool_inner \<Rightarrow> bool" where
  "pool_ok E inner \<longleftrightarrow> pool_weak E inner \<and>
     (\<forall>c e p. inner_get inner c = Some e \<longrightarrow> p \<in> set (pe_dependencies e) \<longrightarrow>
        (\<exists>pe. inner_get inner p = Some pe \<and> c \<in> set (pe_dependents pe)))"

text \<open>Removing a set of transactions, as a map.\<close>

definition prune :: "hash32 set \<Rightarrow> (hash32 \<rightharpoonup> 's pool_entry) \<Rightarrow> (hash32 \<rightharpoonup> 's pool_entry)" where
  "prune D m = (\<lambda>x. if x \<in> D then None
     else map_option (\<lambda>e. e\<lparr>pe_dependents := filter (\<lambda>c. c \<notin> D) (pe_dependents e)\<rparr>) (m x))"

lemma prune_prune: "prune D (prune D' m) = prune (D' \<union> D) m"
  by (auto simp: prune_def fun_eq_iff option.map_comp comp_def conj_commute intro!: option.map_cong filter_cong)

lemma prune_empty: "prune {} m = m"
  by (simp add: prune_def option.map_ident)

lemma dom_prune: "dom (prune D m) = dom m - D"
  by (auto simp: prune_def dom_def split: if_splits)

lemma prune_Some:
  "prune D m x = Some e \<longleftrightarrow> x \<notin> D \<and> (\<exists>e'. m x = Some e' \<and> e = e'\<lparr>pe_dependents := filter (\<lambda>c. c \<notin> D) (pe_dependents e')\<rparr>)"
  by (auto simp: prune_def)

lemma map_total_prune:
  assumes "\<And>k e d. f k (e\<lparr>pe_dependents := d\<rparr>) = f k e"
  shows "map_total f (prune {x} m) = map_total f (m(x := None))"
  unfolding map_total_def
  by (rule sum.cong) (auto simp: prune_def assms domIff split: if_splits)

section \<open>Removing a transaction\<close>

abbreviation without_child :: "hash32 \<Rightarrow> 's pool_entry \<Rightarrow> 's pool_entry" where
  "without_child x e \<equiv> e\<lparr>pe_dependents := filter (\<lambda>c. c \<noteq> x) (pe_dependents e)\<rparr>"

lemma forget_child_get:
  assumes "ix_wf txs"
  shows "ix_wf (forget_child x p txs)"
    "map_of (forget_child x p txs) = (map_of txs)(p := map_option (without_child x) (map_of txs p))"
  using assms by (auto simp: forget_child_def indexmap.get_ins indexmap.inv_ins fun_eq_iff split: option.splits)

lemma forget_children_get:
  assumes "ix_wf txs"
  shows "ix_wf (fold (forget_child x) ps txs)"
    "map_of (fold (forget_child x) ps txs) =
       (\<lambda>y. if y \<in> set ps then map_option (without_child x) (map_of txs y) else map_of txs y)"
  using assms
proof (induction ps arbitrary: txs)
  case (Cons p ps)
  {
    case 1
    then show ?case using Cons(1)[OF forget_child_get(1)] by simp
  next
    case 2
    then show ?case
      by (auto simp: Cons(2)[OF forget_child_get(1)] forget_child_get(2) fun_eq_iff option.map_comp comp_def
          intro!: option.map_cong)
  }
qed simp_all

lemma release_inputs_get:
  assumes "bt_wf m"
  shows "bt_wf (fold (release_input x) ps m)"
    "bt_get (fold (release_input x) ps m) = (\<lambda>p. if p \<in> set ps \<and> bt_get m p = Some x then None else bt_get m p)"
  using assms
proof (induction ps arbitrary: m)
  case (Cons p ps)
  have wf: "bt_wf (release_input x p m)" if "bt_wf m" for m
    using that by (simp add: release_input_def btree.inv_del)
  have get: "bt_get (release_input x p m) = (\<lambda>q. if q = p \<and> bt_get m p = Some x then None else bt_get m q)" if "bt_wf m" for m
    using that by (simp add: release_input_def btree.get_del fun_eq_iff)
  {
    case 1
    then show ?case using Cons(1)[OF wf] by simp
  next
    case 2
    then show ?case by (auto simp: Cons(2)[OF wf] get fun_eq_iff)
  }
qed simp_all

lemma size_as_u64: "unat (as_u64 (serialized_size tx)) = serialized_size tx"
  by (simp add: serialized_size_def as_u64_def)

lemma forget_stats_Ok:
  assumes "forget_stats e s = Ok s'"
  shows "unat (ps_total_txs s) = 1 + unat (ps_total_txs s')"
    "unat (ps_total_size s) = serialized_size (pe_tx e) + unat (ps_total_size s')"
  using assms by (auto simp: forget_stats_def checked_sub_def res_simps size_as_u64 unat_sub word_le_nat_alt split: if_splits)

lemma weak_simps:
  assumes "pool_weak E inner"
  shows "ix_wf (pi_txs inner)" "bt_wf (pi_spent_outputs inner)"
    "bt_get (pi_spent_outputs inner) p = Some y \<longleftrightarrow> (\<exists>e. inner_get inner y = Some e \<and> p \<in> set (input_points (pe_tx e)))"
    "unat (ps_total_txs (pi_stats inner)) = map_total (\<lambda>_ _. 1) (inner_get inner)"
    "unat (ps_total_size (pi_stats inner)) = map_total (\<lambda>_ e. serialized_size (pe_tx e)) (inner_get inner)"
    "inner_get inner y = Some e \<Longrightarrow> entry_ok E y e"
    "inner_get inner y = Some e \<Longrightarrow> c \<in> set (pe_dependents e) \<Longrightarrow>
       \<exists>ce. inner_get inner c = Some ce \<and> y \<in> set (pe_dependencies ce)"
  using assms unfolding pool_weak_def spent_ok_def counts_ok_def by simp_all

lemma remove_one_get:
  assumes weak: "pool_weak E inner" and x: "inner_get inner x = Some e" and run: "remove_one inner x = Ok (t, inner')"
  shows "t = Some (pe_tx e)" "ix_wf (pi_txs inner')" "inner_get inner' = prune {x} (inner_get inner)"
proof -
  note wf = weak_simps(1)[OF weak]
  have txs: "pi_txs inner' = fold (forget_child x) (pe_dependencies e) (bt_remove x (pi_txs inner))"
    and t: "t = Some (pe_tx e)"
    using run x by (auto simp: remove_one_def res_simps split: sum.splits)
  have nodep: "x \<notin> set (pe_dependents d)" if "inner_get inner y = Some d" "y \<notin> set (pe_dependencies e)" for y d
    using weak_simps(7)[OF weak that(1), of x] that(2) x by auto
  show "t = Some (pe_tx e)" by (rule t)
  show "ix_wf (pi_txs inner')" unfolding txs by (intro forget_children_get(1) indexmap.inv_del wf)
  show "inner_get inner' = prune {x} (inner_get inner)"
    unfolding txs forget_children_get(2)[OF indexmap.inv_del[OF wf]] indexmap.get_del[OF wf]
  proof (rule ext)
    fix y
    have id: "without_child x d = d" if "x \<notin> set (pe_dependents d)" for d :: "'a pool_entry"
    proof -
      have "filter (\<lambda>c. c \<noteq> x) (pe_dependents d) = pe_dependents d"
        using that by (intro filter_True) auto
      then show ?thesis by simp
    qed
    show "(if y \<in> set (pe_dependencies e) then map_option (without_child x) (((inner_get inner)(x := None)) y)
           else ((inner_get inner)(x := None)) y) = prune {x} (inner_get inner) y"
      using nodep[of y] by (cases "inner_get inner y") (auto simp: prune_def id)
  qed
qed

lemma remove_one_weak:
  assumes weak: "pool_weak E inner" and x: "inner_get inner x = Some e" and run: "remove_one inner x = Ok (t, inner')"
  shows "pool_weak E inner'"
proof -
  note get = remove_one_get[OF assms]
  have spent: "pi_spent_outputs inner' = fold (release_input x) (input_points (pe_tx e)) (pi_spent_outputs inner)"
    and stats: "forget_stats e (pi_stats inner) = Ok (pi_stats inner')"
    using run x by (auto simp: remove_one_def res_simps split: sum.splits)
  note sp = release_inputs_get[OF weak_simps(2)[OF weak], of x "input_points (pe_tx e)", folded spent]
  have "bt_get (pi_spent_outputs inner') p = Some y \<longleftrightarrow> (\<exists>d. inner_get inner' y = Some d \<and> p \<in> set (input_points (pe_tx d)))" for p y
  proof -
    have px: "p \<in> set (input_points (pe_tx e)) \<longleftrightarrow> bt_get (pi_spent_outputs inner) p = Some x"
      using x weak_simps(3)[OF weak, of p x] by simp
    have py: "(\<exists>d. inner_get inner' y = Some d \<and> p \<in> set (input_points (pe_tx d))) \<longleftrightarrow>
        y \<noteq> x \<and> bt_get (pi_spent_outputs inner) p = Some y"
      unfolding get(3) prune_Some weak_simps(3)[OF weak] by auto
    show ?thesis unfolding py sp(2) px by auto
  qed
  then have spent_ok: "spent_ok inner'" unfolding spent_ok_def using sp(1) by simp
  have tot: "map_total f (inner_get inner) = f x e + map_total f (inner_get inner')"
    if "\<And>k e d. f k (e\<lparr>pe_dependents := d\<rparr>) = f k e" for f :: "hash32 \<Rightarrow> 'a pool_entry \<Rightarrow> nat"
    using indexmap.total_del[OF weak_simps(1)[OF weak] x, of f] 
    unfolding get(3) map_total_prune[of f, OF that] indexmap.get_del[OF weak_simps(1)[OF weak]] .
  have "counts_ok inner'" unfolding counts_ok_def
    using forget_stats_Ok[OF stats] weak_simps(4,5)[OF weak] tot[of "\<lambda>_ _. 1"] tot[of "\<lambda>_ e. serialized_size (pe_tx e)"] by simp
  moreover have "entry_ok E y d" if "inner_get inner' y = Some d" for y d
    using that weak_simps(6)[OF weak] unfolding get(3) prune_Some entry_ok_def by auto
  moreover have "\<exists>ce. inner_get inner' c = Some ce \<and> y \<in> set (pe_dependencies ce)"
    if "inner_get inner' y = Some d" "c \<in> set (pe_dependents d)" for y d c
  proof -
    from that obtain d' where d': "inner_get inner y = Some d'" "c \<in> set (pe_dependents d')" "c \<noteq> x"
      unfolding get(3) prune_Some by auto
    from weak_simps(7)[OF weak d'(1,2)] obtain ce where "inner_get inner c = Some ce" "y \<in> set (pe_dependencies ce)" by auto
    with d'(3) show ?thesis unfolding get(3) by (simp add: prune_Some)
  qed
  ultimately show ?thesis using get(2) spent_ok unfolding pool_weak_def by simp
qed

lemma remove_each_weak:
  assumes "pool_weak E inner" "distinct xs" "set xs \<subseteq> dom (inner_get inner)"
    and "remove_each inner xs = Ok (removed, inner')"
  shows "pool_weak E inner' \<and> inner_get inner' = prune (set xs) (inner_get inner) \<and>
    removed = map (\<lambda>x. pe_tx (the (inner_get inner x))) xs"
  using assms(2-)
proof (induction xs arbitrary: removed inner' rule: rev_induct)
  case Nil
  then show ?case using assms(1) by (simp add: remove_each_def prune_empty)
next
  case (snoc x xs)
  from snoc.prems(3) obtain r1 i1 t where run: "remove_each inner xs = Ok (r1, i1)" "remove_one i1 x = Ok (t, inner')"
    and removed: "removed = (case t of Some tx \<Rightarrow> r1 @ [tx] | None \<Rightarrow> r1)"
    unfolding remove_each_def by (auto simp: fold_res_snoc res_simps split: sum.splits prod.splits)
  have IH: "pool_weak E i1" "inner_get i1 = prune (set xs) (inner_get inner)"
    "r1 = map (\<lambda>x. pe_tx (the (inner_get inner x))) xs"
    using snoc.IH[OF _ _ run(1)] snoc.prems by auto
  from snoc.prems obtain e where e: "inner_get inner x = Some e" "x \<notin> set xs" by auto
  then obtain e' where e': "inner_get i1 x = Some e'" "pe_tx e' = pe_tx e"
    unfolding IH(2) by (simp add: prune_def)
  from remove_one_get[OF IH(1) e'(1) run(2)] remove_one_weak[OF IH(1) e'(1) run(2)]
  show ?case by (simp add: IH(2,3) prune_prune removed e e'(2))
qed

text \<open>The package of a set of members lies in the pool, and removing it restores the links.\<close>

lemma package_in_pool:
  assumes "pool_weak E inner" "R \<subseteq> dom (inner_get inner)"
  shows "(child_rel (pi_txs inner))\<^sup>* `` R \<subseteq> dom (inner_get inner)"
proof
  fix y assume "y \<in> (child_rel (pi_txs inner))\<^sup>* `` R"
  then obtain x where "x \<in> R" and xy: "(x, y) \<in> (child_rel (pi_txs inner))\<^sup>*" by (rule ImageE)
  with assms(2) have "x \<in> dom (inner_get inner)" by (simp add: subset_iff)
  with xy show "y \<in> dom (inner_get inner)"
  proof (induction rule: rtrancl_induct)
    case (step y z)
    then show ?case using weak_simps(7)[OF assms(1), of y _ z] by (auto simp: child_rel_def)
  qed
qed

lemma remove_package_ok:
  assumes ok: "pool_ok E inner" and R: "R \<subseteq> dom (inner_get inner)"
    and run: "remove_each inner (sorted_list_of_set (descendants_including (pi_txs inner) R)) = Ok (removed, inner')"
  defines "D \<equiv> (child_rel (pi_txs inner))\<^sup>* `` R"
  shows "pool_ok E inner'" "inner_get inner' = prune D (inner_get inner)"
    "removed = map (\<lambda>x. pe_tx (the (inner_get inner x))) (sorted_list_of_set D)"
    "finite D" "D \<subseteq> dom (inner_get inner)"
proof -
  have weak: "pool_weak E inner" using ok by (simp add: pool_ok_def)
  have D: "D \<subseteq> dom (inner_get inner)" unfolding D_def by (rule package_in_pool[OF weak R])
  then have fin: "finite D" by (rule finite_subset) (simp add: finite_dom_map_of)
  have desc: "descendants_including (pi_txs inner) R = D" unfolding D_def
    by (rule descendants_including_spec) (rule finite_subset[OF R finite_dom_map_of])
  have each: "pool_weak E inner' \<and> inner_get inner' = prune D (inner_get inner) \<and>
      removed = map (\<lambda>x. pe_tx (the (inner_get inner x))) (sorted_list_of_set D)"
    using remove_each_weak[OF weak _ _ run[unfolded desc]] fin D by simp
  have links: "\<exists>pe. inner_get inner' p = Some pe \<and> c \<in> set (pe_dependents pe)"
    if "inner_get inner' c = Some e" "p \<in> set (pe_dependencies e)" for c e p
  proof -
    from that each obtain e' where e': "inner_get inner c = Some e'" "p \<in> set (pe_dependencies e')" "c \<notin> D"
      by (auto simp: prune_Some)
    with ok obtain pe where pe: "inner_get inner p = Some pe" "c \<in> set (pe_dependents pe)"
      unfolding pool_ok_def by blast
    have "p \<notin> D"
    proof
      assume "p \<in> D"
      then obtain r where "r \<in> R" "(r, p) \<in> (child_rel (pi_txs inner))\<^sup>*" unfolding D_def by (rule ImageE)
      moreover have "(p, c) \<in> child_rel (pi_txs inner)" using pe by (simp add: child_rel_def)
      ultimately have "c \<in> D" unfolding D_def by (metis ImageI rtrancl.rtrancl_into_rtrancl)
      with e'(3) show False ..
    qed
    with pe e'(3) each show ?thesis by (auto simp: prune_Some)
  qed
  show "pool_ok E inner'" unfolding pool_ok_def using each links by simp
  show "inner_get inner' = prune D (inner_get inner)"
    "removed = map (\<lambda>x. pe_tx (the (inner_get inner x))) (sorted_list_of_set D)" using each by simp_all
  show "finite D" "D \<subseteq> dom (inner_get inner)" by (rule fin) (rule D)
qed

section \<open>Admitting a transaction\<close>

abbreviation with_child :: "hash32 \<Rightarrow> 's pool_entry \<Rightarrow> 's pool_entry" where
  "with_child x e \<equiv> e\<lparr>pe_dependents := remdups_adj (sort (pe_dependents e @ [x]))\<rparr>"

lemma add_dependents_get:
  assumes "ix_wf txs" "distinct ps"
  shows "ix_wf (fold (add_dependent x) ps txs)"
    "map_of (fold (add_dependent x) ps txs) =
       (\<lambda>y. if y \<in> set ps then map_option (with_child x) (map_of txs y) else map_of txs y)"
  using assms
proof (induction ps arbitrary: txs)
  case (Cons p ps)
  have wf: "ix_wf (add_dependent x p txs)" if "ix_wf txs" for txs :: "'a pool_txs"
    using that by (simp add: add_dependent_def indexmap.inv_ins split: option.splits)
  have get: "map_of (add_dependent x p txs) = (map_of txs)(p := map_option (with_child x) (map_of txs p))"
    if "ix_wf txs" for txs :: "'a pool_txs"
    using that by (auto simp: add_dependent_def indexmap.get_ins fun_eq_iff split: option.splits)
  {
    case 1
    then show ?case using Cons(1)[OF wf] by simp
  next
    case 2
    then show ?case using Cons(2)[OF wf] by (auto simp: get fun_eq_iff)
  }
qed simp_all

lemma admit_stats_Ok:
  assumes "admit_stats tx fee rbf s = Ok s'"
  shows "unat (ps_total_txs s') = unat (ps_total_txs s) + 1"
    "unat (ps_total_size s') = unat (ps_total_size s) + serialized_size tx"
  using assms
  by (auto simp: admit_stats_def res_simps size_as_u64 u_arith split: if_splits option.splits)

lemma spend_inputs_get:
  assumes "bt_wf m"
  shows "bt_wf (fold (\<lambda>p. bt_insert p x) ps m)"
    "bt_get (fold (\<lambda>p. bt_insert p x) ps m) = (\<lambda>p. if p \<in> set ps then Some x else bt_get m p)"
  using assms
proof (induction ps arbitrary: m)
  case (Cons p ps)
  {
    case 1
    then show ?case using Cons(1)[OF btree.inv_ins] by simp
  next
    case 2
    then show ?case by (auto simp: Cons(2)[OF btree.inv_ins] btree.get_ins fun_eq_iff)
  }
qed simp_all

lemma map_total_mapped:
  assumes "\<And>k e. f k (g e) = f k e"
  shows "map_total f (\<lambda>y. if y \<in> S then map_option g (m y) else m y) = map_total f m"
  unfolding map_total_def
  by (rule sum.cong) (auto simp: assms domIff split: if_splits option.splits)

definition new_entry ::
  "crypto_env \<Rightarrow> (cell_tx \<Rightarrow> u64 \<Rightarrow> u64 \<Rightarrow> 's) \<Rightarrow> verified_state_transaction \<Rightarrow> hash32 list \<Rightarrow> 's pool_entry" where
  "new_entry E score admitted dependencies =
     \<lparr>pe_tx = vt_tx admitted, pe_txid = vt_txid admitted, pe_wtxid = compute_wtxid E (vt_tx admitted),
      pe_score = score (vt_tx admitted) (vt_fee admitted) (vt_cycles admitted), pe_timestamp = 0,
      pe_fee = vt_fee admitted, pe_cycles = vt_cycles admitted,
      pe_admitted_state_root = vt_state_root admitted, pe_resulting_state_root = vt_state_root_after admitted,
      pe_dependencies = dependencies, pe_dependents = []\<rparr>"

lemma admit_Ok:
  assumes run: "admit E score v deps rbf inner = Ok inner'" and wf: "ix_wf (pi_txs inner)" and "distinct deps"
  shows "ix_wf (pi_txs inner')"
    "inner_get inner' = (\<lambda>y. if y \<in> set deps then map_option (with_child (vt_txid v)) (inner_get inner y)
        else inner_get inner y)(vt_txid v \<mapsto> new_entry E score v deps)"
    "pi_spent_outputs inner' = fold (\<lambda>p. bt_insert p (vt_txid v)) (input_points (vt_tx v)) (pi_spent_outputs inner)"
    "admit_stats (vt_tx v) (vt_fee v) rbf (pi_stats inner) = Ok (pi_stats inner')"
proof -
  have txs: "pi_txs inner' = ix_insert (vt_txid v) (new_entry E score v deps) (fold (add_dependent (vt_txid v)) deps (pi_txs inner))"
    and spent: "pi_spent_outputs inner' = fold (\<lambda>p. bt_insert p (vt_txid v)) (input_points (vt_tx v)) (pi_spent_outputs inner)"
    and stats: "admit_stats (vt_tx v) (vt_fee v) rbf (pi_stats inner) = Ok (pi_stats inner')"
    using run by (auto simp: admit_def Let_def res_simps new_entry_def split: sum.splits)
  note dep = add_dependents_get[OF wf assms(3), of "vt_txid v"]
  show "ix_wf (pi_txs inner')" unfolding txs by (intro indexmap.inv_ins dep)
  show "inner_get inner' = (\<lambda>y. if y \<in> set deps then map_option (with_child (vt_txid v)) (inner_get inner y)
        else inner_get inner y)(vt_txid v \<mapsto> new_entry E score v deps)"
    unfolding txs indexmap.get_ins[OF dep(1)] dep(2) ..
  show "pi_spent_outputs inner' = fold (\<lambda>p. bt_insert p (vt_txid v)) (input_points (vt_tx v)) (pi_spent_outputs inner)"
    by (rule spent)
  show "admit_stats (vt_tx v) (vt_fee v) rbf (pi_stats inner) = Ok (pi_stats inner')" by (rule stats)
qed

lemma admit_get_cases:
  assumes "inner_get inner' = (\<lambda>y. if y \<in> set deps then map_option (with_child x) (inner_get inner y)
        else inner_get inner y)(x \<mapsto> ne)" "inner_get inner' y = Some e"
  obtains "y = x" "e = ne"
  | e' where "y \<noteq> x" "inner_get inner y = Some e'" "y \<notin> set deps" "e = e'"
  | e' where "y \<noteq> x" "inner_get inner y = Some e'" "y \<in> set deps" "e = with_child x e'"
  using assms by (auto split: if_splits)

lemma admit_counts:
  assumes weak: "pool_weak E inner" and new: "inner_get inner (vt_txid v) = None" and d: "distinct deps"
    and run: "admit E score v deps rbf inner = Ok inner'" and sub: "set deps \<subseteq> dom (inner_get inner)"
  shows "counts_ok inner'"
proof -
  note a = admit_Ok[OF run weak_simps(1)[OF weak] d]
  define m where "m = (\<lambda>y. if y \<in> set deps then map_option (with_child (vt_txid v)) (inner_get inner y) else inner_get inner y)"
  have fin: "finite (dom m)" by (rule finite_subset[of _ "dom (inner_get inner)"])
      (auto simp: m_def finite_dom_map_of split: if_splits)
  have no: "m (vt_txid v) = None" using new by (simp add: m_def)
  have tot: "map_total f (inner_get inner') = f (vt_txid v) (new_entry E score v deps) + map_total f (inner_get inner)"
    if "\<And>k e d. f k (e\<lparr>pe_dependents := d\<rparr>) = f k e" for f :: "hash32 \<Rightarrow> 'a pool_entry \<Rightarrow> nat"
  proof -
    have "map_total f (m(vt_txid v \<mapsto> new_entry E score v deps)) = f (vt_txid v) (new_entry E score v deps) + map_total f m"
      unfolding map_total_def using fin no by (simp add: domIff cong: sum.cong)
        (auto intro!: sum.cong simp: no domIff)
    also have "map_total f m = map_total f (inner_get inner)" unfolding m_def by (rule map_total_mapped) (rule that)
    finally show ?thesis unfolding a(2) m_def .
  qed
  show ?thesis unfolding counts_ok_def
    using admit_stats_Ok[OF a(4)] weak_simps(4,5)[OF weak] tot[of "\<lambda>_ _. 1"] tot[of "\<lambda>_ e. serialized_size (pe_tx e)"]
    by (simp add: new_entry_def)
qed

lemma admit_spent:
  assumes weak: "pool_weak E inner" and new: "inner_get inner (vt_txid v) = None" and d: "distinct deps"
    and free: "\<And>p. p \<in> set (input_points (vt_tx v)) \<Longrightarrow> bt_get (pi_spent_outputs inner) p = None"
    and run: "admit E score v deps rbf inner = Ok inner'"
  shows "spent_ok inner'"
proof -
  note a = admit_Ok[OF run weak_simps(1)[OF weak] d]
  note sp = spend_inputs_get[OF weak_simps(2)[OF weak], of "vt_txid v" "input_points (vt_tx v)", folded a(3)]
  have "bt_get (pi_spent_outputs inner') p = Some y \<longleftrightarrow> (\<exists>d. inner_get inner' y = Some d \<and> p \<in> set (input_points (pe_tx d)))" for p y
  proof (cases "y = vt_txid v")
    case True
    then have "bt_get (pi_spent_outputs inner) p \<noteq> Some y" unfolding weak_simps(3)[OF weak] using new by simp
    with True show ?thesis unfolding sp(2) a(2) by (simp add: new_entry_def)
  next
    case False
    then have "(\<exists>d. inner_get inner' y = Some d \<and> p \<in> set (input_points (pe_tx d))) \<longleftrightarrow> bt_get (pi_spent_outputs inner) p = Some y"
      unfolding weak_simps(3)[OF weak] a(2) by auto
    with False free[of p] show ?thesis unfolding sp(2) by auto
  qed
  then show ?thesis unfolding spent_ok_def using sp(1) by simp
qed

lemma admit_ok:
  assumes ok: "pool_ok E inner" and new: "inner_get inner (vt_txid v) = None" and d: "distinct deps"
    and free: "\<And>p. p \<in> set (input_points (vt_tx v)) \<Longrightarrow> bt_get (pi_spent_outputs inner) p = None"
    and run: "admit E score v deps rbf inner = Ok inner'" and sub: "set deps \<subseteq> dom (inner_get inner)"
    and id: "tx_id E (vt_tx v) = vt_txid v" and dist: "distinct (input_points (vt_tx v))"
  shows "pool_ok E inner'"
proof -
  have weak: "pool_weak E inner" using ok by (simp add: pool_ok_def)
  note a = admit_Ok[OF run weak_simps(1)[OF weak] d]
  have xdeps: "vt_txid v \<notin> set deps" using new sub by auto
  have get: "\<exists>e'. inner_get inner' y = Some e' \<and> pe_dependencies e' = pe_dependencies e \<and>
      set (pe_dependents e) \<subseteq> set (pe_dependents e')" if "inner_get inner y = Some e" for y e
    using that new unfolding a(2) by auto
  have entry: "entry_ok E y e" if "inner_get inner' y = Some e" for y e
    using a(2) that weak_simps(6)[OF weak] id dist
    by (elim admit_get_cases) (auto simp: entry_ok_def new_entry_def)
  have down: "\<exists>ce. inner_get inner' c = Some ce \<and> y \<in> set (pe_dependencies ce)"
    if "inner_get inner' y = Some e" "c \<in> set (pe_dependents e)" for y e c
  proof (cases "\<exists>e'. inner_get inner y = Some e' \<and> c \<in> set (pe_dependents e')")
    case True
    then obtain ce where "inner_get inner c = Some ce" "y \<in> set (pe_dependencies ce)"
      using weak_simps(7)[OF weak, of y _ c] by auto
    with get show ?thesis by metis
  next
    case False
    with that have "c = vt_txid v \<and> y \<in> set deps"
      by (elim admit_get_cases[OF a(2)]) (auto simp: new_entry_def)
    then show ?thesis unfolding a(2) by (simp add: new_entry_def)
  qed
  have up: "\<exists>pe. inner_get inner' p = Some pe \<and> c \<in> set (pe_dependents pe)"
    if "inner_get inner' c = Some e" "p \<in> set (pe_dependencies e)" for c e p
  proof (cases "c = vt_txid v")
    case True
    with that have p: "p \<in> set deps" unfolding a(2) by (auto simp: new_entry_def)
    with sub obtain pe where "inner_get inner p = Some pe" by auto
    with p True xdeps show ?thesis unfolding a(2) by auto
  next
    case False
    with that obtain e' where "inner_get inner c = Some e'" "p \<in> set (pe_dependencies e')"
      unfolding a(2) by (auto split: if_splits)
    with ok obtain pe where "inner_get inner p = Some pe" "c \<in> set (pe_dependents pe)" unfolding pool_ok_def by blast
    with get[of p pe] show ?thesis by blast
  qed
  show ?thesis unfolding pool_ok_def pool_weak_def
    using a(1) admit_spent[OF weak new d free run] admit_counts[OF weak new d run sub] entry down up by simp
qed

section \<open>The whole admission\<close>

text \<open>The members a transaction evicts: those that spend one of its inputs, and their descendants.\<close>

definition evicts :: "'s pool_inner \<Rightarrow> cell_tx \<Rightarrow> hash32 set" where
  "evicts inner tx = (child_rel (pi_txs inner))\<^sup>* ``
     {x. \<exists>e. inner_get inner x = Some e \<and> set (input_points (pe_tx e)) \<inter> set (input_points tx) \<noteq> {}}"

lemma meets_iff: "(\<exists>p\<in>A. \<exists>e. g = Some e \<and> p \<in> B e) \<longleftrightarrow> (\<exists>e. g = Some e \<and> B e \<inter> A \<noteq> {})"
  by auto

lemma direct_conflicts_eq:
  assumes "pool_weak E inner"
  shows "direct_conflicts inner tx =
     {x. \<exists>e. inner_get inner x = Some e \<and> set (input_points (pe_tx e)) \<inter> set (input_points tx) \<noteq> {}}"
proof -
  have "x \<in> direct_conflicts inner tx \<longleftrightarrow> (\<exists>p\<in>set (input_points tx). bt_get (pi_spent_outputs inner) p = Some x)" for x
    unfolding direct_conflicts_def by (auto simp: List.map_filter_def image_iff)
  then show ?thesis unfolding weak_simps(3)[OF assms] meets_iff by (intro set_eqI) (simp only: mem_Collect_eq)
qed

lemma find_in_list: "find P xs = Some a \<Longrightarrow> a \<in> set xs \<and> P a"
  by (auto simp: find_Some_iff)

lemma find_parent_member:
  "find_parent txs D p = Some x \<Longrightarrow> x \<in> dom (map_of txs) - D"
  unfolding find_parent_def by (auto dest!: find_in_list simp: dom_map_of_conv_image_fst intro: rev_image_eqI)

lemma set_map_filter_iff: "y \<in> set (List.map_filter f xs) \<longleftrightarrow> (\<exists>x\<in>set xs. f x = Some y)"
  by (force simp: List.map_filter_def image_iff)

lemma evicted_totals_Ok:
  "fold_res (evicted_totals txs) (0, 0) xs = Ok (f, s) \<Longrightarrow>
   unat f = (\<Sum>x\<leftarrow>xs. unat (pe_fee (the (map_of txs x)))) \<and>
   unat s = (\<Sum>x\<leftarrow>xs. unat (effective_size (pe_tx (the (map_of txs x))) (pe_cycles (the (map_of txs x)))))"
proof (induction xs arbitrary: f s rule: rev_induct)
  case (snoc x xs)
  from snoc.prems obtain f1 s1 where 1: "fold_res (evicted_totals txs) (0, 0) xs = Ok (f1, s1)"
    and 2: "evicted_totals txs (f1, s1) x = Ok (f, s)"
    by (auto simp: fold_res_snoc res_simps split: sum.splits)
  from 2 obtain e where "map_of txs x = Some e" "checked_add f1 (pe_fee e) = Some f"
    "checked_add s1 (effective_size (pe_tx e) (pe_cycles e)) = Some s"
    by (auto simp: evicted_totals_def res_simps split: option.splits)
  with 1 snoc.IH[of f1 s1] show ?case by (simp add: u_arith)
qed simp

lemma validate_replacement_Ok:
  assumes "validate_replacement txs v D = Ok ()"
  shows "(\<Sum>x\<in>D. unat (pe_fee (the (map_of txs x)))) < unat (vt_fee v)"
    "(\<Sum>x\<in>D. unat (pe_fee (the (map_of txs x)))) * unat (effective_size (vt_tx v) (vt_cycles v))
     < unat (vt_fee v) * (\<Sum>x\<in>D. unat (effective_size (pe_tx (the (map_of txs x))) (pe_cycles (the (map_of txs x)))))"
proof -
  from assms obtain f s where run: "fold_res (evicted_totals txs) (0, 0) (sorted_list_of_set D) = Ok (f, s)"
    and "f < vt_fee v" "unat f * unat (effective_size (vt_tx v) (vt_cycles v)) < unat (vt_fee v) * unat s"
    unfolding validate_replacement_def by (auto simp: res_simps Let_def not_le split: sum.splits if_splits prod.splits)
  moreover have "sum_list (map g (sorted_list_of_set D)) = sum g D" for g :: "hash32 \<Rightarrow> nat"
    by (cases "finite D") (simp_all add: sum.distinct_set_conv_list[of "sorted_list_of_set D", symmetric])
  ultimately show "(\<Sum>x\<in>D. unat (pe_fee (the (map_of txs x)))) < unat (vt_fee v)"
    "(\<Sum>x\<in>D. unat (pe_fee (the (map_of txs x)))) * unat (effective_size (vt_tx v) (vt_cycles v))
     < unat (vt_fee v) * (\<Sum>x\<in>D. unat (effective_size (pe_tx (the (map_of txs x))) (pe_cycles (the (map_of txs x)))))"
    using evicted_totals_Ok[OF run] by (simp_all add: word_less_nat_alt)
qed

lemma ix_length: "ix_wf m \<Longrightarrow> length m = card (dom (map_of m))"
  unfolding ix_wf_def dom_map_of_conv_image_fst using distinct_card[of "map fst m"] by simp

lemma add_inner_Ok:
  assumes ok: "pool_ok E (cp_inner pool)" and run: "add_inner E score pool v = Ok inner'"
  defines "D \<equiv> evicts (cp_inner pool) (vt_tx v)"
  shows "pool_ok E inner'"
    and "inner_get (cp_inner pool) (vt_txid v) = None" "D \<subseteq> dom (inner_get (cp_inner pool))"
    and "\<exists>deps. inner_get inner' (vt_txid v) = Some (new_entry E score v deps)"
    and "\<And>x. x \<noteq> vt_txid v \<Longrightarrow> map_option pe_tx (inner_get inner' x) =
          (if x \<in> D then None else map_option pe_tx (inner_get (cp_inner pool) x))"
    and "length (pi_txs inner') \<le> cp_max_size pool"
    and "D \<noteq> {} \<Longrightarrow> validate_replacement (pi_txs (cp_inner pool)) v D = Ok ()"
proof -
  let ?inner = "cp_inner pool"
  have weak: "pool_weak E ?inner" using ok by (simp add: pool_ok_def)
  note dc = direct_conflicts_eq[OF weak, of "vt_tx v"]
  have R: "direct_conflicts ?inner (vt_tx v) \<subseteq> dom (inner_get ?inner)" unfolding dc by auto
  have desc: "descendants_including (pi_txs ?inner) (direct_conflicts ?inner (vt_tx v)) = D"
    unfolding D_def evicts_def dc[symmetric]
    by (rule descendants_including_spec) (rule finite_subset[OF R finite_dom_map_of])
  define deps where "deps = sorted_list_of_set (set (List.map_filter (find_parent (pi_txs ?inner) D) (input_points (vt_tx v))))"
  from run[unfolded add_inner_def Let_def desc] obtain removed mid where
    id: "tx_id E (vt_tx v) = vt_txid v" and card: "card (set (input_points (vt_tx v))) = length (tx_inputs (vt_tx v))"
    and new: "inner_get ?inner (vt_txid v) = None" and room: "length (pi_txs ?inner) - card D < cp_max_size pool"
    and rbf: "(if D = {} then Ok () else validate_replacement (pi_txs ?inner) v D) = Ok ()"
    and rem: "remove_each ?inner (sorted_list_of_set D) = Ok (removed, mid)"
    and adm: "admit E score v deps (D \<noteq> {}) mid = Ok inner'"
    unfolding deps_def
    by (auto simp: res_simps not_le split: if_splits sum.splits)
  note pk = remove_package_ok[OF ok R rem[folded desc], folded dc evicts_def, unfolded dc, folded evicts_def, folded D_def]
  have dist: "distinct (input_points (vt_tx v))" using card by (intro card_distinct) simp
  have deps: "distinct deps" "set deps \<subseteq> dom (inner_get mid)" unfolding pk(2) dom_prune deps_def
    by (simp, use find_parent_member in \<open>simp add: set_map_filter_iff subset_iff del: set_map; blast\<close>)
  have new': "inner_get mid (vt_txid v) = None" unfolding pk(2) by (simp add: prune_def new)
  have wmid: "pool_weak E mid" using pk(1) by (simp add: pool_ok_def)
  have free: "bt_get (pi_spent_outputs mid) p = None" if p: "p \<in> set (input_points (vt_tx v))" for p
  proof (rule ccontr)
    assume "bt_get (pi_spent_outputs mid) p \<noteq> None"
    then obtain x where "bt_get (pi_spent_outputs mid) p = Some x" by auto
    then obtain e where "x \<notin> D" "inner_get ?inner x = Some e" "p \<in> set (input_points (pe_tx e))"
      unfolding weak_simps(3)[OF wmid] pk(2) prune_Some by auto
    moreover from this(2,3) p have "x \<in> D" unfolding D_def evicts_def by (intro ImageI[OF rtrancl_refl]) auto
    ultimately show False by simp
  qed
  note a = admit_Ok[OF adm weak_simps(1)[OF wmid] deps(1)]
  show "pool_ok E inner'" by (rule admit_ok[OF pk(1) new' deps(1) free adm deps(2) id dist])
  show "inner_get ?inner (vt_txid v) = None" "D \<subseteq> dom (inner_get ?inner)" by (fact new) (fact pk(5))
  show "\<exists>deps. inner_get inner' (vt_txid v) = Some (new_entry E score v deps)" unfolding a(2) by (rule exI[of _ deps]) simp
  show "map_option pe_tx (inner_get inner' x) = (if x \<in> D then None else map_option pe_tx (inner_get ?inner x))"
    if "x \<noteq> vt_txid v" for x
    using that unfolding a(2) pk(2) by (simp add: prune_def option.map_comp comp_def)
  have "dom (inner_get inner') = insert (vt_txid v) (dom (inner_get mid))"
    unfolding a(2) by (auto split: if_splits)
  then have "dom (inner_get inner') = insert (vt_txid v) (dom (inner_get ?inner) - D)"
    unfolding pk(2) dom_prune .
  then have "length (pi_txs inner') = Suc (length (pi_txs ?inner) - card D)"
    using new pk(4,5) by (simp add: ix_length[OF a(1)] ix_length[OF weak_simps(1)[OF weak]] card_Diff_subset finite_dom_map_of domIff)
  then show "length (pi_txs inner') \<le> cp_max_size pool" using room by simp
  show "validate_replacement (pi_txs ?inner) v D = Ok ()" if "D \<noteq> {}" using rbf that by simp
qed

section \<open>Histories of a pool\<close>

datatype pool_op = PoolAdd verified_state_transaction | PoolRemove hash32

fun pool_step :: "crypto_env \<Rightarrow> (cell_tx \<Rightarrow> u64 \<Rightarrow> u64 \<Rightarrow> 's) \<Rightarrow> pool_op \<Rightarrow> 's cell_pool \<Rightarrow> 's cell_pool" where
  "pool_step E score (PoolAdd v) pool = snd (pool_add E score pool v)"
| "pool_step E score (PoolRemove txid) pool = snd (remove_package pool txid)"

definition pool_inv :: "crypto_env \<Rightarrow> 's cell_pool \<Rightarrow> bool" where
  "pool_inv E pool \<longleftrightarrow> pool_ok E (cp_inner pool) \<and> length (pi_txs (cp_inner pool)) \<le> cp_max_size pool"

lemma pool_inv_new: "pool_inv E (pool_new n base)"
  by (simp add: pool_inv_def pool_new_def pool_ok_def pool_weak_def spent_ok_def counts_ok_def
      ix_wf_def bt_wf_def bt_get_def map_total_def)

lemma pool_add_cases:
  obtains (err) e where "pool_add E score pool v = (Err e, pool)"
  | (ok) inner where "add_inner E score pool v = Ok inner" "pool_add E score pool v = (Ok (vt_txid v), pool\<lparr>cp_inner := inner\<rparr>)"
  by (cases "add_inner E score pool v") (simp_all add: pool_add_def)

lemma remove_package_cases:
  obtains (err) e where "remove_package pool x = (Err e, pool)"
  | (ok) r inner where "inner_get (cp_inner pool) x \<noteq> None"
      "remove_each (cp_inner pool) (sorted_list_of_set (descendants_including (pi_txs (cp_inner pool)) {x})) = Ok (r, inner)"
      "remove_package pool x = (Ok r, pool\<lparr>cp_inner := inner\<rparr>)"
proof (cases "inner_get (cp_inner pool) x")
  case None
  then show thesis using err by (simp add: remove_package_def)
next
  case (Some e)
  show thesis
  proof (cases "remove_each (cp_inner pool) (sorted_list_of_set (descendants_including (pi_txs (cp_inner pool)) {x}))")
    case (Inl a)
    with Some show thesis using err by (simp add: remove_package_def)
  next
    case (Inr b)
    with Some show thesis using ok by (cases b) (simp add: remove_package_def)
  qed
qed

lemma pool_inv_step:
  assumes "pool_inv E pool"
  shows "pool_inv E (pool_step E score act pool)" "cp_max_size (pool_step E score act pool) = cp_max_size pool"
proof -
  have ok: "pool_ok E (cp_inner pool)" and weak: "pool_weak E (cp_inner pool)"
    using assms by (auto simp: pool_inv_def pool_ok_def)
  have "pool_inv E (pool_step E score act pool) \<and> cp_max_size (pool_step E score act pool) = cp_max_size pool"
  proof (cases act)
    case (PoolAdd v)
    show ?thesis unfolding PoolAdd pool_step.simps
    proof (cases rule: pool_add_cases[of E score pool v])
      case (err e)
      with assms show "pool_inv E (snd (pool_add E score pool v)) \<and> cp_max_size (snd (pool_add E score pool v)) = cp_max_size pool"
        by simp
    next
      case (ok inner)
      with add_inner_Ok(1,6)[OF \<open>pool_ok E (cp_inner pool)\<close> ok(1)]
      show "pool_inv E (snd (pool_add E score pool v)) \<and> cp_max_size (snd (pool_add E score pool v)) = cp_max_size pool"
        by (simp add: pool_inv_def)
    qed
  next
    case (PoolRemove x)
    show ?thesis unfolding PoolRemove pool_step.simps
    proof (cases rule: remove_package_cases[of pool x])
      case (err e)
      with assms show "pool_inv E (snd (remove_package pool x)) \<and> cp_max_size (snd (remove_package pool x)) = cp_max_size pool"
        by simp
    next
      case (ok r inner)
      have x: "{x} \<subseteq> dom (inner_get (cp_inner pool))" using ok(1) by auto
      note pk = remove_package_ok[OF \<open>pool_ok E (cp_inner pool)\<close> x ok(2)]
      have "ix_wf (pi_txs inner)" using pk(1) by (simp add: pool_ok_def pool_weak_def)
      then have "length (pi_txs inner) \<le> length (pi_txs (cp_inner pool))"
        by (simp add: ix_length weak_simps(1)[OF weak] pk(2) dom_prune card_mono finite_dom_map_of)
      with assms pk(1) ok(3) show "pool_inv E (snd (remove_package pool x)) \<and> cp_max_size (snd (remove_package pool x)) = cp_max_size pool"
        by (simp add: pool_inv_def)
    qed
  qed
  then show "pool_inv E (pool_step E score act pool)" "cp_max_size (pool_step E score act pool) = cp_max_size pool" by simp_all
qed

lemma pool_inv_run:
  "pool_inv E (fold (pool_step E score) acts (pool_new n base)) \<and>
   cp_max_size (fold (pool_step E score) acts (pool_new n base)) = n"
proof (induction acts rule: rev_induct)
  case (snoc act acts)
  then show ?case using pool_inv_step[of E "fold (pool_step E score) acts (pool_new n base)" score act] by simp
qed (simp add: pool_inv_new, simp add: pool_new_def)

lemma distinct_concat_keyed:
  assumes "distinct (map fst xs)" "\<And>k e. (k, e) \<in> set xs \<Longrightarrow> distinct (f e)"
    and "\<And>k e k' e' p. (k, e) \<in> set xs \<Longrightarrow> (k', e') \<in> set xs \<Longrightarrow> p \<in> set (f e) \<Longrightarrow> p \<in> set (f e') \<Longrightarrow> k = k'"
  shows "distinct (concat (map (\<lambda>(k, e). f e) xs))"
  using assms
proof (induction xs)
  case (Cons x xs)
  obtain k e where x: "x = (k, e)" by (cases x)
  have "set (f e) \<inter> set (concat (map (\<lambda>(k, e). f e) xs)) = {}"
  proof (rule ccontr)
    assume "set (f e) \<inter> set (concat (map (\<lambda>(k, e). f e) xs)) \<noteq> {}"
    then obtain p k' e' where "p \<in> set (f e)" "(k', e') \<in> set xs" "p \<in> set (f e')" by auto
    with Cons.prems(3)[of k e k' e' p] Cons.prems(1) show False by (auto simp: x image_iff)
  qed
  moreover have "distinct (concat (map (\<lambda>(k, e). f e) xs))"
  proof (rule Cons.IH)
    show "distinct (map fst xs)" using Cons.prems(1) by simp
    show "distinct (f e)" if "(k, e) \<in> set xs" for k e using Cons.prems(2)[of k e] that by simp
    show "k = k'" if "(k, e) \<in> set xs" "(k', e') \<in> set xs" "p \<in> set (f e)" "p \<in> set (f e')" for k e k' e' p
      using Cons.prems(3)[of k e k' e' p] that by simp
  qed
  ultimately show ?case using Cons.prems(2)[of k e] by (simp add: x)
qed simp

lemma pool_no_double_spend:
  assumes "pool_weak E inner"
  shows "distinct (concat (map (\<lambda>(_, e). input_points (pe_tx e)) (pi_txs inner)))"
proof (rule distinct_concat_keyed)
  note wf = weak_simps(1)[OF assms, unfolded ix_wf_def]
  show "distinct (map fst (pi_txs inner))" by (rule wf)
  show "distinct (input_points (pe_tx e))" if "(k, e) \<in> set (pi_txs inner)" for k e
    using weak_simps(6)[OF assms map_of_is_SomeI[OF wf that]] by (simp add: entry_ok_def)
  show "k = k'" if "(k, e) \<in> set (pi_txs inner)" "(k', e') \<in> set (pi_txs inner)"
    "p \<in> set (input_points (pe_tx e))" "p \<in> set (input_points (pe_tx e'))" for k e k' e' p
  proof -
    have "bt_get (pi_spent_outputs inner) p = Some k" "bt_get (pi_spent_outputs inner) p = Some k'"
      unfolding weak_simps(3)[OF assms] using map_of_is_SomeI[OF wf that(1)] map_of_is_SomeI[OF wf that(2)] that(3,4) by blast+
    then show ?thesis by simp
  qed
qed

section \<open>Properties\<close>


text \<open>
  \<^bold>\<open>C34\<close>: When a transaction is admitted it was not a member, the members afterwards are the previous ones
  without those that spend one of its inputs and their descendants, plus itself, and if anyone
  was evicted it pays strictly more than all of them together, both in total and per unit of
  effective size.
\<close>

theorem pool_replacement_pays:
  assumes "pool_ok E (cp_inner pool)" "pool_add E score pool v = (Ok txid, pool')"
  defines "D \<equiv> evicts (cp_inner pool) (vt_tx v)"
  shows "txid = vt_txid v \<and> pool_get pool txid = None
    \<and> map_option pe_tx \<circ> pool_get pool' =
        (\<lambda>x. if x = txid then Some (vt_tx v) else if x \<in> D then None else map_option pe_tx (pool_get pool x))
    \<and> (D = {} \<or>
        (\<Sum>x\<in>D. unat (pe_fee (the (pool_get pool x)))) < unat (vt_fee v)
        \<and> (\<Sum>x\<in>D. unat (pe_fee (the (pool_get pool x)))) * unat (effective_size (vt_tx v) (vt_cycles v))
          < unat (vt_fee v) * (\<Sum>x\<in>D. unat (effective_size (pe_tx (the (pool_get pool x))) (pe_cycles (the (pool_get pool x))))))"
proof (cases rule: pool_add_cases[of E score pool v])
  case (err e)
  with assms(2) show ?thesis by simp
next
  case (ok inner)
  with assms(2) have out: "txid = vt_txid v" "pool' = pool\<lparr>cp_inner := inner\<rparr>" by simp_all
  note a = add_inner_Ok[OF assms(1) ok(1), folded D_def]
  have get: "pool_get pool = inner_get (cp_inner pool)" "pool_get pool' = inner_get inner"
    by (simp_all add: fun_eq_iff pool_get_def out)
  have "map_option pe_tx (inner_get inner (vt_txid v)) = Some (vt_tx v)"
    using a(4) by (auto simp: new_entry_def)
  then have "map_option pe_tx \<circ> inner_get inner =
      (\<lambda>x. if x = vt_txid v then Some (vt_tx v) else if x \<in> D then None else map_option pe_tx (inner_get (cp_inner pool) x))"
    using a(5) by (simp add: fun_eq_iff)
  with a(2) validate_replacement_Ok[OF a(7)] show ?thesis
    unfolding get unfolding out(1) by (intro conjI) (simp_all add: disj_imp)
qed

definition sample_verified :: "u64 \<Rightarrow> u64 \<Rightarrow> verified_state_transaction" where
  "sample_verified capacity fee = \<lparr>vt_tx = sample_tx capacity [], vt_txid = tx_id toy_env (sample_tx capacity []),
     vt_state_root = replicate 32 1, vt_state_root_after = replicate 32 2, vt_fee = fee, vt_cycles = 10\<rparr>"

definition sample_pool :: "unit cell_pool" where
  "sample_pool = fold (pool_step toy_env (\<lambda>_ _ _. ())) [PoolAdd (sample_verified 900 5)] (pool_new 1 (replicate 32 1))"

lemma sample_pool_ids: "tx_id toy_env (sample_tx 900 []) \<noteq> tx_id toy_env (sample_tx 800 [])"
  by code_simp

lemma sample_pool_size: "as_u64 (serialized_size (sample_tx 900 [])) = 155" "as_u64 (serialized_size (sample_tx 800 [])) = 155"
  by code_simp+

lemma sample_pool_eq:
  "sample_pool = \<lparr>cp_inner = \<lparr>pi_txs = [(tx_id toy_env (sample_tx 900 []), new_entry toy_env (\<lambda>_ _ _. ()) (sample_verified 900 5) [])],
      pi_spent_outputs = [(OutPoint (replicate 32 9) 0, tx_id toy_env (sample_tx 900 []))],
      pi_stats = \<lparr>ps_total_txs = 1, ps_total_size = 155, ps_total_fee = 5, ps_txs_added = 1, ps_txs_removed = 0, ps_rbf_count = 0\<rparr>\<rparr>,
    cp_max_size = 1, cp_base_state_root = replicate 32 1\<rparr>"
proof -
  have "tx_inputs (sample_tx 900 []) = [\<lparr>ci_previous_output = OutPoint (replicate 32 9) 0, ci_since = 0\<rparr>]" by (simp add: sample_tx_def)
  then show ?thesis
  by (simp add: sample_pool_def pool_add_def add_inner_def sample_verified_def pool_new_def Let_def direct_conflicts_def bt_get_def
   descendants_including_def List.map_filter_def find_parent_def check_parent_root_def res_simps remove_each_def admit_def
   sample_pool_size admit_stats_def checked_add_def saturating_add_def new_entry_def)
qed

lemma sample_evicted: "descendants_including (pi_txs (cp_inner sample_pool)) {tx_id toy_env (sample_tx 900 [])} = {tx_id toy_env (sample_tx 900 [])}"
  by (simp add: sample_pool_eq descendants_including_def new_entry_def)

lemma sample_replaced:
  "fst (pool_add toy_env (\<lambda>_ _ _. ()) sample_pool (sample_verified 800 50)) = Ok (vt_txid (sample_verified 800 50))"
proof -
  have i: "tx_inputs (sample_tx c []) = [\<lparr>ci_previous_output = OutPoint (replicate 32 9) 0, ci_since = 0\<rparr>]" for c
    by (simp add: sample_tx_def)
  have "direct_conflicts (cp_inner sample_pool) (sample_tx 800 []) = {tx_id toy_env (sample_tx 900 [])}"
    by (simp add: direct_conflicts_def sample_pool_eq List.map_filter_def i bt_get_def)
  with sample_evicted have "descendants_including (pi_txs (cp_inner sample_pool)) (direct_conflicts (cp_inner sample_pool) (sample_tx 800 []))
      = {tx_id toy_env (sample_tx 900 [])}" by simp
  then show ?thesis
    using sample_pool_ids
    by (simp add: sample_pool_eq pool_add_def add_inner_def sample_verified_def Let_def i new_entry_def
      validate_replacement_def evicted_totals_def effective_size_def sample_pool_size saturating_mul_def checked_add_def
      List.map_filter_def find_parent_def check_parent_root_def res_simps remove_each_def remove_one_def forget_stats_def
      checked_sub_def admit_def admit_stats_def saturating_add_def)
qed

theorem pool_replacement_pays_witness:
  "let v = sample_verified 800 50; (r, pool) = pool_add toy_env (\<lambda>_ _ _. ()) sample_pool v
   in pool_ok toy_env (cp_inner sample_pool) \<and> r = Ok (vt_txid v)
    \<and> evicts (cp_inner sample_pool) (vt_tx v) = {vt_txid (sample_verified 900 5)}
    \<and> pool_get pool (vt_txid (sample_verified 900 5)) = None \<and> map_option pe_tx (pool_get pool (vt_txid v)) = Some (vt_tx v)"
proof -
  have ok: "pool_ok toy_env (cp_inner sample_pool)"
    using pool_inv_run unfolding sample_pool_def pool_inv_def by blast
  have run: "pool_add toy_env (\<lambda>_ _ _. ()) sample_pool (sample_verified 800 50) =
      (Ok (vt_txid (sample_verified 800 50)), snd (pool_add toy_env (\<lambda>_ _ _. ()) sample_pool (sample_verified 800 50)))"
    using sample_replaced by (metis prod.collapse)
  have "{x. \<exists>e. inner_get (cp_inner sample_pool) x = Some e \<and> set (input_points (pe_tx e)) \<inter> set (input_points (vt_tx (sample_verified 800 50))) \<noteq> {}}
      = {vt_txid (sample_verified 900 5)}"
    by (auto simp: sample_pool_eq new_entry_def sample_verified_def sample_tx_def split: if_splits)
  then have ev: "evicts (cp_inner sample_pool) (vt_tx (sample_verified 800 50)) = {vt_txid (sample_verified 900 5)}"
    unfolding evicts_def using descendants_including_spec[of "{vt_txid (sample_verified 900 5)}" "pi_txs (cp_inner sample_pool)"] sample_evicted
    by (simp add: sample_verified_def)
  have ne: "vt_txid (sample_verified 900 5) \<noteq> vt_txid (sample_verified 800 50)"
    using sample_pool_ids by (simp add: sample_verified_def)
  from pool_replacement_pays[OF ok run] have "map_option pe_tx \<circ> pool_get (snd (pool_add toy_env (\<lambda>_ _ _. ()) sample_pool (sample_verified 800 50))) =
     (\<lambda>x. if x = vt_txid (sample_verified 800 50) then Some (vt_tx (sample_verified 800 50)) else if x \<in> {vt_txid (sample_verified 900 5)} then None
        else map_option pe_tx (pool_get sample_pool x))" unfolding ev by blast
  from fun_cong[OF this, of "vt_txid (sample_verified 900 5)"] fun_cong[OF this, of "vt_txid (sample_verified 800 50)"]
  show ?thesis unfolding Let_def by (subst run) (simp add: ok ev ne)
qed

end
