(* ===== verification/Session_Types.thy ===== *)
theory Session_Types
  imports Proof_Codec
begin

text \<open>
  The data of a session chain and its self-checks: application profiles and execution frames
  (\<open>session/src/application.rs\<close>), resource limits (\<open>resources.rs\<close>), source-effect policies
  (\<open>effects.rs\<close>), handoffs and successors (\<open>continuity.rs\<close>, \<open>succession.rs\<close>), configurations,
  heads and outbox messages (\<open>lib.rs\<close>). Hashes are written as the bytes hashed
  (\<open>..._preimage\<close>); the postcard serialisation is a parameter. Lengths are compared as natural
  numbers: \<open>usize\<close> and \<open>u64\<close> have the same range on the supported targets.
\<close>

section \<open>Data\<close>

text \<open>The error variants that carry the cursors of a paused audit or replay are left out.\<close>

datatype store_error = StConflict string | StNotFound string | StCorrupt string | StBackend string

datatype session_error =
    SeInvalidConfig string
  | SeConsensusKind consensus_kind consensus_kind
  | SeExecution string
  | SeInvalidFrame string
  | SeInspection string
  | SeEvidence string
  | SeReplay string
  | SeContinuity string
  | SeProtocolEffects string
  | SeStateRootMismatch hash32 hash32
  | SeStalePreparedBlock
  | SeFinalityMismatch hash32 hash32
  | SeHeightOverflow
  | SeBlockLimit string
  | SeResourceLimit string u64 u64
  | SeInvalidTimestamp string
  | SeRecovery string
  | SeSnapshot string
  | SeCodec string
  | SeConsensus consensus_error
  | SeStore store_error

record application_vm_profile =
  vm_spawn_ipc_required :: bool

record application_resource_envelope =
  re_max_frame_inputs :: u64
  re_max_frame_input_bytes :: u64
  re_max_frame_cycles :: u64
  re_max_logical_time_span :: u64
  re_max_inspect_query_bytes :: u64
  re_max_inspect_result_bytes :: u64

record application_profile =
  ap_command_identity_required :: bool
  ap_application_id :: string
  ap_program_digest :: hash32
  ap_input_schema_hash :: hash32
  ap_state_codec_hash :: hash32
  ap_logical_time_policy_hash :: hash32
  ap_entropy_policy_hash :: hash32
  ap_vm :: application_vm_profile
  ap_resources :: application_resource_envelope
  ap_court_profile_hash :: hash32
  ap_handoff_policy_hash :: hash32

record command_identity =
  cmd_id :: hash32
  cmd_payload_hash :: hash32

record frame_input =
  fi_commands :: "command_identity list"
  fi_start_position :: u64
  fi_end_position :: u64
  fi_logical_time_start :: u64
  fi_logical_time_end :: u64
  fi_payload :: bytes

record execution_resources =
  xs_cycles :: u64
  xs_transaction_bytes :: u64
  xs_input_bytes :: u64

record execution_frame =
  ef_session_id :: hash32
  ef_height :: u64
  ef_application_profile_commitment :: hash32
  ef_input_start :: u64
  ef_input_end :: u64
  ef_input_root :: hash32
  ef_logical_time_start :: u64
  ef_logical_time_end :: u64
  ef_state_root_before :: hash32
  ef_state_root_after :: hash32
  ef_ordered_cell_tx_commitments :: "hash32 list"
  ef_resources :: execution_resources

record commit_resource_limits =
  cl_version :: u16
  cl_max_frame_bytes :: u64
  cl_max_issued_handoffs :: u64
  cl_max_consumed_handoffs :: u64
  cl_max_handoff_payload_bytes :: u64
  cl_max_authorization_bytes :: u64
  cl_max_data_commitments :: u64
  cl_max_outbox_messages :: u64
  cl_max_outbox_bytes :: u64
  cl_max_snapshot_bytes :: u64
  cl_max_record_bytes :: u64

datatype protocol_effects_policy = EffectsDisabled | AuthorityMetadata hash32 | is_application: ApplicationPolicy hash32

record predecessor_reference =
  pr_session_id :: hash32
  pr_final_height :: u64
  pr_final_state_root :: hash32
  pr_application_profile_commitment :: hash32

record session_config =
  se_session_id :: hash32
  se_consensus_kind :: consensus_kind
  se_consensus_config_commitment :: hash32
  se_consensus_module_commitment :: hash32
  se_consensus_wal_schema_hash :: hash32
  se_application_profile :: application_profile
  se_initial_state_root :: hash32
  se_initial_input_position :: u64
  se_initial_logical_time :: u64
  se_initial_timestamp_ms :: u64
  se_predecessor :: "predecessor_reference option"
  se_max_block_transactions :: u32
  se_max_block_bytes :: u64
  se_max_future_drift_ms :: u64
  se_commit_limits :: commit_resource_limits
  se_protocol_effects :: protocol_effects_policy

record session_head =
  hd_session_id :: hash32
  hd_finalised_height :: "u64 option"
  hd_block_hash :: hash32
  hd_state_root :: hash32
  hd_timestamp_ms :: u64
  hd_input_position :: u64
  hd_logical_time :: u64
  hd_sealed_by_successor :: "hash32 option"

datatype handoff_target = TargetSession hash32 | TargetPolicy hash32

record evidence_requirement =
  er_message_id :: hash32
  er_pipeline_commitment :: hash32
  er_minimum_stage_index :: u16

record handoff_intent =
  hi_target :: handoff_target
  hi_expires_at_ms :: u64
  hi_payload :: bytes
  hi_authorization :: bytes
  hi_evidence_requirement :: "evidence_requirement option"

record session_handoff =
  ho_source_session_id :: hash32
  ho_source_height :: u64
  ho_source_state_root :: hash32
  ho_source_application_profile_commitment :: hash32
  ho_source_consensus_module_commitment :: hash32
  ho_target :: handoff_target
  ho_expires_at_ms :: u64
  ho_payload :: bytes
  ho_authorization :: bytes
  ho_evidence_requirement :: "evidence_requirement option"

record migration_artifact =
  ma_format_version :: u32
  ma_program_digest :: hash32
  ma_input_schema_hash :: hash32

datatype successor_state =
    Continue
  | Compatible hash32 hash32 hash32
  | Migrate migration_artifact bytes hash32 bytes

record successor_transition =
  tr_source_genesis_commitment :: hash32
  tr_input_root :: hash32
  tr_source_snapshot_hash :: hash32
  tr_state :: successor_state

record successor_declaration =
  sd_source_session_id :: hash32
  sd_source_height :: u64
  sd_source_state_root :: hash32
  sd_source_application_profile_commitment :: hash32
  sd_target_config :: session_config
  sd_transition :: successor_transition

record protocol_effects_context =
  px_source_genesis_commitment :: hash32
  px_source_session_id :: hash32
  px_policy :: protocol_effects_policy
  px_height :: u64
  px_timestamp_ms :: u64
  px_pre_state_root :: hash32
  px_input_root :: hash32
  px_issued_handoffs :: "handoff_intent list"
  px_successor_config :: bytes

record outbox_message =
  ob_id :: hash32
  ob_consensus_module_commitment :: hash32
  ob_topic :: string
  ob_payload :: bytes

record pending_outbox_message =
  po_topic :: string
  po_payload :: bytes

record execution_outcome =
  oc_ordered_cell_tx_commitments :: "hash32 list"
  oc_data_commitments :: "hash32 list"
  oc_outbox :: "pending_outbox_message list"
  oc_cycles :: u64

section \<open>Handoff lifecycle, evidence and command receipts\<close>

record handoff_block_reference =
  br_session_id :: hash32
  br_height :: u64
  br_block_hash :: hash32

datatype handoff_terminal =
    Issued
  | Consumed handoff_block_reference
  | Cancelled handoff_block_reference
  | Reclaimed handoff_block_reference handoff_block_reference
  | Retired handoff_block_reference handoff_block_reference

record handoff_lifecycle =
  lc_issued_at :: handoff_block_reference
  lc_terminal :: handoff_terminal

datatype handoff_action = Cancel hash32 | Reclaim hash32 | Retire hash32 handoff_block_reference

record resolved_handoff_action =
  ra_action :: handoff_action
  ra_handoff :: session_handoff
  ra_cancelled_at :: "handoff_block_reference option"

record stored_handoff =
  sto_handoff :: session_handoff
  sto_lifecycle :: handoff_lifecycle

record evidence_stage =
  es_name :: string
  es_verifier_commitment :: hash32

record evidence_pipeline_descriptor =
  ep_pipeline_name :: string
  ep_topic :: string
  ep_stages :: "evidence_stage list"

record evidence_receipt =
  ec_stage_index :: u16
  ec_stage_name :: string
  ec_verifier_commitment :: hash32
  ec_previous_receipt_commitment :: hash32
  ec_evidence :: bytes

record evidence_record =
  ev_session_id :: hash32
  ev_message_id :: hash32
  ev_message_commitment :: hash32
  ev_descriptor :: evidence_pipeline_descriptor
  ev_receipts :: "evidence_receipt list"
  ev_revision :: u64

record command_receipt =
  rc_session_id :: hash32
  rc_command :: command_identity
  rc_input_position :: u64
  rc_block_height :: u64
  rc_block_hash :: hash32
  rc_frame_commitment :: hash32

datatype command_status = Missing | Committed command_receipt | IdentityConflict command_receipt

section \<open>Records, requests and the ports of a chain\<close>

record finalised_block_record =
  fr_block :: myelin_block
  fr_consensus_module_commitment :: hash32
  fr_proof :: finality_proof
  fr_transactions :: "bytes list"
  fr_state_snapshot :: bytes
  fr_outbox :: "outbox_message list"
  fr_frame :: execution_frame
  fr_frame_input :: frame_input
  fr_successor :: "successor_declaration option"
  fr_issued_handoffs :: "session_handoff list"
  fr_consumed_handoff_ids :: "hash32 list"
  fr_request_data_commitments :: "hash32 list"
  fr_resource_snapshot_bytes :: u64
  fr_handoff_actions :: "resolved_handoff_action list"

text \<open>What is serialised of a record; the proof is there in its own encoding.\<close>

record record_ref =
  rr_block :: myelin_block
  rr_consensus_module_commitment :: hash32
  rr_proof :: bytes
  rr_transactions :: "bytes list"
  rr_state_snapshot :: bytes
  rr_outbox :: "outbox_message list"
  rr_frame :: execution_frame
  rr_frame_input :: frame_input
  rr_successor :: "successor_declaration option"
  rr_issued_handoffs :: "session_handoff list"
  rr_consumed_handoff_ids :: "hash32 list"
  rr_request_data_commitments :: "hash32 list"
  rr_snapshot_bytes :: u64
  rr_handoff_actions :: "resolved_handoff_action list"

record session_genesis =
  gn_config :: session_config
  gn_state_snapshot :: bytes

record block_request =
  rq_transactions :: "bytes list"
  rq_frame_input :: frame_input
  rq_scheduler_commitment :: hash32
  rq_data_commitments :: "hash32 list"
  rq_timestamp_ms :: u64
  rq_local_now_ms :: u64
  rq_successor :: "session_config option"
  rq_handoffs :: "handoff_intent list"
  rq_consume_handoffs :: "hash32 list"
  rq_handoff_actions :: "handoff_action list"

record 'e prepared_block =
  pb_block :: myelin_block
  pb_base_head :: session_head
  pb_executor :: 'e
  pb_transactions :: "bytes list"
  pb_snapshot :: bytes
  pb_outbox :: "outbox_message list"
  pb_frame :: execution_frame
  pb_frame_input :: frame_input
  pb_successor :: "successor_declaration option"
  pb_issued_handoffs :: "session_handoff list"
  pb_consumed_handoffs :: "session_handoff list"
  pb_handoff_actions :: "resolved_handoff_action list"
  pb_request_data_commitments :: "hash32 list"

record verified_finality =
  vf_block_hash :: hash32
  vf_consensus_module_commitment :: hash32

text \<open>
  The three traits a chain is built over. An executor and a store are records of the trait's
  operations over a state of their own; \<open>ex_execute\<close> is \<open>execute_block_with_lifecycle\<close> on a
  clone, and a store operation that writes returns the store it leaves.
\<close>

record 'e transition_executor =
  ex_state_root :: "'e \<Rightarrow> hash32"
  ex_execute :: "'e \<Rightarrow> protocol_effects_context \<Rightarrow> resolved_handoff_action list \<Rightarrow> frame_input
    \<Rightarrow> session_handoff list \<Rightarrow> bytes list \<Rightarrow> string + execution_outcome \<times> 'e"
  ex_prepare_successor_state :: "'e \<Rightarrow> session_config \<Rightarrow> session_config \<Rightarrow> frame_input \<Rightarrow> string + successor_state"
  ex_snapshot :: "'e \<Rightarrow> string + bytes"

record finality_verifier =
  fv_descriptor :: consensus_module_descriptor
  fv_verify :: "myelin_block \<Rightarrow> finality_proof \<Rightarrow> consensus_error + verified_finality"

record 'st session_store =
  so_create_session :: "'st \<Rightarrow> session_genesis \<Rightarrow> session_head \<Rightarrow> store_error + 'st"
  so_load_genesis :: "'st \<Rightarrow> hash32 \<Rightarrow> store_error + session_genesis"
  so_load_head :: "'st \<Rightarrow> hash32 \<Rightarrow> store_error + session_head"
  so_load_block :: "'st \<Rightarrow> hash32 \<Rightarrow> u64 \<Rightarrow> store_error + finalised_block_record"
  so_load_command_receipt :: "'st \<Rightarrow> hash32 \<Rightarrow> hash32 \<Rightarrow> store_error + command_receipt option"
  so_commit_block :: "'st \<Rightarrow> session_head \<Rightarrow> session_head \<Rightarrow> finalised_block_record \<Rightarrow> store_error + 'st"
  so_load_evidence :: "'st \<Rightarrow> hash32 \<Rightarrow> hash32 \<Rightarrow> store_error + evidence_record option"
  so_load_handoff :: "'st \<Rightarrow> hash32 \<Rightarrow> store_error + stored_handoff option"

record ('e, 'st) session_chain =
  ch_config :: session_config
  ch_head :: session_head
  ch_finality_verifier :: finality_verifier
  ch_executor :: 'e
  ch_store :: 'st

text \<open>
  The postcard serialiser. The wire form of a configuration holds the name of the consensus
  kind, so its serialiser takes that name, and its parser returns the name, the configuration
  that is still to be given its kind, and the bytes left over.
\<close>

record postcard_env =
  pc_frame_input :: "frame_input \<Rightarrow> bytes"
  pc_intent :: "handoff_intent \<Rightarrow> bytes"
  pc_effects_context :: "protocol_effects_context \<Rightarrow> bytes"
  pc_actions :: "hash32 \<times> u64 \<times> resolved_handoff_action list \<Rightarrow> bytes"
  pc_record :: "record_ref \<Rightarrow> bytes"
  pc_config :: "string \<Rightarrow> session_config \<Rightarrow> bytes"
  pc_take_config :: "bytes \<Rightarrow> string + (string \<times> (consensus_kind \<Rightarrow> session_config)) \<times> bytes"

end
