(* ===== verification/Session_Checks.thy ===== *)
theory Session_Checks
  imports Session_Types
begin

text \<open>
  The self-checks and commitments of the session data: \<open>application.rs\<close>, \<open>resources.rs\<close>,
  \<open>effects.rs\<close>, \<open>continuity.rs\<close>, \<open>succession.rs\<close> and the record envelope of \<open>lib.rs\<close>.
\<close>

section \<open>Guards and resource arithmetic\<close>

abbreviation zero32 :: hash32 where "zero32 \<equiv> replicate 32 0"

definition ensure :: "bool \<Rightarrow> 'e \<Rightarrow> 'e + unit" where
  "ensure b e = (if b then Ok () else Err e)"

lemma ensure_eq [simp, res_simps]: "ensure b e = Inr u \<longleftrightarrow> b" "ensure b e = Inl f \<longleftrightarrow> \<not> b \<and> e = f"
  by (auto simp: ensure_def)

lemma ensure_True [simp]: "ensure True e = Ok ()"
  by (simp add: ensure_def)

definition res_check :: "string \<Rightarrow> nat \<Rightarrow> u64 \<Rightarrow> session_error + unit" where
  "res_check resource used limit =
     (if unat limit < used then Err (SeResourceLimit resource (as_u64 used) limit) else Ok ())"

lemma res_check_eq [simp, res_simps]: "res_check r used limit = Inr u \<longleftrightarrow> used \<le> unat limit"
  by (auto simp: res_check_def)

text \<open>\<open>right\<close> is a length: the sum is taken in \<open>u64\<close>.\<close>

definition add_len :: "'e \<Rightarrow> u64 \<Rightarrow> nat \<Rightarrow> 'e + u64" where
  "add_len e left right = (if unat left + right < 2 ^ 64 then Ok (as_u64 (unat left + right)) else Err e)"

lemma add_len_Ok: "add_len e a n = Ok b \<longleftrightarrow> unat b = unat a + n"
proof
  assume "add_len e a n = Ok b"
  then show "unat b = unat a + n" by (auto simp: add_len_def u_arith split: if_splits)
next
  assume "unat b = unat a + n"
  then show "add_len e a n = Ok b" using unsigned_less[of b] by (auto simp: add_len_def as_u64_def simp flip: \<open>unat b = unat a + n\<close>)
qed

definition res_add :: "string \<Rightarrow> u64 \<Rightarrow> nat \<Rightarrow> session_error + u64" where
  "res_add resource = add_len (SeBlockLimit (resource @ '' total overflow''))"

definition size_with_limit :: "bytes \<Rightarrow> string \<Rightarrow> u64 \<Rightarrow> session_error + u64" where
  "size_with_limit bs resource limit =
     (if unat limit < length bs then Err (SeResourceLimit resource (saturating_add limit 1) limit) else Ok (as_u64 (length bs)))"

section \<open>Application profiles and frames\<close>

definition envelope_validate :: "application_resource_envelope \<Rightarrow> session_error + unit" where
  "envelope_validate r =
     ensure (0 \<notin> {re_max_frame_inputs r, re_max_frame_input_bytes r, re_max_frame_cycles r, re_max_logical_time_span r,
                  re_max_inspect_query_bytes r, re_max_inspect_result_bytes r})
       (SeInvalidConfig ''application resource-envelope limits must all be non-zero'')"

definition profile_validate :: "application_profile \<Rightarrow> session_error + unit" where
  "profile_validate p =
     res_bind (ensure (ap_application_id p \<noteq> [] \<and> length (ap_application_id p) \<le> 256)
                (SeInvalidConfig ''application_id length must be 1..=256 bytes'')) (\<lambda>_.
     res_bind (ensure (zero32 \<notin> {ap_program_digest p, ap_input_schema_hash p, ap_state_codec_hash p,
                  ap_logical_time_policy_hash p, ap_entropy_policy_hash p, ap_court_profile_hash p, ap_handoff_policy_hash p})
                (SeInvalidConfig ''application profile artifact and policy hashes must not be zero'')) (\<lambda>_.
     envelope_validate (ap_resources p)))"

definition profile_preimage :: "application_profile \<Rightarrow> bytes" where
  "profile_preimage p =
     str_bytes ''myelin:application-profile'' @ [of_bool (ap_command_identity_required p)]
     @ u32_le (as_u32 (length (ap_application_id p))) @ str_bytes (ap_application_id p)
     @ ap_program_digest p @ ap_input_schema_hash p @ ap_state_codec_hash p @ ap_logical_time_policy_hash p
     @ ap_entropy_policy_hash p @ [of_bool (vm_spawn_ipc_required (ap_vm p))]
     @ u64_le (re_max_frame_inputs (ap_resources p)) @ u64_le (re_max_frame_input_bytes (ap_resources p))
     @ u64_le (re_max_frame_cycles (ap_resources p)) @ u64_le (re_max_logical_time_span (ap_resources p))
     @ u64_le (re_max_inspect_query_bytes (ap_resources p)) @ u64_le (re_max_inspect_result_bytes (ap_resources p))
     @ ap_court_profile_hash p @ ap_handoff_policy_hash p"

abbreviation profile_commitment :: "crypto_env \<Rightarrow> application_profile \<Rightarrow> hash32" where
  "profile_commitment E p \<equiv> cr_blake3 E (profile_preimage p)"

definition frame_input_validate :: "application_profile \<Rightarrow> frame_input \<Rightarrow> session_error + unit" where
  "frame_input_validate p f =
     res_bind (ok_or (SeInvalidFrame ''input range is reversed'') (checked_sub (fi_end_position f) (fi_start_position f))) (\<lambda>input_count.
     res_bind (ensure (input_count \<le> re_max_frame_inputs (ap_resources p))
                (SeInvalidFrame ''frame input count exceeds the profile'')) (\<lambda>_.
     res_bind (ensure (\<not> ((ap_command_identity_required p \<or> fi_commands f \<noteq> []) \<and> length (fi_commands f) \<noteq> unat input_count))
                (SeInvalidFrame ''command count must match input range'')) (\<lambda>_.
     res_bind (ensure (list_all (\<lambda>c. cmd_id c \<noteq> zero32 \<and> cmd_payload_hash c \<noteq> zero32) (fi_commands f)
                       \<and> distinct (map cmd_id (fi_commands f)))
                (SeInvalidFrame ''command identities must be nonzero and unique'')) (\<lambda>_.
     res_bind (ensure (length (fi_payload f) \<le> unat (re_max_frame_input_bytes (ap_resources p)))
                (SeInvalidFrame ''frame input bytes exceed the profile'')) (\<lambda>_.
     res_bind (ok_or (SeInvalidFrame ''logical-time range is reversed'')
                (checked_sub (fi_logical_time_end f) (fi_logical_time_start f))) (\<lambda>logical_span.
     res_bind (ensure (logical_span \<le> re_max_logical_time_span (ap_resources p))
                (SeInvalidFrame ''logical-time span exceeds the profile'')) (\<lambda>_.
     res_bind (ensure (\<not> (input_count = 0 \<and> fi_payload f \<noteq> []))
                (SeInvalidFrame ''an empty input range must have an empty canonical payload'')) (\<lambda>_.
     ensure (\<not> (input_count \<noteq> 0 \<and> fi_payload f = []))
       (SeInvalidFrame ''a non-empty input range must have a canonical payload'')))))))))"

definition frame_input_preimage :: "frame_input \<Rightarrow> bytes" where
  "frame_input_preimage f =
     str_bytes ''myelin:execution-frame-input'' @ u64_le (as_u64 (length (fi_commands f)))
     @ concat (map (\<lambda>c. cmd_id c @ cmd_payload_hash c) (fi_commands f))
     @ u64_le (fi_start_position f) @ u64_le (fi_end_position f)
     @ u64_le (fi_logical_time_start f) @ u64_le (fi_logical_time_end f) @ len64_bytes (fi_payload f)"

abbreviation frame_root :: "crypto_env \<Rightarrow> frame_input \<Rightarrow> hash32" where
  "frame_root E f \<equiv> cr_blake3 E (frame_input_preimage f)"

definition frame_validate ::
  "crypto_env \<Rightarrow> application_profile \<Rightarrow> frame_input \<Rightarrow> execution_frame \<Rightarrow> session_error + unit" where
  "frame_validate E p input f =
     res_bind (frame_input_validate p input) (\<lambda>_.
     res_bind (ensure (ef_session_id f \<noteq> zero32 \<and> ef_application_profile_commitment f = profile_commitment E p
                \<and> ef_input_root f = frame_root E input \<and> ef_input_start f = fi_start_position input
                \<and> ef_input_end f = fi_end_position input \<and> ef_logical_time_start f = fi_logical_time_start input
                \<and> ef_logical_time_end f = fi_logical_time_end input
                \<and> ef_state_root_before f \<noteq> zero32 \<and> ef_state_root_after f \<noteq> zero32)
                (SeInvalidFrame ''execution frame does not match its session profile, input, or state roots'')) (\<lambda>_.
     res_bind (ensure (xs_input_bytes (ef_resources f) = as_u64 (length (fi_payload input)))
                (SeInvalidFrame ''execution frame input byte count does not match retained input'')) (\<lambda>_.
     ensure (xs_cycles (ef_resources f) \<le> re_max_frame_cycles (ap_resources p))
       (SeInvalidFrame ''execution cycles exceed the profile''))))"

definition frame_preimage :: "execution_frame \<Rightarrow> bytes" where
  "frame_preimage f =
     str_bytes ''myelin:execution-frame'' @ ef_session_id f @ u64_le (ef_height f) @ ef_application_profile_commitment f
     @ u64_le (ef_input_start f) @ u64_le (ef_input_end f) @ ef_input_root f
     @ u64_le (ef_logical_time_start f) @ u64_le (ef_logical_time_end f)
     @ ef_state_root_before f @ ef_state_root_after f
     @ count32_list (\<lambda>h. h) (ef_ordered_cell_tx_commitments f)
     @ u64_le (xs_cycles (ef_resources f)) @ u64_le (xs_transaction_bytes (ef_resources f))
     @ u64_le (xs_input_bytes (ef_resources f))"

abbreviation frame_commitment :: "crypto_env \<Rightarrow> execution_frame \<Rightarrow> hash32" where
  "frame_commitment E f \<equiv> cr_blake3 E (frame_preimage f)"

section \<open>Limits, policies and configurations\<close>

definition limits_validate :: "commit_resource_limits \<Rightarrow> session_error + unit" where
  "limits_validate l =
     res_bind (ensure (cl_version l = 1 \<and> cl_max_frame_bytes l \<noteq> 0 \<and> cl_max_snapshot_bytes l \<noteq> 0 \<and> cl_max_record_bytes l \<noteq> 0)
                (SeInvalidConfig ''resource limits require version 1 and nonzero frame/snapshot/record bounds'')) (\<lambda>_.
     res_bind (ensure (list_all (\<lambda>v. v \<le> 65536) [cl_max_issued_handoffs l, cl_max_consumed_handoffs l,
                  cl_max_data_commitments l, cl_max_outbox_messages l])
                (SeInvalidConfig ''resource count limit exceeds the supported decoder ceiling'')) (\<lambda>_.
     ensure (list_all (\<lambda>v. v \<le> 128 * 1024 * 1024) [cl_max_frame_bytes l, cl_max_handoff_payload_bytes l,
         cl_max_authorization_bytes l, cl_max_outbox_bytes l, cl_max_snapshot_bytes l, cl_max_record_bytes l])
       (SeInvalidConfig ''resource byte limit exceeds the supported decoder ceiling'')))"

definition limits_preimage :: "commit_resource_limits \<Rightarrow> bytes" where
  "limits_preimage l =
     str_bytes ''myelin:commit-resource-limits:v1'' @ le_nat 2 (unat (cl_version l))
     @ concat (map u64_le [cl_max_frame_bytes l, cl_max_issued_handoffs l, cl_max_consumed_handoffs l,
         cl_max_handoff_payload_bytes l, cl_max_authorization_bytes l, cl_max_data_commitments l, cl_max_outbox_messages l,
         cl_max_outbox_bytes l, cl_max_snapshot_bytes l, cl_max_record_bytes l])"

abbreviation limits_commitment :: "crypto_env \<Rightarrow> commit_resource_limits \<Rightarrow> hash32" where
  "limits_commitment E l \<equiv> cr_blake3 E (limits_preimage l)"

definition snapshot_commitment :: "crypto_env \<Rightarrow> commit_resource_limits \<Rightarrow> u64 \<Rightarrow> hash32" where
  "snapshot_commitment E l n = cr_blake3 E (str_bytes ''myelin:commit-resource-usage:v1'' @ limits_commitment E l @ u64_le n)"

abbreviation limits_snapshot :: "commit_resource_limits \<Rightarrow> bytes \<Rightarrow> session_error + unit" where
  "limits_snapshot l bs \<equiv> res_check ''snapshot_bytes'' (length bs) (cl_max_snapshot_bytes l)"

text \<open>The bytes used by handoff payloads and by their authorisations.\<close>

definition usage_add :: "commit_resource_limits \<Rightarrow> u64 \<times> u64 \<Rightarrow> nat \<times> nat \<Rightarrow> session_error + u64 \<times> u64" where
  "usage_add l usage lens =
     res_bind (res_add ''handoff_payload_bytes'' (fst usage) (fst lens)) (\<lambda>payload.
     res_bind (res_check ''handoff_payload_bytes'' (unat payload) (cl_max_handoff_payload_bytes l)) (\<lambda>_.
     res_bind (res_add ''authorization_bytes'' (snd usage) (snd lens)) (\<lambda>authorization.
     res_bind (res_check ''authorization_bytes'' (unat authorization) (cl_max_authorization_bytes l)) (\<lambda>_.
     Ok (payload, authorization)))))"

definition limits_frame :: "postcard_env \<Rightarrow> commit_resource_limits \<Rightarrow> frame_input \<Rightarrow> session_error + unit" where
  "limits_frame P l f =
     res_bind (res_check ''frame_commands'' (length (fi_commands f)) 65536) (\<lambda>_.
     res_bind (size_with_limit (pc_frame_input P f) ''frame_bytes'' (cl_max_frame_bytes l)) (\<lambda>_. Ok ()))"

fun policy_validate :: "protocol_effects_policy \<Rightarrow> session_error + unit" where
  "policy_validate EffectsDisabled = Ok ()"
| "policy_validate (AuthorityMetadata h) = ensure (h \<noteq> zero32) (SeProtocolEffects ''effect policy hash must not be zero'')"
| "policy_validate (ApplicationPolicy h) = ensure (h \<noteq> zero32) (SeProtocolEffects ''effect policy hash must not be zero'')"

definition policy_preimage :: "protocol_effects_policy \<Rightarrow> bytes" where
  "policy_preimage p =
     str_bytes ''myelin:protocol-effects-policy:v1''
     @ (case p of EffectsDisabled \<Rightarrow> [0] | AuthorityMetadata h \<Rightarrow> 1 # h | ApplicationPolicy h \<Rightarrow> 2 # h)"

definition config_validate :: "session_config \<Rightarrow> session_error + unit" where
  "config_validate c =
     res_bind (ensure (se_session_id c \<noteq> zero32) (SeInvalidConfig ''session_id must not be zero'')) (\<lambda>_.
     res_bind (ensure (se_consensus_config_commitment c \<noteq> zero32)
                (SeInvalidConfig ''consensus_config_commitment must not be zero'')) (\<lambda>_.
     res_bind (ensure (se_consensus_module_commitment c \<noteq> zero32)
                (SeInvalidConfig ''consensus_module_commitment must not be zero'')) (\<lambda>_.
     res_bind (ensure (se_consensus_wal_schema_hash c \<noteq> zero32)
                (SeInvalidConfig ''consensus_wal_schema_hash must not be zero'')) (\<lambda>_.
     res_bind (profile_validate (se_application_profile c)) (\<lambda>_.
     res_bind (policy_validate (se_protocol_effects c)) (\<lambda>_.
     res_bind (limits_validate (se_commit_limits c)) (\<lambda>_.
     res_bind (res_check ''transactions'' (unat (se_max_block_transactions c)) 65536) (\<lambda>_.
     res_bind (res_check ''transaction_bytes'' (unat (se_max_block_bytes c)) (128 * 1024 * 1024)) (\<lambda>_.
     res_bind (case se_predecessor c of None \<Rightarrow> Ok ()
               | Some pr \<Rightarrow> ensure (pr_session_id pr \<noteq> zero32 \<and> pr_session_id pr \<noteq> se_session_id c
                   \<and> pr_final_state_root pr \<noteq> zero32 \<and> pr_application_profile_commitment pr \<noteq> zero32)
                   (SeInvalidConfig ''invalid predecessor lineage reference'')) (\<lambda>_.
     res_bind (ensure (se_max_block_transactions c \<noteq> 0) (SeInvalidConfig ''max_block_transactions must be non-zero'')) (\<lambda>_.
     ensure (se_max_block_bytes c \<noteq> 0) (SeInvalidConfig ''max_block_bytes must be non-zero''))))))))))))"

definition config_preimage :: "crypto_env \<Rightarrow> session_config \<Rightarrow> bytes" where
  "config_preimage E c =
     str_bytes ''myelin:session-config:v3'' @ se_session_id c @ str_bytes (kind_as_str (se_consensus_kind c))
     @ se_consensus_config_commitment c @ se_consensus_module_commitment c @ se_consensus_wal_schema_hash c
     @ profile_commitment E (se_application_profile c) @ se_initial_state_root c
     @ u64_le (se_initial_input_position c) @ u64_le (se_initial_logical_time c) @ u64_le (se_initial_timestamp_ms c)
     @ (case se_predecessor c of
          Some pr \<Rightarrow> 1 # pr_session_id pr @ u64_le (pr_final_height pr) @ pr_final_state_root pr
                     @ pr_application_profile_commitment pr
        | None \<Rightarrow> [0])
     @ u32_le (se_max_block_transactions c) @ u64_le (se_max_block_bytes c) @ u64_le (se_max_future_drift_ms c)
     @ limits_commitment E (se_commit_limits c) @ cr_blake3 E (policy_preimage (se_protocol_effects c))"

abbreviation session_commitment :: "crypto_env \<Rightarrow> session_config \<Rightarrow> hash32" where
  "session_commitment E c \<equiv> cr_blake3 E (config_preimage E c)"

section \<open>The record envelope\<close>

definition encode_record :: "crypto_env \<Rightarrow> bytes \<Rightarrow> session_error + bytes" where
  "encode_record E body =
     res_bind (size_with_limit body ''encoded_record_bytes'' (128 * 1024 * 1024 - 46)) (\<lambda>_.
     Ok (str_bytes ''MREC'' @ le_nat 2 13 @ u64_le (as_u64 (length body)) @ cr_blake3 E body @ body))"

definition record_version :: "crypto_env \<Rightarrow> bytes \<Rightarrow> session_error + u16" where
  "record_version E bs =
     res_bind (res_check ''encoded_record_bytes'' (length bs) (128 * 1024 * 1024)) (\<lambda>_.
     res_bind (ensure (take 4 bs = str_bytes ''MREC'') (SeCodec ''record does not use the canonical binary envelope'')) (\<lambda>_.
     res_bind (ensure (46 \<le> length bs) (SeCodec ''truncated binary record header'')) (\<lambda>_.
     res_bind (ensure (nat_of_le (take 2 (drop 4 bs)) = 13) (SeCodec ''unsupported record version'')) (\<lambda>_.
     res_bind (ensure (length bs = 46 + nat_of_le (take 8 (drop 6 bs))) (SeCodec ''binary record length mismatch'')) (\<lambda>_.
     res_bind (ensure (cr_blake3 E (drop 46 bs) = take 32 (drop 14 bs)) (SeCodec ''record checksum mismatch'')) (\<lambda>_.
     Ok (word_of_nat (nat_of_le (take 2 (drop 4 bs))))))))))"

definition config_encode :: "crypto_env \<Rightarrow> postcard_env \<Rightarrow> session_config \<Rightarrow> session_error + bytes" where
  "config_encode E P c =
     res_bind (config_validate c) (\<lambda>_. encode_record E (pc_config P (kind_as_str (se_consensus_kind c)) c))"

definition config_decode :: "crypto_env \<Rightarrow> postcard_env \<Rightarrow> bytes \<Rightarrow> session_error + session_config" where
  "config_decode E P bs =
     res_bind (record_version E bs) (\<lambda>_.
     res_bind (map_err SeCodec (pc_take_config P (drop 46 bs))) (\<lambda>((kind, c), rest).
     res_bind (ensure (rest = []) (SeCodec ''trailing record bytes'')) (\<lambda>_.
     res_bind (map_err (\<lambda>_. SeCodec ''unknown consensus kind'') (kind_from_canonical_str kind)) (\<lambda>k.
     res_bind (config_validate (c k)) (\<lambda>_. Ok (c k))))))"

definition next_height :: "session_head \<Rightarrow> session_error + u64" where
  "next_height h =
     (case hd_finalised_height h of
        Some height \<Rightarrow> ok_or SeHeightOverflow (checked_add height 1)
      | None \<Rightarrow> Ok 0)"

section \<open>Outbox messages and handoffs\<close>

definition outbox_preimage :: "outbox_message \<Rightarrow> bytes" where
  "outbox_preimage m =
     str_bytes ''myelin:session-outbox'' @ ob_id m @ ob_consensus_module_commitment m
     @ u32_le (as_u32 (length (ob_topic m))) @ str_bytes (ob_topic m) @ len64_bytes (ob_payload m)"

definition make_outbox_message ::
  "crypto_env \<Rightarrow> hash32 \<Rightarrow> hash32 \<Rightarrow> u64 \<Rightarrow> nat \<Rightarrow> pending_outbox_message \<Rightarrow> session_error + outbox_message" where
  "make_outbox_message E session_id module height index pending =
     res_bind (ensure (po_topic pending \<noteq> [] \<and> length (po_topic pending) \<le> 256)
                (SeExecution ''outbox topic length must be 1..=256 bytes'')) (\<lambda>_.
     res_bind (ensure (length (po_payload pending) \<le> 64 * 1024 * 1024)
                (SeExecution ''outbox payload exceeds 67108864 bytes'')) (\<lambda>_.
     res_bind (ensure (index < 2 ^ 32) (SeExecution ''too many outbox messages'')) (\<lambda>_.
     Ok \<lparr>ob_id = cr_blake3 E (str_bytes ''myelin:session-outbox'' @ session_id @ module @ u64_le height @ u32_le (as_u32 index)
           @ u32_le (as_u32 (length (po_topic pending))) @ str_bytes (po_topic pending) @ len64_bytes (po_payload pending)),
         ob_consensus_module_commitment = module, ob_topic = po_topic pending, ob_payload = po_payload pending\<rparr>)))"

definition validate_handoff_fields ::
  "handoff_target \<Rightarrow> u64 \<Rightarrow> nat \<Rightarrow> nat \<Rightarrow> evidence_requirement option \<Rightarrow> session_error + unit" where
  "validate_handoff_fields target expires_at_ms payload_len authorization_len requirement =
     res_bind (ensure (target \<noteq> TargetSession zero32 \<and> target \<noteq> TargetPolicy zero32)
                (SeContinuity ''handoff target must not be zero'')) (\<lambda>_.
     res_bind (ensure (expires_at_ms \<noteq> 0 \<and> payload_len \<noteq> 0 \<and> payload_len \<le> 16 * 1024 * 1024)
                (SeContinuity ''handoff expiry or payload bounds are invalid'')) (\<lambda>_.
     res_bind (ensure (authorization_len \<noteq> 0 \<and> authorization_len \<le> 64 * 1024)
                (SeContinuity ''handoff authorization bounds are invalid'')) (\<lambda>_.
     case requirement of
       None \<Rightarrow> Ok ()
     | Some r \<Rightarrow> ensure (er_message_id r \<noteq> zero32 \<and> er_pipeline_commitment r \<noteq> zero32)
                   (SeContinuity ''handoff evidence requirement has a zero commitment''))))"

abbreviation intent_validate :: "handoff_intent \<Rightarrow> session_error + unit" where
  "intent_validate i \<equiv>
     validate_handoff_fields (hi_target i) (hi_expires_at_ms i) (length (hi_payload i)) (length (hi_authorization i))
       (hi_evidence_requirement i)"

definition handoff_from_intent ::
  "hash32 \<Rightarrow> u64 \<Rightarrow> hash32 \<Rightarrow> hash32 \<Rightarrow> hash32 \<Rightarrow> u64 \<Rightarrow> handoff_intent \<Rightarrow> session_error + session_handoff" where
  "handoff_from_intent session height root profile module timestamp_ms i =
     res_bind (intent_validate i) (\<lambda>_.
     res_bind (ensure (timestamp_ms < hi_expires_at_ms i)
                (SeContinuity ''handoff must expire after its source block timestamp'')) (\<lambda>_.
     Ok \<lparr>ho_source_session_id = session, ho_source_height = height, ho_source_state_root = root,
         ho_source_application_profile_commitment = profile, ho_source_consensus_module_commitment = module,
         ho_target = hi_target i, ho_expires_at_ms = hi_expires_at_ms i, ho_payload = hi_payload i,
         ho_authorization = hi_authorization i, ho_evidence_requirement = hi_evidence_requirement i\<rparr>))"

definition handoff_preimage :: "session_handoff \<Rightarrow> bytes" where
  "handoff_preimage h =
     str_bytes ''myelin:session-handoff'' @ ho_source_session_id h @ u64_le (ho_source_height h) @ ho_source_state_root h
     @ ho_source_application_profile_commitment h @ ho_source_consensus_module_commitment h
     @ (case ho_target h of TargetSession t \<Rightarrow> 0 # t | TargetPolicy t \<Rightarrow> 1 # t)
     @ u64_le (ho_expires_at_ms h) @ len64_bytes (ho_payload h) @ len64_bytes (ho_authorization h)
     @ (case ho_evidence_requirement h of
          Some r \<Rightarrow> 1 # er_message_id r @ er_pipeline_commitment r @ le_nat 2 (unat (er_minimum_stage_index r))
        | None \<Rightarrow> [0])"

abbreviation handoff_id :: "crypto_env \<Rightarrow> session_handoff \<Rightarrow> hash32" where
  "handoff_id E h \<equiv> cr_blake3 E (handoff_preimage h)"

definition handoff_validate :: "u64 \<Rightarrow> session_handoff \<Rightarrow> session_error + unit" where
  "handoff_validate timestamp_ms h =
     res_bind (validate_handoff_fields (ho_target h) (ho_expires_at_ms h) (length (ho_payload h)) (length (ho_authorization h))
                (ho_evidence_requirement h)) (\<lambda>_.
     ensure (ho_source_session_id h \<noteq> zero32 \<and> ho_source_state_root h \<noteq> zero32
         \<and> ho_source_application_profile_commitment h \<noteq> zero32 \<and> ho_source_consensus_module_commitment h \<noteq> zero32
         \<and> timestamp_ms < ho_expires_at_ms h)
       (SeContinuity ''handoff source identity or expiry is invalid''))"

definition accepts_target :: "session_handoff \<Rightarrow> session_config \<Rightarrow> bool" where
  "accepts_target h c =
     (case ho_target h of
        TargetSession s \<Rightarrow> s = se_session_id c
      | TargetPolicy p \<Rightarrow> p = ap_handoff_policy_hash (se_application_profile c))"

definition handoff_consumption_commitment :: "crypto_env \<Rightarrow> hash32 \<Rightarrow> u64 \<Rightarrow> hash32 \<Rightarrow> hash32" where
  "handoff_consumption_commitment E session_id height hid =
     cr_blake3 E (str_bytes ''myelin:session-handoff-consumption'' @ session_id @ u64_le height @ hid)"

section \<open>Successors\<close>

definition transition_validate_shape :: "successor_transition \<Rightarrow> hash32 \<Rightarrow> hash32 \<Rightarrow> session_error + unit" where
  "transition_validate_shape t source_root target_root =
     res_bind (ensure (zero32 \<notin> {tr_source_genesis_commitment t, tr_input_root t, tr_source_snapshot_hash t})
                (SeContinuity ''successor receipt has a zero binding'')) (\<lambda>_.
     case tr_state t of
       Continue \<Rightarrow> ensure (source_root = target_root) (SeContinuity ''state-preserving successor changes the state root'')
     | Compatible policy_hash declaration_hash vectors_hash \<Rightarrow>
         res_bind (ensure (source_root = target_root) (SeContinuity ''state-preserving successor changes the state root'')) (\<lambda>_.
         ensure (zero32 \<notin> {policy_hash, declaration_hash, vectors_hash})
           (SeContinuity ''compatibility requires policy, declaration and vectors''))
     | Migrate artifact _ state_root snapshot \<Rightarrow>
         ensure (ma_format_version artifact = 1 \<and> ma_program_digest artifact \<noteq> zero32 \<and> ma_input_schema_hash artifact \<noteq> zero32
             \<and> snapshot \<noteq> [] \<and> state_root = target_root)
           (SeContinuity ''invalid migration artifact, inputs or target state''))"

definition transition_validate ::
  "crypto_env \<Rightarrow> successor_transition \<Rightarrow> session_config \<Rightarrow> session_config \<Rightarrow> hash32 \<Rightarrow> hash32 \<Rightarrow> session_error + unit" where
  "transition_validate E t source target source_root input_root =
     res_bind (transition_validate_shape t source_root (se_initial_state_root target)) (\<lambda>_.
     res_bind (ensure (tr_source_genesis_commitment t = session_commitment E source \<and> tr_input_root t = input_root)
                (SeContinuity ''successor receipt source genesis or input mismatch'')) (\<lambda>_.
     case tr_state t of
       Continue \<Rightarrow>
         ensure (se_application_profile source = se_application_profile target
             \<and> se_protocol_effects source = se_protocol_effects target)
           (SeContinuity ''changed application rules require explicit compatibility or migration'')
     | Compatible policy_hash _ _ \<Rightarrow>
         ensure (se_protocol_effects source = ApplicationPolicy policy_hash
             \<and> ap_state_codec_hash (se_application_profile source) = ap_state_codec_hash (se_application_profile target))
           (SeContinuity ''compatibility requires the source application policy and unchanged codec'')
     | Migrate _ inputs _ snapshot \<Rightarrow>
         res_bind (ensure (is_application (se_protocol_effects source))
                    (SeContinuity ''migration requires a source application policy'')) (\<lambda>_.
         res_bind (res_check ''migration_inputs'' (length inputs)
                    (re_max_frame_input_bytes (ap_resources (se_application_profile source)))) (\<lambda>_.
         limits_snapshot (se_commit_limits target) snapshot))))"

definition check_source_snapshot :: "crypto_env \<Rightarrow> successor_transition \<Rightarrow> bytes \<Rightarrow> session_error + unit" where
  "check_source_snapshot E t snapshot =
     ensure (snapshot \<noteq> [] \<and> cr_blake3 E snapshot = tr_source_snapshot_hash t)
       (SeContinuity ''successor source snapshot mismatch'')"

definition target_snapshot :: "successor_transition \<Rightarrow> bytes \<Rightarrow> bytes" where
  "target_snapshot t source_snapshot = (case tr_state t of Migrate _ _ _ snapshot \<Rightarrow> snapshot | _ \<Rightarrow> source_snapshot)"

definition transition_execute ::
  "crypto_env \<Rightarrow> 'e transition_executor \<Rightarrow> 'e \<Rightarrow> session_config \<Rightarrow> session_config \<Rightarrow> frame_input \<Rightarrow> bytes
     \<Rightarrow> session_error + successor_transition" where
  "transition_execute E X ex source target input snapshot =
     res_bind (map_err SeExecution (ex_prepare_successor_state X ex source target input)) (\<lambda>state.
     let t = \<lparr>tr_source_genesis_commitment = session_commitment E source, tr_input_root = frame_root E input,
              tr_source_snapshot_hash = cr_blake3 E snapshot, tr_state = state\<rparr>
     in res_bind (transition_validate E t source target (ex_state_root X ex) (frame_root E input)) (\<lambda>_.
        res_bind (check_source_snapshot E t snapshot) (\<lambda>_.
        res_bind (limits_snapshot (se_commit_limits target) (target_snapshot t snapshot)) (\<lambda>_.
        Ok t))))"

definition transition_bytes :: "successor_transition \<Rightarrow> bytes" where
  "transition_bytes t =
     tr_source_genesis_commitment t @ tr_input_root t @ tr_source_snapshot_hash t
     @ (case tr_state t of
          Continue \<Rightarrow> [0]
        | Compatible policy_hash declaration_hash vectors_hash \<Rightarrow> 1 # policy_hash @ declaration_hash @ vectors_hash
        | Migrate artifact inputs state_root snapshot \<Rightarrow>
            2 # u32_le (ma_format_version artifact) @ ma_program_digest artifact @ ma_input_schema_hash artifact
            @ len64_bytes inputs @ state_root @ len64_bytes snapshot)"

definition declaration_validate :: "successor_declaration \<Rightarrow> session_error + unit" where
  "declaration_validate d =
     res_bind (config_validate (sd_target_config d)) (\<lambda>_.
     res_bind (ensure (sd_source_session_id d \<noteq> zero32 \<and> sd_source_session_id d \<noteq> se_session_id (sd_target_config d)
                \<and> sd_source_state_root d \<noteq> zero32 \<and> sd_source_application_profile_commitment d \<noteq> zero32
                \<and> se_predecessor (sd_target_config d) =
                    Some \<lparr>pr_session_id = sd_source_session_id d, pr_final_height = sd_source_height d,
                          pr_final_state_root = sd_source_state_root d,
                          pr_application_profile_commitment = sd_source_application_profile_commitment d\<rparr>)
                (SeContinuity ''invalid successor source/target identity or state root'')) (\<lambda>_.
     transition_validate_shape (sd_transition d) (sd_source_state_root d) (se_initial_state_root (sd_target_config d))))"

definition declaration_validate_source ::
  "crypto_env \<Rightarrow> successor_declaration \<Rightarrow> session_config \<Rightarrow> hash32 \<Rightarrow> session_error + unit" where
  "declaration_validate_source E d source input_root =
     res_bind (declaration_validate d) (\<lambda>_.
     res_bind (ensure (sd_source_session_id d = se_session_id source
                \<and> sd_source_application_profile_commitment d = profile_commitment E (se_application_profile source))
                (SeContinuity ''successor source profile mismatch'')) (\<lambda>_.
     transition_validate E (sd_transition d) source (sd_target_config d) (sd_source_state_root d) input_root))"

definition declaration_preimage :: "crypto_env \<Rightarrow> successor_declaration \<Rightarrow> bytes" where
  "declaration_preimage E d =
     str_bytes ''myelin:successor-declaration-v2'' @ sd_source_session_id d @ u64_le (sd_source_height d)
     @ sd_source_state_root d @ sd_source_application_profile_commitment d
     @ session_commitment E (sd_target_config d) @ transition_bytes (sd_transition d)"

abbreviation declaration_commitment :: "crypto_env \<Rightarrow> successor_declaration \<Rightarrow> hash32" where
  "declaration_commitment E d \<equiv> cr_blake3 E (declaration_preimage E d)"

section \<open>The context of source effects\<close>

definition hash_serialized :: "crypto_env \<Rightarrow> string \<Rightarrow> bytes \<Rightarrow> session_error + hash32" where
  "hash_serialized E domain bs =
     res_bind (size_with_limit bs ''effect_context_bytes'' (128 * 1024 * 1024)) (\<lambda>_. Ok (cr_blake3 E (str_bytes domain @ bs)))"

definition has_source_effects :: "protocol_effects_context \<Rightarrow> bool" where
  "has_source_effects x \<longleftrightarrow> px_issued_handoffs x \<noteq> [] \<or> px_successor_config x \<noteq> []"

definition check_intent ::
  "crypto_env \<Rightarrow> postcard_env \<Rightarrow> u64 \<Rightarrow> hash32 list \<Rightarrow> handoff_intent \<Rightarrow> session_error + hash32 list" where
  "check_intent E P timestamp_ms seen i =
     res_bind (intent_validate i) (\<lambda>_.
     res_bind (ensure (timestamp_ms < hi_expires_at_ms i) (SeProtocolEffects ''expired or duplicate source intent'')) (\<lambda>_.
     res_bind (hash_serialized E ''myelin:source-intent:v1'' (pc_intent P i)) (\<lambda>h.
     res_bind (ensure (h \<notin> set seen) (SeProtocolEffects ''expired or duplicate source intent'')) (\<lambda>_. Ok (h # seen)))))"

definition context_validate :: "crypto_env \<Rightarrow> postcard_env \<Rightarrow> protocol_effects_context \<Rightarrow> session_error + unit" where
  "context_validate E P x =
     res_bind (policy_validate (px_policy x)) (\<lambda>_.
     res_bind (ensure (px_source_genesis_commitment x \<noteq> zero32 \<and> px_source_session_id x \<noteq> zero32)
                (SeProtocolEffects ''missing source genesis identity'')) (\<lambda>_.
     res_bind (ensure (\<not> (has_source_effects x \<and> px_policy x = EffectsDisabled))
                (SeProtocolEffects ''source effects are disabled by genesis'')) (\<lambda>_.
     res_bind (fold_res (check_intent E P (px_timestamp_ms x)) [] (px_issued_handoffs x)) (\<lambda>_.
     if px_successor_config x = [] then Ok ()
     else res_bind (config_decode E P (px_successor_config x)) (\<lambda>_. Ok ())))))"

definition context_new ::
  "crypto_env \<Rightarrow> postcard_env \<Rightarrow> session_config \<Rightarrow> u64 \<Rightarrow> u64 \<Rightarrow> hash32 \<Rightarrow> frame_input \<Rightarrow> handoff_intent list
     \<Rightarrow> session_config option \<Rightarrow> session_error + protocol_effects_context" where
  "context_new E P c height timestamp_ms pre_state_root input issued successor =
     res_bind (case successor of None \<Rightarrow> Ok [] | Some s \<Rightarrow> config_encode E P s) (\<lambda>successor_config.
     let x = \<lparr>px_source_genesis_commitment = session_commitment E c, px_source_session_id = se_session_id c,
              px_policy = se_protocol_effects c, px_height = height, px_timestamp_ms = timestamp_ms,
              px_pre_state_root = pre_state_root, px_input_root = frame_root E input, px_issued_handoffs = issued,
              px_successor_config = successor_config\<rparr>
     in res_bind (context_validate E P x) (\<lambda>_. Ok x))"

abbreviation context_commitment :: "crypto_env \<Rightarrow> postcard_env \<Rightarrow> protocol_effects_context \<Rightarrow> session_error + hash32" where
  "context_commitment E P x \<equiv> hash_serialized E ''myelin:protocol-effects-context:v1'' (pc_effects_context P x)"

fun validate_handoff_trust :: "session_config \<Rightarrow> session_config \<Rightarrow> session_error + unit" where
  "validate_handoff_trust target source =
     (case se_protocol_effects target of
        EffectsDisabled \<Rightarrow> Err (SeProtocolEffects ''handoff intake is disabled by genesis'')
      | ApplicationPolicy _ \<Rightarrow>
          (case se_protocol_effects source of
             ApplicationPolicy _ \<Rightarrow> Ok ()
           | _ \<Rightarrow> Err (SeProtocolEffects ''authority metadata cannot become an application-verified handoff''))
      | AuthorityMetadata _ \<Rightarrow> Ok ())"

definition intent_from_handoff :: "session_handoff \<Rightarrow> handoff_intent" where
  "intent_from_handoff h =
     \<lparr>hi_target = ho_target h, hi_expires_at_ms = ho_expires_at_ms h, hi_payload = ho_payload h,
      hi_authorization = ho_authorization h, hi_evidence_requirement = ho_evidence_requirement h\<rparr>"

end
