(* ===== verification/Session_Records.thy ===== *)
theory Session_Records
  imports Session_Checks
begin

text \<open>
  Finalised records: their size (\<open>record_size.rs\<close>), the limits on them (\<open>resources.rs\<close>), the
  lifecycle of handoffs (\<open>lifecycle.rs\<close>), command receipts (\<open>commands.rs\<close>) and the check of a
  record against its configuration (\<open>FinalisedBlockRecord::validate_resources\<close>). A failing
  \<open>block.hash()\<close> is the panic of the block encoder, carried by \<open>SeConsensus\<close>.
\<close>

section \<open>Record sizes\<close>

definition wire_ref :: "finalised_block_record \<Rightarrow> bytes \<Rightarrow> record_ref" where
  "wire_ref r proof =
     \<lparr>rr_block = fr_block r, rr_consensus_module_commitment = fr_consensus_module_commitment r, rr_proof = proof,
      rr_transactions = fr_transactions r, rr_state_snapshot = fr_state_snapshot r, rr_outbox = fr_outbox r,
      rr_frame = fr_frame r, rr_frame_input = fr_frame_input r, rr_successor = fr_successor r,
      rr_issued_handoffs = fr_issued_handoffs r, rr_consumed_handoff_ids = fr_consumed_handoff_ids r,
      rr_request_data_commitments = fr_request_data_commitments r, rr_snapshot_bytes = fr_resource_snapshot_bytes r,
      rr_handoff_actions = fr_handoff_actions r\<rparr>"

definition check_successor_format :: "finalised_block_record \<Rightarrow> session_error + unit" where
  "check_successor_format r =
     res_bind (ensure (mb_version (fr_block r) = 6) (SeCodec ''unsupported block format or missing snapshot size'')) (\<lambda>_.
     case fr_successor r of None \<Rightarrow> Ok () | Some s \<Rightarrow> declaration_validate s)"

definition record_size :: "bytes \<Rightarrow> u64 \<Rightarrow> session_error + u64" where
  "record_size body limit =
     res_bind (res_check ''record_bytes'' 46 limit) (\<lambda>_.
     case size_with_limit body ''record_bytes'' (limit - 46) of
       Inr n \<Rightarrow> Ok (46 + n)
     | Inl (SeResourceLimit _ used _) \<Rightarrow> Err (SeResourceLimit ''record_bytes'' (used + 46) limit)
     | Inl e \<Rightarrow> Err e)"

text \<open>The number of bits of the length, in groups of seven: the bytes of its varint.\<close>

fun varint_len :: "nat \<Rightarrow> nat" where
  "varint_len n = (if n < 128 then 1 else Suc (varint_len (n div 128)))"

definition encoded_size_with_limit ::
  "crypto_env \<Rightarrow> json_env \<Rightarrow> postcard_env \<Rightarrow> finalised_block_record \<Rightarrow> u64 \<Rightarrow> session_error + u64" where
  "encoded_size_with_limit E J P r limit =
     res_bind (check_successor_format r) (\<lambda>_.
     res_bind (map_err SeConsensus (encode_proof E J (fr_proof r))) (\<lambda>proof.
     res_bind (record_size (pc_record P (wire_ref r proof)) limit) (\<lambda>size.
     res_bind
       (if fr_state_snapshot r = [] \<and> fr_resource_snapshot_bytes r \<noteq> 0
        then res_bind (ok_or (SeBlockLimit ''original record size overflow'') (checked_add size (fr_resource_snapshot_bytes r)))
               (\<lambda>n. ok_or (SeBlockLimit ''original record size overflow'')
                       (checked_add n (as_u64 (varint_len (unat (fr_resource_snapshot_bytes r)) - 1))))
        else if fr_resource_snapshot_bytes r \<noteq> as_u64 (length (fr_state_snapshot r))
        then Err (SeCodec ''snapshot length does not match committed resource usage'')
        else Ok size) (\<lambda>size.
     res_bind (res_check ''record_bytes'' (unat size) limit) (\<lambda>_. Ok size)))))"

definition check_record_size ::
  "crypto_env \<Rightarrow> postcard_env \<Rightarrow> 'e prepared_block \<Rightarrow> hash32 \<Rightarrow> bytes \<Rightarrow> u64 \<Rightarrow> session_error + unit" where
  "check_record_size E P p module proof limit =
     res_bind (record_size (pc_record P
       \<lparr>rr_block = pb_block p, rr_consensus_module_commitment = module, rr_proof = proof,
        rr_transactions = pb_transactions p, rr_state_snapshot = pb_snapshot p, rr_outbox = pb_outbox p,
        rr_frame = pb_frame p, rr_frame_input = pb_frame_input p, rr_successor = pb_successor p,
        rr_issued_handoffs = pb_issued_handoffs p, rr_consumed_handoff_ids = map (handoff_id E) (pb_consumed_handoffs p),
        rr_request_data_commitments = pb_request_data_commitments p, rr_snapshot_bytes = as_u64 (length (pb_snapshot p)),
        rr_handoff_actions = pb_handoff_actions p\<rparr>) limit) (\<lambda>_. Ok ())"

section \<open>Limits on requests, outcomes and records\<close>

definition limits_request :: "postcard_env \<Rightarrow> commit_resource_limits \<Rightarrow> block_request \<Rightarrow> session_error + u64 \<times> u64" where
  "limits_request P l q =
     res_bind (res_check ''issued_handoffs'' (length (rq_handoffs q)) (cl_max_issued_handoffs l)) (\<lambda>_.
     res_bind (res_add ''consumed_handoffs'' (as_u64 (length (rq_consume_handoffs q))) (length (rq_handoff_actions q))) (\<lambda>n.
     res_bind (res_check ''consumed_handoffs'' (unat n) (cl_max_consumed_handoffs l)) (\<lambda>_.
     res_bind (limits_frame P l (rq_frame_input q)) (\<lambda>_.
     res_bind (fold_res (res_add ''data_commitments'') 2
                 [length (rq_data_commitments q) + of_bool (rq_handoff_actions q \<noteq> []), length (rq_handoffs q),
                  length (rq_consume_handoffs q), of_bool (rq_successor q \<noteq> None)]) (\<lambda>commitments.
     res_bind (res_check ''data_commitments'' (unat commitments) (cl_max_data_commitments l)) (\<lambda>_.
     res_bind (fold_res (\<lambda>usage i. res_bind (usage_add l usage (length (hi_payload i), length (hi_authorization i))) (\<lambda>usage.
                 res_bind (intent_validate i) (\<lambda>_. Ok usage))) (0, 0) (rq_handoffs q)) (\<lambda>usage.
     res_bind (res_add ''record_bytes'' (fst usage) (unat (snd usage))) (\<lambda>predictable.
     res_bind (fold_res (\<lambda>used tx. res_add ''record_bytes'' used (length tx)) predictable (rq_transactions q)) (\<lambda>predictable.
     res_bind (res_add ''record_bytes'' predictable (length (fi_payload (rq_frame_input q)))) (\<lambda>total_bytes.
     res_bind (res_check ''record_bytes'' (unat total_bytes) (cl_max_record_bytes l)) (\<lambda>_.
     Ok usage)))))))))))"

definition outbox_bytes :: "u64 \<Rightarrow> string \<times> bytes \<Rightarrow> session_error + u64" where
  "outbox_bytes used m =
     res_bind (res_add ''outbox_bytes'' used (length (fst m))) (\<lambda>used. res_add ''outbox_bytes'' used (length (snd m)))"

definition limits_outcome_parts ::
  "commit_resource_limits \<Rightarrow> nat \<Rightarrow> nat \<Rightarrow> nat \<Rightarrow> bool \<Rightarrow> bool \<Rightarrow> execution_outcome \<Rightarrow> session_error + unit" where
  "limits_outcome_parts l request_commitments issued consumed successor effects_context outcome =
     res_bind (fold_res (res_add ''data_commitments'') (1 + of_bool effects_context)
                 [request_commitments, length (oc_data_commitments outcome), length (oc_outbox outcome), issued, consumed,
                  of_bool successor]) (\<lambda>count.
     res_bind (res_check ''data_commitments'' (unat count) (cl_max_data_commitments l)) (\<lambda>_.
     res_bind (res_check ''outbox_messages'' (length (oc_outbox outcome)) (cl_max_outbox_messages l)) (\<lambda>_.
     res_bind (fold_res outbox_bytes 0 (map (\<lambda>m. (po_topic m, po_payload m)) (oc_outbox outcome))) (\<lambda>bytes.
     res_check ''outbox_bytes'' (unat bytes) (cl_max_outbox_bytes l)))))"

definition limits_record ::
  "crypto_env \<Rightarrow> json_env \<Rightarrow> postcard_env \<Rightarrow> commit_resource_limits \<Rightarrow> finalised_block_record \<Rightarrow> session_error + unit" where
  "limits_record E J P l r =
     res_bind (res_check ''snapshot_bytes'' (unat (fr_resource_snapshot_bytes r)) (cl_max_snapshot_bytes l)) (\<lambda>_.
     res_bind (ensure (mb_data_commitments (fr_block r) \<noteq> [] \<and>
                  last (mb_data_commitments (fr_block r)) = snapshot_commitment E l (fr_resource_snapshot_bytes r))
                (SeCodec ''resource budget or snapshot commitment is absent or changed'')) (\<lambda>_.
     res_bind (limits_frame P l (fr_frame_input r)) (\<lambda>_.
     res_bind (res_check ''issued_handoffs'' (length (fr_issued_handoffs r)) (cl_max_issued_handoffs l)) (\<lambda>_.
     res_bind (res_add ''consumed_handoffs'' (as_u64 (length (fr_consumed_handoff_ids r))) (length (fr_handoff_actions r))) (\<lambda>n.
     res_bind (res_check ''consumed_handoffs'' (unat n) (cl_max_consumed_handoffs l)) (\<lambda>_.
     res_bind (res_check ''data_commitments'' (length (mb_data_commitments (fr_block r))) (cl_max_data_commitments l)) (\<lambda>_.
     res_bind (res_check ''outbox_messages'' (length (fr_outbox r)) (cl_max_outbox_messages l)) (\<lambda>_.
     res_bind (fold_res outbox_bytes 0 (map (\<lambda>m. (ob_topic m, ob_payload m)) (fr_outbox r))) (\<lambda>bytes.
     res_bind (res_check ''outbox_bytes'' (unat bytes) (cl_max_outbox_bytes l)) (\<lambda>_.
     res_bind (limits_snapshot l (fr_state_snapshot r)) (\<lambda>_.
     res_bind (fold_res (\<lambda>usage h. usage_add l usage (length (ho_payload h), length (ho_authorization h))) (0, 0)
                 (fr_issued_handoffs r @ map ra_handoff (fr_handoff_actions r))) (\<lambda>_.
     res_bind (encoded_size_with_limit E J P r (cl_max_record_bytes l)) (\<lambda>_. Ok ())))))))))))))"

section \<open>The handoff lifecycle\<close>

definition reference_from_block :: "crypto_env \<Rightarrow> myelin_block \<Rightarrow> session_error + handoff_block_reference" where
  "reference_from_block E b =
     res_bind (map_err SeConsensus (block_hash E b)) (\<lambda>bh.
     Ok \<lparr>br_session_id = mb_session_id b, br_height = mb_number b, br_block_hash = bh\<rparr>)"

definition reference_validate :: "handoff_block_reference \<Rightarrow> session_error + unit" where
  "reference_validate at =
     ensure (br_session_id at \<noteq> zero32 \<and> br_block_hash at \<noteq> zero32) (SeContinuity ''zero lifecycle block identity'')"

fun action_handoff_id :: "handoff_action \<Rightarrow> hash32" where
  "action_handoff_id (Cancel h) = h"
| "action_handoff_id (Reclaim h) = h"
| "action_handoff_id (Retire h _) = h"

definition action_validate_for ::
  "crypto_env \<Rightarrow> hash32 \<Rightarrow> u64 \<Rightarrow> resolved_handoff_action \<Rightarrow> session_error + unit" where
  "action_validate_for E session_id height a =
     res_bind (ensure (\<not> (action_handoff_id (ra_action a) \<noteq> handoff_id E (ra_handoff a)
                \<or> ho_source_session_id (ra_handoff a) = session_id \<and> height \<le> ho_source_height (ra_handoff a)))
                (SeContinuity ''lifecycle action requires an earlier owned handoff'')) (\<lambda>_.
     let conflict = SeContinuity ''lifecycle action requires the matching earlier cancellation or consumption''
     in case (ra_action a, ra_cancelled_at a) of
          (Cancel _, None) \<Rightarrow> Ok ()
        | (Retire _ consumed_at, None) \<Rightarrow>
            if br_session_id consumed_at \<noteq> session_id \<or> br_height consumed_at < height
            then reference_validate consumed_at else Err conflict
        | (Reclaim _, Some at) \<Rightarrow>
            if (br_session_id at \<noteq> session_id \<or> br_height at < height)
             \<and> (br_session_id at \<noteq> ho_source_session_id (ra_handoff a) \<or> ho_source_height (ra_handoff a) < br_height at)
            then reference_validate at else Err conflict
        | _ \<Rightarrow> Err conflict)"

definition actions_commitment ::
  "crypto_env \<Rightarrow> postcard_env \<Rightarrow> hash32 \<Rightarrow> u64 \<Rightarrow> resolved_handoff_action list \<Rightarrow> session_error + hash32" where
  "actions_commitment E P session height actions =
     res_bind (size_with_limit (pc_actions P (session, height, actions)) ''lifecycle_bytes'' (128 * 1024 * 1024)) (\<lambda>_.
     Ok (cr_blake3 E (str_bytes ''myelin:handoff-lifecycle-actions:v2'' @ pc_actions P (session, height, actions))))"

definition is_available :: "stored_handoff \<Rightarrow> bool" where
  "is_available s \<longleftrightarrow> lc_terminal (sto_lifecycle s) = Issued"

definition not_after :: "handoff_block_reference \<Rightarrow> handoff_block_reference \<Rightarrow> bool" where
  "not_after a b \<longleftrightarrow> br_session_id a = br_session_id b \<and> br_height a \<le> br_height b"

definition validate_lifecycle :: "stored_handoff \<Rightarrow> session_error + unit" where
  "validate_lifecycle s =
     (let issued_at = lc_issued_at (sto_lifecycle s)
      in res_bind (reference_validate issued_at) (\<lambda>_.
         res_bind (ensure (br_session_id issued_at = ho_source_session_id (sto_handoff s)
                    \<and> br_height issued_at = ho_source_height (sto_handoff s))
                    (SeContinuity ''lifecycle issuer differs from handoff'')) (\<lambda>_.
         case lc_terminal (sto_lifecycle s) of
           Issued \<Rightarrow> Ok ()
         | Consumed at \<Rightarrow> reference_validate at
         | Retired at retired_at \<Rightarrow>
             res_bind (reference_validate at) (\<lambda>_.
             res_bind (reference_validate retired_at) (\<lambda>_.
             ensure (\<not> (not_after retired_at issued_at \<or> not_after retired_at at))
               (SeContinuity ''retirement must follow source issuance and target consumption'')))
         | Cancelled at \<Rightarrow>
             res_bind (reference_validate at) (\<lambda>_.
             ensure (\<not> not_after at issued_at) (SeContinuity ''cancellation must follow source issuance''))
         | Reclaimed cancelled_at reclaimed_at \<Rightarrow>
             res_bind (reference_validate reclaimed_at) (\<lambda>_.
             res_bind (ensure (\<not> not_after reclaimed_at cancelled_at) (SeContinuity ''refund must follow cancellation'')) (\<lambda>_.
             res_bind (reference_validate cancelled_at) (\<lambda>_.
             ensure (\<not> not_after cancelled_at issued_at) (SeContinuity ''cancellation must follow source issuance'')))))))"

definition next_terminal ::
  "handoff_terminal \<Rightarrow> resolved_handoff_action \<Rightarrow> handoff_block_reference \<Rightarrow> session_error + handoff_terminal" where
  "next_terminal t a at =
     (let conflict = SeContinuity ''handoff lifecycle conflict; reconcile its terminal outcome''
      in case (t, ra_action a) of
           (Issued, Cancel _) \<Rightarrow> Ok (Cancelled at)
         | (Consumed consumed, Retire _ consumed_at) \<Rightarrow>
             if consumed = consumed_at then Ok (Retired consumed at) else Err conflict
         | (Cancelled cancellation, Reclaim _) \<Rightarrow>
             if ra_cancelled_at a = Some cancellation then Ok (Reclaimed cancellation at) else Err conflict
         | _ \<Rightarrow> Err conflict)"

definition apply_action ::
  "crypto_env \<Rightarrow> resolved_handoff_action \<Rightarrow> handoff_block_reference \<Rightarrow> stored_handoff \<Rightarrow> session_error + stored_handoff" where
  "apply_action E a at s =
     res_bind (validate_lifecycle s) (\<lambda>_.
     res_bind (action_validate_for E (br_session_id at) (br_height at) a) (\<lambda>_.
     res_bind (reference_validate at) (\<lambda>_.
     res_bind (ensure (sto_handoff s = ra_handoff a) (SeContinuity ''lifecycle handoff witness changed'')) (\<lambda>_.
     res_bind (next_terminal (lc_terminal (sto_lifecycle s)) a at) (\<lambda>t.
     let s = s\<lparr>sto_lifecycle := (sto_lifecycle s)\<lparr>lc_terminal := t\<rparr>\<rparr>
     in res_bind (validate_lifecycle s) (\<lambda>_. Ok s))))))"

section \<open>A record against its configuration\<close>

definition effects_context ::
  "crypto_env \<Rightarrow> postcard_env \<Rightarrow> session_config \<Rightarrow> finalised_block_record \<Rightarrow> session_error + protocol_effects_context" where
  "effects_context E P c r =
     context_new E P c (mb_number (fr_block r)) (mb_timestamp_ms (fr_block r)) (mb_state_root_before (fr_block r))
       (fr_frame_input r) (map intent_from_handoff (fr_issued_handoffs r)) (map_option sd_target_config (fr_successor r))"

text \<open>The commitment \<open>n\<close> places before the end of the list.\<close>

definition commitment_from_end :: "nat \<Rightarrow> hash32 list \<Rightarrow> hash32 option" where
  "commitment_from_end n cs = (if 0 < n \<and> n \<le> length cs then Some (cs ! (length cs - n)) else None)"

definition validate_actions ::
  "crypto_env \<Rightarrow> postcard_env \<Rightarrow> session_config \<Rightarrow> finalised_block_record \<Rightarrow> session_error + unit" where
  "validate_actions E P c r =
     (if fr_handoff_actions r = [] then Ok ()
      else res_bind (ensure (is_application (se_protocol_effects c))
                      (SeContinuity ''lifecycle actions require an application policy'')) (\<lambda>_.
           res_bind (fold_res (\<lambda>seen a.
                       res_bind (action_validate_for E (mb_session_id (fr_block r)) (mb_number (fr_block r)) a) (\<lambda>_.
                       res_bind (ensure (action_handoff_id (ra_action a) \<notin> set seen)
                                  (SeContinuity ''duplicate or consumed lifecycle action'')) (\<lambda>_.
                       Ok (action_handoff_id (ra_action a) # seen)))) (fr_consumed_handoff_ids r) (fr_handoff_actions r)) (\<lambda>_.
           res_bind (actions_commitment E P (mb_session_id (fr_block r)) (mb_number (fr_block r)) (fr_handoff_actions r)) (\<lambda>h.
           ensure (commitment_from_end 3 (mb_data_commitments (fr_block r)) = Some h)
             (SeContinuity ''lifecycle commitment missing or changed'')))))"

definition validate_resources ::
  "crypto_env \<Rightarrow> json_env \<Rightarrow> postcard_env \<Rightarrow> session_config \<Rightarrow> finalised_block_record \<Rightarrow> session_error + unit" where
  "validate_resources E J P c r =
     res_bind (ensure (mb_version (fr_block r) = 6) (SeCodec ''unsupported session block version'')) (\<lambda>_.
     res_bind (check_successor_format r) (\<lambda>_.
     res_bind (case fr_successor r of
                 None \<Rightarrow> Ok ()
               | Some s \<Rightarrow>
                   res_bind (declaration_validate_source E s c (frame_root E (fr_frame_input r))) (\<lambda>_.
                   if fr_state_snapshot r = [] then Ok ()
                   else check_source_snapshot E (sd_transition s) (fr_state_snapshot r))) (\<lambda>_.
     res_bind (res_check ''consumed_handoffs'' (length (fr_consumed_handoff_ids r) + length (fr_handoff_actions r))
                 (cl_max_consumed_handoffs (se_commit_limits c))) (\<lambda>_.
     res_bind (validate_actions E P c r) (\<lambda>_.
     res_bind (res_check ''transactions'' (length (fr_transactions r)) (ucast (se_max_block_transactions c))) (\<lambda>_.
     res_bind (fold_res (\<lambda>used tx. add_len (SeBlockLimit ''transaction bytes overflow'') used (length tx)) 0 (fr_transactions r)) (\<lambda>bytes.
     res_bind (res_check ''transaction_bytes'' (unat bytes) (se_max_block_bytes c)) (\<lambda>_.
     res_bind (limits_record E J P (se_commit_limits c) r) (\<lambda>_.
     res_bind (effects_context E P c r) (\<lambda>context.
     res_bind (context_commitment E P context) (\<lambda>h.
     ensure (commitment_from_end 2 (mb_data_commitments (fr_block r)) = Some h)
       (SeProtocolEffects ''source effect context commitment changed''))))))))))))"

end
