(* ===== verification/Session_Chain.thy ===== *)
theory Session_Chain
  imports Session_Records Transition
begin

text \<open>
  The session chain of \<open>session/src/lib.rs\<close>: creation, preparation of a candidate block on a clone
  of the executor, the commit of a finalised block, and the audit every record passes during
  recovery, with the store-backed checks of handoffs (\<open>lifecycle.rs\<close>, \<open>effects.rs\<close>) and of
  commands (\<open>commands.rs\<close>) that a preparation makes.
\<close>

section \<open>Command receipts\<close>

definition receipt_for_record ::
  "crypto_env \<Rightarrow> finalised_block_record \<Rightarrow> nat \<Rightarrow> session_error + command_receipt" where
  "receipt_for_record E r index =
     (if length (fi_commands (fr_frame_input r)) \<le> index then Err (SeInvalidFrame ''command index outside frame'')
      else res_bind (add_len (SeInvalidFrame ''command position overflow'') (fi_start_position (fr_frame_input r)) index) (\<lambda>position.
           res_bind (map_err SeConsensus (block_hash E (fr_block r))) (\<lambda>bh.
           Ok \<lparr>rc_session_id = mb_session_id (fr_block r), rc_command = fi_commands (fr_frame_input r) ! index,
               rc_input_position = position, rc_block_height = mb_number (fr_block r), rc_block_hash = bh,
               rc_frame_commitment = frame_commitment E (fr_frame r)\<rparr>)))"

definition command_status_of ::
  "crypto_env \<Rightarrow> 'st session_store \<Rightarrow> ('e, 'st) session_chain \<Rightarrow> command_identity \<Rightarrow> session_error + command_status" where
  "command_status_of E Sto ch command =
     res_bind (map_err SeStore (so_load_command_receipt Sto (ch_store ch) (se_session_id (ch_config ch)) (cmd_id command))) (\<lambda>found.
     case found of
       None \<Rightarrow> Ok Missing
     | Some receipt \<Rightarrow>
         res_bind (ensure (rc_session_id receipt = se_session_id (ch_config ch) \<and> cmd_id (rc_command receipt) = cmd_id command
                    \<and> (case hd_finalised_height (ch_head ch) of None \<Rightarrow> False | Some height \<Rightarrow> rc_block_height receipt \<le> height))
                    (SeRecovery ''command receipt is outside the current session head'')) (\<lambda>_.
         res_bind (map_err SeStore (so_load_block Sto (ch_store ch) (se_session_id (ch_config ch)) (rc_block_height receipt))) (\<lambda>r.
         res_bind (ok_or (SeRecovery ''command receipt position mismatch'')
                    (checked_sub (rc_input_position receipt) (fi_start_position (fr_frame_input r)))) (\<lambda>index.
         res_bind (receipt_for_record E r (unat index)) (\<lambda>expected.
         res_bind (ensure (expected = receipt) (SeRecovery ''command receipt does not match committed frame'')) (\<lambda>_.
         Ok (if cmd_payload_hash (rc_command receipt) = cmd_payload_hash command
             then Committed receipt else IdentityConflict receipt)))))))"

section \<open>Handoffs against the store\<close>

definition validate_handoff_source ::
  "crypto_env \<Rightarrow> json_env \<Rightarrow> postcard_env \<Rightarrow> session_config \<Rightarrow> finalised_block_record \<Rightarrow> session_handoff \<Rightarrow> session_error + unit" where
  "validate_handoff_source E J P c r h =
     res_bind (config_validate c) (\<lambda>_.
     res_bind (validate_resources E J P c r) (\<lambda>_.
     res_bind (handoff_validate (mb_timestamp_ms (fr_block r)) h) (\<lambda>_.
     ensure (mb_session_id (fr_block r) = se_session_id c \<and> ho_source_session_id h = se_session_id c
         \<and> mb_number (fr_block r) = ho_source_height h \<and> mb_state_root_after (fr_block r) = ho_source_state_root h
         \<and> mb_application_profile_commitment (fr_block r) = profile_commitment E (se_application_profile c)
         \<and> mb_application_profile_commitment (fr_block r) = ho_source_application_profile_commitment h
         \<and> fr_consensus_module_commitment r = se_consensus_module_commitment c
         \<and> fr_consensus_module_commitment r = ho_source_consensus_module_commitment h
         \<and> h \<in> set (fr_issued_handoffs r) \<and> handoff_id E h \<in> set (mb_data_commitments (fr_block r)))
       (SeProtocolEffects ''handoff is not committed by its claimed source genesis/block''))))"

definition referenced_record ::
  "crypto_env \<Rightarrow> json_env \<Rightarrow> postcard_env \<Rightarrow> 'st session_store \<Rightarrow> 'st \<Rightarrow> handoff_block_reference
     \<Rightarrow> session_error + finalised_block_record" where
  "referenced_record E J P Sto st at =
     res_bind (map_err SeStore (so_load_block Sto st (br_session_id at) (br_height at))) (\<lambda>r.
     res_bind (map_err SeStore (so_load_genesis Sto st (br_session_id at))) (\<lambda>genesis.
     res_bind (validate_resources E J P (gn_config genesis) r) (\<lambda>_.
     res_bind (reference_from_block E (fr_block r)) (\<lambda>ref.
     res_bind (ensure (ref = at) (SeRecovery ''lifecycle block reference mismatch'')) (\<lambda>_. Ok r)))))"

text \<open>One step of the owner lineage: the predecessor's sealing block and its configuration.\<close>

definition lineage_step ::
  "crypto_env \<Rightarrow> json_env \<Rightarrow> postcard_env \<Rightarrow> 'st session_store \<Rightarrow> 'st \<Rightarrow> session_config \<Rightarrow> predecessor_reference
     \<Rightarrow> session_error + handoff_block_reference \<times> session_config" where
  "lineage_step E J P Sto st config predecessor =
     res_bind (map_err SeStore (so_load_genesis Sto st (pr_session_id predecessor))) (\<lambda>source.
     res_bind (map_err SeStore (so_load_block Sto st (pr_session_id predecessor) (pr_final_height predecessor))) (\<lambda>r.
     res_bind (validate_resources E J P (gn_config source) r) (\<lambda>_.
     res_bind (ok_or (SeContinuity ''owner lineage has no successor'') (fr_successor r)) (\<lambda>d.
     res_bind (declaration_validate_source E d (gn_config source) (frame_root E (fr_frame_input r))) (\<lambda>_.
     res_bind (map_err SeStore (so_load_head Sto st (pr_session_id predecessor))) (\<lambda>head.
     res_bind (map_err SeConsensus (block_hash E (fr_block r))) (\<lambda>bh.
     res_bind (ensure (tr_state (sd_transition d) = Continue \<and> sd_target_config d = config
                \<and> sd_source_height d = mb_number (fr_block r) \<and> sd_source_state_root d = mb_state_root_after (fr_block r)
                \<and> mb_session_id (fr_block r) = se_session_id (gn_config source)
                \<and> mb_application_profile_commitment (fr_block r) = profile_commitment E (se_application_profile (gn_config source))
                \<and> fr_consensus_module_commitment r = se_consensus_module_commitment (gn_config source)
                \<and> declaration_commitment E d \<in> set (mb_data_commitments (fr_block r))
                \<and> hd_finalised_height head = Some (mb_number (fr_block r)) \<and> hd_block_hash head = bh
                \<and> hd_state_root head = mb_state_root_after (fr_block r)
                \<and> hd_sealed_by_successor head = Some (se_session_id config))
                (SeContinuity ''handoff ownership requires exact state-preserving canonical succession'')) (\<lambda>_.
     res_bind (map_err SeStore (so_load_genesis Sto st (se_session_id config))) (\<lambda>target.
     res_bind (ensure (gn_config target = config) (SeContinuity ''owner genesis differs from successor declaration'')) (\<lambda>_.
     res_bind (check_source_snapshot E (sd_transition d) (gn_state_snapshot target)) (\<lambda>_.
     res_bind (reference_from_block E (fr_block r)) (\<lambda>ref.
     Ok (ref, gn_config source)))))))))))))"

text \<open>The loop runs at most 32 times; \<open>depth\<close> counts down what is left.\<close>

fun lineage_loop ::
  "crypto_env \<Rightarrow> json_env \<Rightarrow> postcard_env \<Rightarrow> 'st session_store \<Rightarrow> 'st \<Rightarrow> nat \<Rightarrow> session_config \<Rightarrow> hash32
     \<Rightarrow> handoff_block_reference list \<Rightarrow> hash32 list \<Rightarrow> session_error + handoff_block_reference list" where
  "lineage_loop E J P Sto st depth config origin lineage visited =
     (if se_session_id config = origin then Ok lineage
      else case depth of
             0 \<Rightarrow> Err (SeContinuity ''handoff owner lineage exceeds depth limit'')
           | Suc depth \<Rightarrow>
               res_bind (ok_or (SeContinuity ''lifecycle session is not a successor of the handoff source'') (se_predecessor config))
                 (\<lambda>predecessor.
               res_bind (ensure (pr_session_id predecessor \<notin> set visited) (SeContinuity ''cyclic handoff owner lineage'')) (\<lambda>_.
               res_bind (lineage_step E J P Sto st config predecessor) (\<lambda>(ref, source).
               lineage_loop E J P Sto st depth source origin (lineage @ [ref]) (pr_session_id predecessor # visited)))))"

definition continuation_lineage ::
  "crypto_env \<Rightarrow> json_env \<Rightarrow> postcard_env \<Rightarrow> 'st session_store \<Rightarrow> 'st \<Rightarrow> session_config \<Rightarrow> hash32
     \<Rightarrow> session_error + handoff_block_reference list" where
  "continuation_lineage E J P Sto st owner origin = lineage_loop E J P Sto st 32 owner origin [] [se_session_id owner]"

definition handoff_owner_lineage ::
  "crypto_env \<Rightarrow> json_env \<Rightarrow> postcard_env \<Rightarrow> 'st session_store \<Rightarrow> 'st \<Rightarrow> session_config \<Rightarrow> session_handoff
     \<Rightarrow> session_error + handoff_block_reference list" where
  "handoff_owner_lineage E J P Sto st owner h =
     res_bind (continuation_lineage E J P Sto st owner (ho_source_session_id h)) (\<lambda>lineage.
     res_bind (map_err SeStore (so_load_genesis Sto st (ho_source_session_id h))) (\<lambda>source.
     res_bind (ensure (profile_commitment E (se_application_profile (gn_config source)) = ho_source_application_profile_commitment h
                \<and> se_consensus_module_commitment (gn_config source) = ho_source_consensus_module_commitment h
                \<and> \<not> (lineage \<noteq> [] \<and> br_height (last lineage) < ho_source_height h))
                (SeContinuity ''handoff owner lineage does not reach its exact issuer'')) (\<lambda>_.
     Ok lineage)))"

definition validate_handoff_action ::
  "crypto_env \<Rightarrow> json_env \<Rightarrow> postcard_env \<Rightarrow> 'st session_store \<Rightarrow> 'st \<Rightarrow> session_config \<Rightarrow> u64 \<Rightarrow> resolved_handoff_action
     \<Rightarrow> session_error + handoff_block_reference list" where
  "validate_handoff_action E J P Sto st owner height a =
     res_bind (action_validate_for E (se_session_id owner) height a) (\<lambda>_.
     res_bind (handoff_owner_lineage E J P Sto st owner (ra_handoff a)) (\<lambda>lineage.
     res_bind (case ra_cancelled_at a of
                 None \<Rightarrow> Ok ()
               | Some at \<Rightarrow> ensure (br_session_id at = se_session_id owner
                     \<or> list_ex (\<lambda>seal. br_session_id seal = br_session_id at \<and> br_height at \<le> br_height seal) lineage)
                     (SeContinuity ''refund cancellation is not in the owner's earlier lineage'')) (\<lambda>_.
     Ok lineage)))"

definition validate_consumption_record ::
  "crypto_env \<Rightarrow> handoff_block_reference \<Rightarrow> hash32 \<Rightarrow> finalised_block_record \<Rightarrow> session_error + unit" where
  "validate_consumption_record E at hid r =
     res_bind (reference_validate at) (\<lambda>_.
     res_bind (reference_from_block E (fr_block r)) (\<lambda>ref.
     ensure (ref = at \<and> count_list (fr_consumed_handoff_ids r) hid = 1)
       (SeContinuity ''retirement consumption reference does not match the exact target block'')))"

definition matches_action ::
  "crypto_env \<Rightarrow> json_env \<Rightarrow> postcard_env \<Rightarrow> 'st session_store \<Rightarrow> 'st \<Rightarrow> session_handoff \<Rightarrow> handoff_block_reference
     \<Rightarrow> handoff_action \<Rightarrow> handoff_block_reference option \<Rightarrow> session_error + unit" where
  "matches_action E J P Sto st h at action cancel =
     res_bind (referenced_record E J P Sto st at) (\<lambda>r.
     let expected = \<lparr>ra_action = action, ra_handoff = h, ra_cancelled_at = cancel\<rparr>
     in res_bind (map_err SeStore (so_load_genesis Sto st (br_session_id at))) (\<lambda>genesis.
        res_bind (validate_handoff_action E J P Sto st (gn_config genesis) (br_height at) expected) (\<lambda>_.
        ensure (count_list (fr_handoff_actions r) expected = 1)
          (SeRecovery ''lifecycle action is absent from its exact block''))))"

definition audit_handoff_lifecycle ::
  "crypto_env \<Rightarrow> json_env \<Rightarrow> postcard_env \<Rightarrow> 'st session_store \<Rightarrow> 'st \<Rightarrow> stored_handoff \<Rightarrow> session_error + unit" where
  "audit_handoff_lifecycle E J P Sto st s =
     (let h = sto_handoff s; hid = handoff_id E h; match = matches_action E J P Sto st h;
          consumed = (\<lambda>at. res_bind (referenced_record E J P Sto st at) (\<lambda>r.
            ensure (count_list (fr_consumed_handoff_ids r) hid = 1)
              (SeRecovery ''lifecycle consumption is absent from target block'')))
      in res_bind (validate_lifecycle s) (\<lambda>_.
         res_bind (map_err SeStore (so_load_genesis Sto st (ho_source_session_id h))) (\<lambda>source.
         res_bind (map_err SeStore (so_load_block Sto st (ho_source_session_id h) (ho_source_height h))) (\<lambda>issued.
         res_bind (validate_handoff_source E J P (gn_config source) issued h) (\<lambda>_.
         res_bind (reference_from_block E (fr_block issued)) (\<lambda>ref.
         res_bind (ensure (lc_issued_at (sto_lifecycle s) = ref) (SeRecovery ''lifecycle issuance block mismatch'')) (\<lambda>_.
         case lc_terminal (sto_lifecycle s) of
           Issued \<Rightarrow> Ok ()
         | Consumed at \<Rightarrow> consumed at
         | Retired at retired_at \<Rightarrow> res_bind (consumed at) (\<lambda>_. match retired_at (Retire hid at) None)
         | Cancelled at \<Rightarrow> match at (Cancel hid) None
         | Reclaimed cancelled_at reclaimed_at \<Rightarrow>
             res_bind (match cancelled_at (Cancel hid) None) (\<lambda>_.
             match reclaimed_at (Reclaim hid) (Some cancelled_at)))))))))"

section \<open>Creation\<close>

text \<open>What the stored outcome must be, seen from the block of one of its actions.\<close>

definition action_outcome :: "handoff_block_reference \<Rightarrow> resolved_handoff_action \<Rightarrow> handoff_terminal \<Rightarrow> bool" where
  "action_outcome at a t =
     (case (ra_action a, t) of
        (Cancel _, Cancelled c) \<Rightarrow> c = at
      | (Retire _ consumed_at, Retired c r) \<Rightarrow> r = at \<and> consumed_at = c
      | (Cancel _, Reclaimed c _) \<Rightarrow> c = at
      | (Reclaim _, Reclaimed c r) \<Rightarrow> r = at \<and> ra_cancelled_at a = Some c
      | _ \<Rightarrow> False)"

definition audit_actions ::
  "crypto_env \<Rightarrow> json_env \<Rightarrow> postcard_env \<Rightarrow> 'st session_store \<Rightarrow> 'st \<Rightarrow> finalised_block_record \<Rightarrow> session_error + unit" where
  "audit_actions E J P Sto st r =
     res_bind (reference_from_block E (fr_block r)) (\<lambda>at.
     fold_res (\<lambda>_ a.
       res_bind (map_err SeStore (so_load_genesis Sto st (br_session_id at))) (\<lambda>genesis.
       res_bind (validate_handoff_action E J P Sto st (gn_config genesis) (br_height at) a) (\<lambda>_.
       res_bind (map_err SeStore (so_load_handoff Sto st (action_handoff_id (ra_action a)))) (\<lambda>found.
       res_bind (ok_or (SeRecovery ''action handoff absent'') found) (\<lambda>stored.
       res_bind (audit_handoff_lifecycle E J P Sto st stored) (\<lambda>_.
       ensure (action_outcome at a (lc_terminal (sto_lifecycle stored)) \<and> sto_handoff stored = ra_handoff a)
         (SeRecovery ''lifecycle index differs from audited action''))))))) () (fr_handoff_actions r))"

definition ensure_consensus_config :: "crypto_env \<Rightarrow> finality_verifier \<Rightarrow> session_config \<Rightarrow> session_error + unit" where
  "ensure_consensus_config E v c =
     (let d = fv_descriptor v
      in res_bind (ensure (md_consensus_kind d = se_consensus_kind c)
                    (SeConsensusKind (se_consensus_kind c) (md_consensus_kind d))) (\<lambda>_.
         res_bind (ensure (md_config_commitment d = se_consensus_config_commitment c)
                    (SeInvalidConfig ''selected consensus validator/quorum config does not match its immutable commitment'')) (\<lambda>_.
         res_bind (ensure (descriptor_commitment E d = se_consensus_module_commitment c)
                    (SeInvalidConfig ''selected consensus module descriptor does not match its immutable commitment'')) (\<lambda>_.
         ensure (md_wal_schema_hash d = se_consensus_wal_schema_hash c)
           (SeInvalidConfig ''selected consensus WAL schema does not match session genesis'')))))"

definition genesis_head :: "session_genesis \<Rightarrow> session_head" where
  "genesis_head g =
     (let c = gn_config g
      in \<lparr>hd_session_id = se_session_id c, hd_finalised_height = None, hd_block_hash = zero32,
          hd_state_root = se_initial_state_root c, hd_timestamp_ms = se_initial_timestamp_ms c,
          hd_input_position = se_initial_input_position c, hd_logical_time = se_initial_logical_time c,
          hd_sealed_by_successor = None\<rparr>)"

definition chain_create ::
  "crypto_env \<Rightarrow> 'e transition_executor \<Rightarrow> 'st session_store \<Rightarrow> session_config \<Rightarrow> finality_verifier \<Rightarrow> 'e \<Rightarrow> 'st
     \<Rightarrow> session_error + ('e, 'st) session_chain" where
  "chain_create E X Sto c v ex st =
     res_bind (config_validate c) (\<lambda>_.
     res_bind (ensure (se_predecessor c = None)
                (SeContinuity ''a successor genesis can only be created atomically by its predecessor's final block'')) (\<lambda>_.
     res_bind (ensure_consensus_config E v c) (\<lambda>_.
     res_bind (ensure (ex_state_root X ex = se_initial_state_root c)
                (SeStateRootMismatch (se_initial_state_root c) (ex_state_root X ex))) (\<lambda>_.
     res_bind (map_err SeExecution (ex_snapshot X ex)) (\<lambda>snapshot.
     res_bind (limits_snapshot (se_commit_limits c) snapshot) (\<lambda>_.
     let genesis = \<lparr>gn_config = c, gn_state_snapshot = snapshot\<rparr>; head = genesis_head genesis
     in res_bind (map_err SeStore (so_create_session Sto st genesis head)) (\<lambda>st.
        Ok \<lparr>ch_config = c, ch_head = head, ch_finality_verifier = v, ch_executor = ex, ch_store = st\<rparr>)))))))"

section \<open>Preparing a block\<close>

definition total_transaction_bytes :: "session_error \<Rightarrow> bytes list \<Rightarrow> session_error + u64" where
  "total_transaction_bytes e txs = fold_res (\<lambda>used tx. add_len e used (length tx)) 0 txs"

text \<open>The checks of a request against the head: the handoff bytes used so far, the transaction bytes, the height.\<close>

definition check_request ::
  "crypto_env \<Rightarrow> postcard_env \<Rightarrow> 'st session_store \<Rightarrow> ('e, 'st) session_chain \<Rightarrow> block_request
     \<Rightarrow> session_error + (u64 \<times> u64) \<times> u64 \<times> u64" where
  "check_request E P Sto ch q =
     (let c = ch_config ch; head = ch_head ch; input = rq_frame_input q
      in res_bind (ensure (hd_sealed_by_successor head = None)
                    (SeContinuity ''session is sealed by its declared successor'')) (\<lambda>_.
         res_bind (limits_request P (se_commit_limits c) q) (\<lambda>usage.
         res_bind (case rq_successor q of None \<Rightarrow> Ok () | Some target \<Rightarrow> config_validate target) (\<lambda>_.
         res_bind (frame_input_validate (se_application_profile c) input) (\<lambda>_.
         res_bind (fold_res (\<lambda>_ command. res_bind (command_status_of E Sto ch command) (\<lambda>status.
                     ensure (status = Missing)
                       (SeInvalidFrame ''command identity already committed; reconcile before retrying''))) () (fi_commands input)) (\<lambda>_.
         res_bind (ensure (fi_start_position input = hd_input_position head)
                    (SeInvalidFrame ''frame input does not start at the head'')) (\<lambda>_.
         res_bind (ensure (fi_logical_time_start input = hd_logical_time head)
                    (SeInvalidFrame ''frame logical time does not start at the head'')) (\<lambda>_.
         res_bind (ensure (length (rq_transactions q) \<le> unat (se_max_block_transactions c))
                    (SeBlockLimit ''transaction count exceeds the limit'')) (\<lambda>_.
         res_bind (total_transaction_bytes (SeBlockLimit ''transaction bytes overflow'') (rq_transactions q)) (\<lambda>total_bytes.
         res_bind (ensure (total_bytes \<le> se_max_block_bytes c) (SeBlockLimit ''block bytes exceed the limit'')) (\<lambda>_.
         res_bind (ensure (hd_timestamp_ms head \<le> rq_timestamp_ms q)
                    (SeInvalidTimestamp ''timestamp regressed below the finalised head'')) (\<lambda>_.
         res_bind (ensure (rq_timestamp_ms q \<le> saturating_add (rq_local_now_ms q) (se_max_future_drift_ms c))
                    (SeInvalidTimestamp ''timestamp exceeds configured future drift'')) (\<lambda>_.
         res_bind (next_height head) (\<lambda>height.
         Ok (usage, total_bytes, height)))))))))))))))"

definition pipeline_preimage :: "evidence_pipeline_descriptor \<Rightarrow> bytes" where
  "pipeline_preimage d =
     (let put_string = (\<lambda>x. u32_le (as_u32 (length x)) @ str_bytes x)
      in str_bytes ''myelin:evidence-pipeline'' @ put_string (ep_pipeline_name d) @ put_string (ep_topic d)
         @ u32_le (as_u32 (length (ep_stages d)))
         @ concat (map (\<lambda>stage. put_string (es_name stage) @ es_verifier_commitment stage) (ep_stages d)))"

text \<open>One handoff to consume; the state is the bytes used, the ids seen, the handoffs resolved.\<close>

definition resolve_consumed ::
  "crypto_env \<Rightarrow> json_env \<Rightarrow> postcard_env \<Rightarrow> 'st session_store \<Rightarrow> ('e, 'st) session_chain \<Rightarrow> u64
     \<Rightarrow> (u64 \<times> u64) \<times> hash32 list \<times> session_handoff list \<Rightarrow> hash32
     \<Rightarrow> session_error + (u64 \<times> u64) \<times> hash32 list \<times> session_handoff list" where
  "resolve_consumed E J P Sto ch timestamp_ms acc hid =
     (let (usage, ids, consumed) = acc; st = ch_store ch; c = ch_config ch
      in res_bind (ensure (hid \<notin> set ids) (SeContinuity ''duplicate handoff consumption id'')) (\<lambda>_.
         res_bind (map_err SeStore (so_load_handoff Sto st hid)) (\<lambda>found.
         res_bind (ok_or (SeContinuity ''requested handoff does not exist'') found) (\<lambda>stored.
         let h = sto_handoff stored
         in res_bind (usage_add (se_commit_limits c) usage (length (ho_payload h), length (ho_authorization h))) (\<lambda>usage.
            res_bind (ensure (handoff_id E h = hid \<and> is_available stored)
                       (SeContinuity ''handoff identity mismatch or already consumed'')) (\<lambda>_.
            res_bind (ensure (accepts_target h c \<and> timestamp_ms \<le> ho_expires_at_ms h)
                       (SeContinuity ''handoff target policy mismatch or handoff expired'')) (\<lambda>_.
            res_bind (audit_handoff_lifecycle E J P Sto st stored) (\<lambda>_.
            res_bind (map_err SeStore (so_load_genesis Sto st (ho_source_session_id h))) (\<lambda>source_genesis.
            res_bind (validate_handoff_trust c (gn_config source_genesis)) (\<lambda>_.
            res_bind (map_err SeStore (so_load_block Sto st (ho_source_session_id h) (ho_source_height h))) (\<lambda>source.
            res_bind (validate_handoff_source E J P (gn_config source_genesis) source h) (\<lambda>_.
            res_bind (case ho_evidence_requirement h of
                        None \<Rightarrow> Ok ()
                      | Some requirement \<Rightarrow>
                          res_bind (map_err SeStore (so_load_evidence Sto st (ho_source_session_id h) (er_message_id requirement))) (\<lambda>found.
                          res_bind (ok_or (SeContinuity ''required handoff evidence is absent'') found) (\<lambda>evidence.
                          ensure (cr_blake3 E (pipeline_preimage (ev_descriptor evidence)) = er_pipeline_commitment requirement
                              \<and> unat (er_minimum_stage_index requirement) < length (ev_receipts evidence))
                            (SeContinuity ''required handoff evidence stage has not been reached'')))) (\<lambda>_.
            Ok (usage, hid # ids, consumed @ [h]))))))))))))))"

definition resolve_action ::
  "crypto_env \<Rightarrow> json_env \<Rightarrow> postcard_env \<Rightarrow> 'st session_store \<Rightarrow> ('e, 'st) session_chain \<Rightarrow> u64
     \<Rightarrow> (u64 \<times> u64) \<times> hash32 list \<times> resolved_handoff_action list \<Rightarrow> handoff_action
     \<Rightarrow> session_error + (u64 \<times> u64) \<times> hash32 list \<times> resolved_handoff_action list" where
  "resolve_action E J P Sto ch height acc action =
     (let (usage, ids, actions) = acc; st = ch_store ch; c = ch_config ch;
          conflict = SeContinuity ''handoff lifecycle conflict; reconcile''
      in res_bind (ensure (action_handoff_id action \<notin> set ids) (SeContinuity ''duplicate lifecycle or consumption action'')) (\<lambda>_.
         res_bind (map_err SeStore (so_load_handoff Sto st (action_handoff_id action))) (\<lambda>found.
         res_bind (ok_or (SeContinuity ''action handoff absent; reconcile'') found) (\<lambda>stored.
         let h = sto_handoff stored
         in res_bind (usage_add (se_commit_limits c) usage (length (ho_payload h), length (ho_authorization h))) (\<lambda>usage.
            res_bind (audit_handoff_lifecycle E J P Sto st stored) (\<lambda>_.
            res_bind (case (action, lc_terminal (sto_lifecycle stored)) of
                        (Cancel _, Issued) \<Rightarrow> Ok None
                      | (Reclaim _, Cancelled at) \<Rightarrow> Ok (Some at)
                      | (Retire hid consumed_at, Consumed at) \<Rightarrow>
                          if consumed_at = at
                          then res_bind (map_err SeStore (so_load_block Sto st (br_session_id at) (br_height at))) (\<lambda>target.
                               res_bind (validate_consumption_record E at hid target) (\<lambda>_. Ok None))
                          else Err conflict
                      | _ \<Rightarrow> Err conflict) (\<lambda>cancelled_at.
            let resolved = \<lparr>ra_action = action, ra_handoff = h, ra_cancelled_at = cancelled_at\<rparr>
            in res_bind (validate_handoff_action E J P Sto st c height resolved) (\<lambda>_.
               Ok (usage, action_handoff_id action # ids, actions @ [resolved])))))))))"

definition canonical_txid :: "crypto_env \<Rightarrow> bytes \<Rightarrow> session_error + hash32" where
  "canonical_txid E bs =
     res_bind (map_err (\<lambda>_. SeExecution ''invalid canonical CellTx'') (deserialize_transaction_molecule bs)) (\<lambda>tx.
     res_bind (ensure (tx_version tx = 0) (SeExecution ''CellTx version is not supported'')) (\<lambda>_.
     Ok (tx_id E tx)))"

definition check_outcome ::
  "session_config \<Rightarrow> block_request \<Rightarrow> hash32 list \<Rightarrow> execution_outcome \<Rightarrow> session_error + unit" where
  "check_outcome c q txids outcome =
     res_bind (limits_outcome_parts (se_commit_limits c) (length (rq_data_commitments q) + of_bool (rq_handoff_actions q \<noteq> []))
                 (length (rq_handoffs q)) (length (rq_consume_handoffs q)) (rq_successor q \<noteq> None) True outcome) (\<lambda>_.
     res_bind (ensure (length (oc_ordered_cell_tx_commitments outcome) = length (rq_transactions q))
                (SeExecution ''executor returned a different transaction count'')) (\<lambda>_.
     res_bind (ensure (oc_ordered_cell_tx_commitments outcome = txids)
                (SeExecution ''executor raw txids do not match the canonical transaction bytes'')) (\<lambda>_.
     res_bind (ensure (distinct (oc_ordered_cell_tx_commitments outcome))
                (SeExecution ''executor returned duplicate raw txids'')) (\<lambda>_.
     ensure (oc_cycles outcome \<le> re_max_frame_cycles (ap_resources (se_application_profile c)))
       (SeInvalidFrame ''execution cycles exceed the profile'')))))"

definition issue_handoff ::
  "crypto_env \<Rightarrow> session_config \<Rightarrow> u64 \<Rightarrow> hash32 \<Rightarrow> u64 \<Rightarrow> session_handoff list \<Rightarrow> handoff_intent
     \<Rightarrow> session_error + session_handoff list" where
  "issue_handoff E c height root timestamp_ms issued intent =
     res_bind (handoff_from_intent (se_session_id c) height root (profile_commitment E (se_application_profile c))
                 (se_consensus_module_commitment c) timestamp_ms intent) (\<lambda>h.
     res_bind (ensure (handoff_id E h \<notin> handoff_id E ` set issued) (SeContinuity ''duplicate issued handoff id'')) (\<lambda>_.
     Ok (issued @ [h])))"

definition declare_successor ::
  "crypto_env \<Rightarrow> 'e transition_executor \<Rightarrow> 'e \<Rightarrow> session_config \<Rightarrow> block_request \<Rightarrow> u64 \<Rightarrow> bytes
     \<Rightarrow> session_error + successor_declaration option" where
  "declare_successor E X candidate c q height snapshot =
     (case rq_successor q of
        None \<Rightarrow> Ok None
      | Some target \<Rightarrow>
          res_bind (ensure (se_initial_input_position target = fi_end_position (rq_frame_input q)
                     \<and> se_initial_logical_time target = fi_logical_time_end (rq_frame_input q)
                     \<and> se_initial_timestamp_ms target = rq_timestamp_ms q)
                     (SeContinuity ''successor genesis must preserve the predecessor frame cursor, logical time and timestamp'')) (\<lambda>_.
          res_bind (transition_execute E X candidate c target (rq_frame_input q) snapshot) (\<lambda>transition.
          let d = \<lparr>sd_source_session_id = se_session_id c, sd_source_height = height,
                   sd_source_state_root = ex_state_root X candidate,
                   sd_source_application_profile_commitment = profile_commitment E (se_application_profile c),
                   sd_target_config = target, sd_transition = transition\<rparr>
          in res_bind (declaration_validate d) (\<lambda>_. Ok (Some d)))))"

definition candidate_frame ::
  "crypto_env \<Rightarrow> session_config \<Rightarrow> session_head \<Rightarrow> block_request \<Rightarrow> u64 \<Rightarrow> u64 \<Rightarrow> hash32 \<Rightarrow> execution_outcome \<Rightarrow> execution_frame" where
  "candidate_frame E c head q height total_bytes root outcome =
     \<lparr>ef_session_id = se_session_id c, ef_height = height,
      ef_application_profile_commitment = profile_commitment E (se_application_profile c),
      ef_input_start = fi_start_position (rq_frame_input q), ef_input_end = fi_end_position (rq_frame_input q),
      ef_input_root = frame_root E (rq_frame_input q), ef_logical_time_start = fi_logical_time_start (rq_frame_input q),
      ef_logical_time_end = fi_logical_time_end (rq_frame_input q), ef_state_root_before = hd_state_root head,
      ef_state_root_after = root, ef_ordered_cell_tx_commitments = oc_ordered_cell_tx_commitments outcome,
      ef_resources = \<lparr>xs_cycles = oc_cycles outcome, xs_transaction_bytes = total_bytes,
                      xs_input_bytes = as_u64 (length (fi_payload (rq_frame_input q)))\<rparr>\<rparr>"

definition candidate_block ::
  "crypto_env \<Rightarrow> session_config \<Rightarrow> session_head \<Rightarrow> block_request \<Rightarrow> u64 \<Rightarrow> hash32 \<Rightarrow> execution_outcome \<Rightarrow> execution_frame
     \<Rightarrow> hash32 list \<Rightarrow> myelin_block" where
  "candidate_block E c head q height root outcome frame data =
     \<lparr>mb_version = 6, mb_session_id = se_session_id c, mb_parent_hash = hd_block_hash head, mb_number = height,
      mb_timestamp_ms = rq_timestamp_ms q, mb_consensus_kind = se_consensus_kind c,
      mb_application_profile_commitment = profile_commitment E (se_application_profile c),
      mb_execution_frame_commitment = frame_commitment E frame, mb_state_root_before = hd_state_root head,
      mb_state_root_after = root, mb_ordered_cell_tx_commitments = oc_ordered_cell_tx_commitments outcome,
      mb_data_commitments = data, mb_scheduler_commitment = rq_scheduler_commitment q\<rparr>"

definition prepare_block ::
  "crypto_env \<Rightarrow> json_env \<Rightarrow> postcard_env \<Rightarrow> 'e transition_executor \<Rightarrow> 'st session_store \<Rightarrow> ('e, 'st) session_chain
     \<Rightarrow> block_request \<Rightarrow> session_error + 'e prepared_block" where
  "prepare_block E J P X Sto ch q =
     (let c = ch_config ch; head = ch_head ch; limits = se_commit_limits c
      in res_bind (check_request E P Sto ch q) (\<lambda>(usage, total_bytes, height).
         res_bind (fold_res (resolve_consumed E J P Sto ch (rq_timestamp_ms q)) (usage, [], []) (rq_consume_handoffs q))
           (\<lambda>(usage, ids, consumed).
         res_bind (fold_res (resolve_action E J P Sto ch height) (usage, ids, []) (rq_handoff_actions q)) (\<lambda>(_, _, actions).
         res_bind (ensure (actions = [] \<or> is_application (se_protocol_effects c))
                    (SeContinuity ''lifecycle actions require an application policy'')) (\<lambda>_.
         res_bind (ensure (ex_state_root X (ch_executor ch) = hd_state_root head)
                    (SeStateRootMismatch (hd_state_root head) (ex_state_root X (ch_executor ch)))) (\<lambda>_.
         res_bind (map_res (canonical_txid E) (rq_transactions q)) (\<lambda>txids.
         res_bind (context_new E P c height (rq_timestamp_ms q) (hd_state_root head) (rq_frame_input q) (rq_handoffs q)
                     (rq_successor q)) (\<lambda>context.
         res_bind (map_err SeExecution (ex_execute X (ch_executor ch) context actions (rq_frame_input q) consumed (rq_transactions q)))
           (\<lambda>(outcome, candidate).
         res_bind (check_outcome c q txids outcome) (\<lambda>_.
         res_bind (map_res (\<lambda>(index, m). make_outbox_message E (se_session_id c) (se_consensus_module_commitment c) height index m)
                     (enumerate 0 (oc_outbox outcome))) (\<lambda>outbox.
         res_bind (fold_res (issue_handoff E c height (ex_state_root X candidate) (rq_timestamp_ms q)) [] (rq_handoffs q)) (\<lambda>issued.
         let frame = candidate_frame E c head q height total_bytes (ex_state_root X candidate) outcome
         in res_bind (frame_validate E (se_application_profile c) (rq_frame_input q) frame) (\<lambda>_.
            res_bind (map_err SeExecution (ex_snapshot X candidate)) (\<lambda>snapshot.
            res_bind (limits_snapshot limits snapshot) (\<lambda>_.
            res_bind (declare_successor E X candidate c q height snapshot) (\<lambda>successor.
            res_bind (if actions = [] then Ok []
                      else res_bind (actions_commitment E P (se_session_id c) height actions) (\<lambda>h. Ok [h])) (\<lambda>action_commitments.
            res_bind (context_commitment E P context) (\<lambda>context_hash.
            let data = rq_data_commitments q @ oc_data_commitments outcome @ map (\<lambda>m. cr_blake3 E (outbox_preimage m)) outbox
                  @ map (handoff_id E) issued
                  @ map (handoff_consumption_commitment E (se_session_id c) height) (rq_consume_handoffs q)
                  @ (case successor of None \<Rightarrow> [] | Some d \<Rightarrow> [declaration_commitment E d])
                  @ action_commitments @ [context_hash, snapshot_commitment E limits (as_u64 (length snapshot))];
                block = candidate_block E c head q height (ex_state_root X candidate) outcome frame data;
                prepared = \<lparr>pb_block = block, pb_base_head = head, pb_executor = candidate, pb_transactions = rq_transactions q,
                  pb_snapshot = snapshot, pb_outbox = outbox, pb_frame = frame, pb_frame_input = rq_frame_input q,
                  pb_successor = successor, pb_issued_handoffs = issued, pb_consumed_handoffs = consumed,
                  pb_handoff_actions = actions, pb_request_data_commitments = rq_data_commitments q\<rparr>
            in res_bind (check_record_size E P prepared (se_consensus_module_commitment c) [] (cl_max_record_bytes limits)) (\<lambda>_.
               Ok prepared)))))))))))))))))))"

section \<open>Committing a finalised block\<close>

definition committed_head :: "session_config \<Rightarrow> 'e prepared_block \<Rightarrow> hash32 \<Rightarrow> session_head" where
  "committed_head c p bh =
     \<lparr>hd_session_id = se_session_id c, hd_finalised_height = Some (mb_number (pb_block p)), hd_block_hash = bh,
      hd_state_root = mb_state_root_after (pb_block p), hd_timestamp_ms = mb_timestamp_ms (pb_block p),
      hd_input_position = ef_input_end (pb_frame p), hd_logical_time = ef_logical_time_end (pb_frame p),
      hd_sealed_by_successor = map_option (\<lambda>d. se_session_id (sd_target_config d)) (pb_successor p)\<rparr>"

definition committed_record :: "crypto_env \<Rightarrow> 'e prepared_block \<Rightarrow> hash32 \<Rightarrow> finality_proof \<Rightarrow> finalised_block_record" where
  "committed_record E p module proof =
     \<lparr>fr_block = pb_block p, fr_consensus_module_commitment = module, fr_proof = proof, fr_transactions = pb_transactions p,
      fr_state_snapshot = pb_snapshot p, fr_outbox = pb_outbox p, fr_frame = pb_frame p, fr_frame_input = pb_frame_input p,
      fr_successor = pb_successor p, fr_issued_handoffs = pb_issued_handoffs p,
      fr_consumed_handoff_ids = map (handoff_id E) (pb_consumed_handoffs p),
      fr_request_data_commitments = pb_request_data_commitments p,
      fr_resource_snapshot_bytes = as_u64 (length (pb_snapshot p)), fr_handoff_actions = pb_handoff_actions p\<rparr>"

text \<open>Every failing path leaves the chain as it was; success returns the chain advanced.\<close>

definition commit_finalised ::
  "crypto_env \<Rightarrow> json_env \<Rightarrow> postcard_env \<Rightarrow> 'st session_store \<Rightarrow> ('e, 'st) session_chain \<Rightarrow> 'e prepared_block \<Rightarrow> finality_proof
     \<Rightarrow> session_error + ('e, 'st) session_chain" where
  "commit_finalised E J P Sto ch p proof =
     (let c = ch_config ch
      in res_bind (ensure (pb_base_head p = ch_head ch) SeStalePreparedBlock) (\<lambda>_.
         res_bind (map_err SeConsensus (encode_proof E J proof)) (\<lambda>proof_bytes.
         res_bind (check_record_size E P p (se_consensus_module_commitment c) proof_bytes (cl_max_record_bytes (se_commit_limits c))) (\<lambda>_.
         res_bind (map_err SeConsensus (fv_verify (ch_finality_verifier ch) (pb_block p) proof)) (\<lambda>finalised.
         res_bind (map_err SeConsensus (block_hash E (pb_block p))) (\<lambda>bh.
         res_bind (ensure (vf_block_hash finalised = bh) (SeFinalityMismatch bh (vf_block_hash finalised))) (\<lambda>_.
         res_bind (ensure (vf_consensus_module_commitment finalised = se_consensus_module_commitment c)
                    (SeInvalidConfig ''finality verifier returned a different module commitment'')) (\<lambda>_.
         let new_head = committed_head c p (vf_block_hash finalised);
             r = committed_record E p (vf_consensus_module_commitment finalised) proof
         in res_bind (validate_resources E J P c r) (\<lambda>_.
            res_bind (map_err SeStore (so_commit_block Sto (ch_store ch) (ch_head ch) new_head r)) (\<lambda>st.
            Ok (ch\<lparr>ch_store := st, ch_executor := pb_executor p, ch_head := new_head\<rparr>)))))))))))"

section \<open>The audit of a record\<close>

definition audit_linkage :: "crypto_env \<Rightarrow> session_config \<Rightarrow> session_head \<Rightarrow> finalised_block_record \<Rightarrow> session_error + unit" where
  "audit_linkage E c head r =
     (let b = fr_block r; f = fr_frame r
      in res_bind (if mb_parent_hash b \<noteq> hd_block_hash head then Ok False
                   else res_bind (next_height head) (\<lambda>height. Ok (mb_number b = height))) (\<lambda>linked.
         ensure (linked \<and> mb_session_id b = se_session_id c \<and> mb_state_root_before b = hd_state_root head
             \<and> hd_timestamp_ms head \<le> mb_timestamp_ms b \<and> ef_input_start f = hd_input_position head
             \<and> ef_logical_time_start f = hd_logical_time head \<and> mb_consensus_kind b = se_consensus_kind c
             \<and> mb_application_profile_commitment b = profile_commitment E (se_application_profile c)
             \<and> mb_execution_frame_commitment b = frame_commitment E f
             \<and> fr_consensus_module_commitment r = se_consensus_module_commitment c)
           (SeRecovery ''invalid chain linkage'')))"

definition audit_successor :: "crypto_env \<Rightarrow> session_config \<Rightarrow> finalised_block_record \<Rightarrow> session_error + unit" where
  "audit_successor E c r =
     (case fr_successor r of
        None \<Rightarrow> Ok ()
      | Some d \<Rightarrow>
          res_bind (declaration_validate_source E d c (frame_root E (fr_frame_input r))) (\<lambda>_.
          ensure (sd_source_session_id d = se_session_id c \<and> sd_source_height d = mb_number (fr_block r)
              \<and> sd_source_state_root d = mb_state_root_after (fr_block r)
              \<and> sd_source_application_profile_commitment d = profile_commitment E (se_application_profile c)
              \<and> se_initial_input_position (sd_target_config d) = ef_input_end (fr_frame r)
              \<and> se_initial_logical_time (sd_target_config d) = ef_logical_time_end (fr_frame r)
              \<and> se_initial_timestamp_ms (sd_target_config d) = mb_timestamp_ms (fr_block r)
              \<and> declaration_commitment E d \<in> set (mb_data_commitments (fr_block r)))
            (SeRecovery ''successor declaration mismatch'')))"

definition audit_issued ::
  "crypto_env \<Rightarrow> session_config \<Rightarrow> finalised_block_record \<Rightarrow> hash32 list \<Rightarrow> session_handoff \<Rightarrow> session_error + hash32 list" where
  "audit_issued E c r ids h =
     res_bind (handoff_validate (mb_timestamp_ms (fr_block r)) h) (\<lambda>_.
     res_bind (ensure (ho_source_session_id h = se_session_id c \<and> ho_source_height h = mb_number (fr_block r)
                \<and> ho_source_state_root h = mb_state_root_after (fr_block r)
                \<and> ho_source_application_profile_commitment h = profile_commitment E (se_application_profile c)
                \<and> ho_source_consensus_module_commitment h = se_consensus_module_commitment c
                \<and> handoff_id E h \<notin> set ids \<and> handoff_id E h \<in> set (mb_data_commitments (fr_block r)))
                (SeRecovery ''issued handoff mismatch'')) (\<lambda>_.
     Ok (handoff_id E h # ids)))"

definition audit_transaction :: "crypto_env \<Rightarrow> u64 \<Rightarrow> bytes \<times> hash32 \<Rightarrow> session_error + u64" where
  "audit_transaction E used item =
     res_bind (add_len (SeRecovery ''transaction byte total overflow'') used (length (fst item))) (\<lambda>used.
     res_bind (map_err (\<lambda>_. SeRecovery ''invalid transaction'') (deserialize_transaction_molecule (fst item))) (\<lambda>tx.
     res_bind (ensure (tx_id E tx = snd item) (SeRecovery ''raw txid mismatch'')) (\<lambda>_. Ok used)))"

definition audit_record ::
  "crypto_env \<Rightarrow> json_env \<Rightarrow> postcard_env \<Rightarrow> session_genesis \<Rightarrow> finality_verifier \<Rightarrow> session_head \<Rightarrow> finalised_block_record
     \<Rightarrow> session_error + session_head" where
  "audit_record E J P genesis v head r =
     (let c = gn_config genesis; b = fr_block r; f = fr_frame r
      in res_bind (validate_resources E J P c r) (\<lambda>_.
         res_bind (ensure (hd_sealed_by_successor head = None)
                    (SeRecovery ''a block appears after the session was sealed'')) (\<lambda>_.
         res_bind (audit_linkage E c head r) (\<lambda>_.
         res_bind (ensure (length (fr_transactions r) = length (mb_ordered_cell_tx_commitments b))
                    (SeRecovery ''payload count mismatch'')) (\<lambda>_.
         res_bind (ensure (take (length (fr_request_data_commitments r)) (mb_data_commitments b) = fr_request_data_commitments r)
                    (SeRecovery ''request data commitments are not the canonical prefix'')) (\<lambda>_.
         res_bind (frame_validate E (se_application_profile c) (fr_frame_input r) f) (\<lambda>_.
         res_bind (ensure (ef_session_id f = se_session_id c \<and> ef_height f = mb_number b
                    \<and> ef_state_root_before f = mb_state_root_before b \<and> ef_state_root_after f = mb_state_root_after b
                    \<and> ef_ordered_cell_tx_commitments f = mb_ordered_cell_tx_commitments b)
                    (SeRecovery ''execution frame mismatch'')) (\<lambda>_.
         res_bind (audit_successor E c r) (\<lambda>_.
         res_bind (fold_res (audit_issued E c r) [] (fr_issued_handoffs r)) (\<lambda>_.
         res_bind (ensure (distinct (fr_consumed_handoff_ids r) \<and>
                     list_all (\<lambda>hid. handoff_consumption_commitment E (se_session_id c) (mb_number b) hid
                                 \<in> set (mb_data_commitments b)) (fr_consumed_handoff_ids r))
                    (SeRecovery ''handoff consumption mismatch'')) (\<lambda>_.
         res_bind (fold_res (audit_transaction E) 0 (zip (fr_transactions r) (mb_ordered_cell_tx_commitments b))) (\<lambda>transaction_bytes.
         res_bind (ensure (xs_transaction_bytes (ef_resources f) = transaction_bytes)
                    (SeRecovery ''execution frame transaction byte mismatch'')) (\<lambda>_.
         res_bind (map_err SeConsensus (fv_verify v b (fr_proof r))) (\<lambda>verified.
         res_bind (map_err SeConsensus (block_hash E b)) (\<lambda>bh.
         res_bind (ensure (vf_block_hash verified = bh \<and> vf_consensus_module_commitment verified = fr_consensus_module_commitment r)
                    (SeRecovery ''finality verifier result mismatch'')) (\<lambda>_.
         Ok \<lparr>hd_session_id = se_session_id c, hd_finalised_height = Some (mb_number b), hd_block_hash = bh,
             hd_state_root = mb_state_root_after b, hd_timestamp_ms = mb_timestamp_ms b, hd_input_position = ef_input_end f,
             hd_logical_time = ef_logical_time_end f,
             hd_sealed_by_successor = map_option (\<lambda>d. se_session_id (sd_target_config d)) (fr_successor r)\<rparr>))))))))))))))))"

end
