(* ===== verification/Session_Audit.thy ===== *)
theory Session_Audit
  imports Session_Chain
begin

text \<open>
  The life of a session chain: histories of commits, the audit that recovery runs over the stored
  records, and what an audited list of records says about the chain.
\<close>

section \<open>From a prepared block to its audit\<close>

lemma resolve_consumed_Ok:
  assumes "resolve_consumed E J P Sto ch ts (u, ids, cs) hid = Ok (u', ids', cs')"
  shows "\<exists>h. ids' = hid # ids \<and> cs' = cs @ [h] \<and> handoff_id E h = hid \<and> hid \<notin> set ids"
  using assms by (auto simp: resolve_consumed_def Let_def res_simps)

lemma resolve_all_consumed:
  assumes "fold_res (resolve_consumed E J P Sto ch ts) (u, ids, cs) hs = Ok (u', ids', cs')"
  shows "map (handoff_id E) cs' = map (handoff_id E) cs @ hs \<and> distinct hs \<and> set hs \<inter> set ids = {}"
  using assms
proof (induction hs arbitrary: u ids cs)
  case (Cons h hs)
  from Cons.prems obtain u1 ids1 cs1 where 1: "resolve_consumed E J P Sto ch ts (u, ids, cs) h = Ok (u1, ids1, cs1)"
    and 2: "fold_res (resolve_consumed E J P Sto ch ts) (u1, ids1, cs1) hs = Ok (u', ids', cs')"
    by (auto simp: res_simps)
  from resolve_consumed_Ok[OF 1] Cons.IH[OF 2] show ?case by auto
qed simp

lemma canonical_transactions:
  assumes "map_res (canonical_txid E) txs = Ok txids"
    and "fold_res (\<lambda>used tx. add_len e used (length tx)) a txs = Ok t"
  shows "length txids = length txs \<and> fold_res (audit_transaction E) a (zip txs txids) = Ok t"
  using assms
proof (induction txs arbitrary: txids a)
  case (Cons tx txs)
  from Cons.prems(1) obtain h hs where h: "canonical_txid E tx = Ok h" "map_res (canonical_txid E) txs = Ok hs" "txids = h # hs"
    by (auto simp: res_simps)
  from Cons.prems(2) obtain a1 where a1: "add_len e a (length tx) = Ok a1"
    "fold_res (\<lambda>used tx. add_len e used (length tx)) a1 txs = Ok t" by (auto simp: res_simps)
  from h(1) obtain x where "deserialize_transaction_molecule tx = Ok x" "tx_id E x = h"
    by (auto simp: canonical_txid_def res_simps)
  with a1(1) have "audit_transaction E a (tx, h) = Ok a1"
    by (simp add: audit_transaction_def res_simps add_len_Ok)
  with Cons.IH[OF h(2) a1(2)] h(3) show ?case by simp
qed simp

definition issued_ok :: "crypto_env \<Rightarrow> session_config \<Rightarrow> u64 \<Rightarrow> hash32 \<Rightarrow> u64 \<Rightarrow> session_handoff \<Rightarrow> bool" where
  "issued_ok E c height root ts h \<longleftrightarrow>
     validate_handoff_fields (ho_target h) (ho_expires_at_ms h) (length (ho_payload h)) (length (ho_authorization h))
       (ho_evidence_requirement h) = Ok ()
     \<and> ts < ho_expires_at_ms h \<and> ho_source_session_id h = se_session_id c \<and> ho_source_height h = height
     \<and> ho_source_state_root h = root
     \<and> ho_source_application_profile_commitment h = profile_commitment E (se_application_profile c)
     \<and> ho_source_consensus_module_commitment h = se_consensus_module_commitment c"

lemma issue_handoffs_Ok:
  assumes "fold_res (issue_handoff E c height root ts) hs is = Ok issued"
    and "\<forall>h\<in>set hs. issued_ok E c height root ts h" "distinct (map (handoff_id E) hs)"
  shows "(\<forall>h\<in>set issued. issued_ok E c height root ts h) \<and> distinct (map (handoff_id E) issued)"
  using assms
proof (induction "is" arbitrary: hs)
  case (Cons i "is")
  from Cons.prems(1) obtain hs' where step: "issue_handoff E c height root ts hs i = Ok hs'"
    and rest': "fold_res (issue_handoff E c height root ts) hs' is = Ok issued"
    by (auto simp: res_simps)
  from step obtain h where
    h: "handoff_from_intent (se_session_id c) height root (profile_commitment E (se_application_profile c))
         (se_consensus_module_commitment c) ts i = Ok h" "handoff_id E h \<notin> handoff_id E ` set hs" "hs' = hs @ [h]"
    by (auto simp: issue_handoff_def res_simps)
  note rest = rest' [unfolded h(3)]
  have "issued_ok E c height root ts h" using h(1) by (auto simp: handoff_from_intent_def res_simps issued_ok_def)
  with h(2) Cons.prems(2,3) show ?case by (intro Cons.IH[OF rest]) auto
qed simp

lemma audit_all_issued:
  assumes "\<forall>h\<in>set hs. issued_ok E c height root ts h" "distinct (map (handoff_id E) hs)" "handoff_id E ` set hs \<inter> set ids = {}"
    and "se_session_id c \<noteq> zero32" "root \<noteq> zero32" "profile_commitment E (se_application_profile c) \<noteq> zero32"
      "se_consensus_module_commitment c \<noteq> zero32"
    and "mb_timestamp_ms (fr_block r) = ts" "mb_number (fr_block r) = height" "mb_state_root_after (fr_block r) = root"
    and "handoff_id E ` set hs \<subseteq> set (mb_data_commitments (fr_block r))"
  shows "\<exists>ids'. fold_res (audit_issued E c r) ids hs = Ok ids'"
  using assms(1-3,11)
proof (induction hs arbitrary: ids)
  case (Cons h hs)
  have "audit_issued E c r ids h = Ok (handoff_id E h # ids)"
    using Cons.prems assms(4-10) by (auto simp: audit_issued_def handoff_validate_def issued_ok_def res_simps)
  moreover have "\<exists>ids'. fold_res (audit_issued E c r) (handoff_id E h # ids) hs = Ok ids'"
    using Cons.prems by (intro Cons.IH) auto
  ultimately show ?case by simp
qed simp

lemma check_request_Ok:
  assumes "check_request E P Sto ch q = Ok (usage, total_bytes, height)"
  shows "hd_sealed_by_successor (ch_head ch) = None" "fi_start_position (rq_frame_input q) = hd_input_position (ch_head ch)"
    "fi_logical_time_start (rq_frame_input q) = hd_logical_time (ch_head ch)"
    "total_transaction_bytes (SeBlockLimit ''transaction bytes overflow'') (rq_transactions q) = Ok total_bytes"
    "hd_timestamp_ms (ch_head ch) \<le> rq_timestamp_ms q" "next_height (ch_head ch) = Ok height"
  using assms by (auto simp: check_request_def Let_def res_simps)

text \<open>What the audit will ask of a candidate, established when it is prepared.\<close>

definition prepared_linkage :: "crypto_env \<Rightarrow> session_config \<Rightarrow> session_head \<Rightarrow> 'e prepared_block \<Rightarrow> bool" where
  "prepared_linkage E c head p \<longleftrightarrow>
     (let b = pb_block p; f = pb_frame p
      in hd_sealed_by_successor head = None \<and> next_height head = Ok (mb_number b) \<and> mb_version b = 6
         \<and> mb_parent_hash b = hd_block_hash head \<and> mb_session_id b = se_session_id c
         \<and> mb_state_root_before b = hd_state_root head \<and> hd_timestamp_ms head \<le> mb_timestamp_ms b
         \<and> ef_input_start f = hd_input_position head \<and> ef_logical_time_start f = hd_logical_time head
         \<and> mb_consensus_kind b = se_consensus_kind c
         \<and> mb_application_profile_commitment b = profile_commitment E (se_application_profile c)
         \<and> mb_execution_frame_commitment b = frame_commitment E f
         \<and> take (length (pb_request_data_commitments p)) (mb_data_commitments b) = pb_request_data_commitments p)"

definition prepared_frame :: "crypto_env \<Rightarrow> session_config \<Rightarrow> 'e prepared_block \<Rightarrow> bool" where
  "prepared_frame E c p \<longleftrightarrow>
     (let b = pb_block p; f = pb_frame p
      in frame_validate E (se_application_profile c) (pb_frame_input p) f = Ok ()
         \<and> ef_session_id f = se_session_id c \<and> ef_height f = mb_number b
         \<and> ef_state_root_before f = mb_state_root_before b \<and> ef_state_root_after f = mb_state_root_after b
         \<and> ef_ordered_cell_tx_commitments f = mb_ordered_cell_tx_commitments b
         \<and> length (pb_transactions p) = length (mb_ordered_cell_tx_commitments b)
         \<and> fold_res (audit_transaction E) 0 (zip (pb_transactions p) (mb_ordered_cell_tx_commitments b))
             = Ok (xs_transaction_bytes (ef_resources f)))"

definition prepared_handoffs :: "crypto_env \<Rightarrow> session_config \<Rightarrow> 'e prepared_block \<Rightarrow> bool" where
  "prepared_handoffs E c p \<longleftrightarrow>
     (let b = pb_block p; data = mb_data_commitments b; ids = map (handoff_id E) (pb_consumed_handoffs p)
      in (\<forall>h\<in>set (pb_issued_handoffs p). issued_ok E c (mb_number b) (mb_state_root_after b) (mb_timestamp_ms b) h)
         \<and> distinct (map (handoff_id E) (pb_issued_handoffs p)) \<and> handoff_id E ` set (pb_issued_handoffs p) \<subseteq> set data
         \<and> distinct ids \<and> list_all (\<lambda>hid. handoff_consumption_commitment E (se_session_id c) (mb_number b) hid \<in> set data) ids)"

definition prepared_successor :: "crypto_env \<Rightarrow> session_config \<Rightarrow> 'e prepared_block \<Rightarrow> bool" where
  "prepared_successor E c p \<longleftrightarrow>
     (case pb_successor p of
        None \<Rightarrow> True
      | Some d \<Rightarrow>
          sd_source_session_id d = se_session_id c \<and> sd_source_height d = mb_number (pb_block p)
          \<and> sd_source_state_root d = mb_state_root_after (pb_block p)
          \<and> sd_source_application_profile_commitment d = profile_commitment E (se_application_profile c)
          \<and> se_initial_input_position (sd_target_config d) = ef_input_end (pb_frame p)
          \<and> se_initial_logical_time (sd_target_config d) = ef_logical_time_end (pb_frame p)
          \<and> se_initial_timestamp_ms (sd_target_config d) = mb_timestamp_ms (pb_block p)
          \<and> declaration_commitment E d \<in> set (mb_data_commitments (pb_block p)))"

lemma declare_successor_Ok:
  assumes "declare_successor E X candidate c q height snapshot = Ok (Some d)"
  shows "sd_source_session_id d = se_session_id c" "sd_source_height d = height"
    "sd_source_state_root d = ex_state_root X candidate"
    "sd_source_application_profile_commitment d = profile_commitment E (se_application_profile c)"
    "se_initial_input_position (sd_target_config d) = fi_end_position (rq_frame_input q)"
    "se_initial_logical_time (sd_target_config d) = fi_logical_time_end (rq_frame_input q)"
    "se_initial_timestamp_ms (sd_target_config d) = rq_timestamp_ms q"
  using assms by (auto simp: declare_successor_def Let_def res_simps split: option.splits)

lemma prepare_block_Ok:
  assumes "prepare_block E J P X Sto ch q = Ok p"
  obtains usage total_bytes height usage' ids consumed txids issued successor candidate snapshot outcome data
  where "check_request E P Sto ch q = Ok (usage, total_bytes, height)"
    "fold_res (resolve_consumed E J P Sto ch (rq_timestamp_ms q)) (usage, [], []) (rq_consume_handoffs q)
       = Ok (usage', ids, consumed)"
    "map_res (canonical_txid E) (rq_transactions q) = Ok txids"
    "fold_res (issue_handoff E (ch_config ch) height (ex_state_root X candidate) (rq_timestamp_ms q)) [] (rq_handoffs q)
       = Ok issued"
    "frame_validate E (se_application_profile (ch_config ch)) (rq_frame_input q)
       (candidate_frame E (ch_config ch) (ch_head ch) q height total_bytes (ex_state_root X candidate) outcome) = Ok ()"
    "declare_successor E X candidate (ch_config ch) q height snapshot = Ok successor"
    "pb_block p = candidate_block E (ch_config ch) (ch_head ch) q height (ex_state_root X candidate) outcome (pb_frame p)
       (rq_data_commitments q @ data)"
    "set (map (handoff_id E) issued
        @ map (handoff_consumption_commitment E (se_session_id (ch_config ch)) height) (rq_consume_handoffs q)
        @ (case successor of None \<Rightarrow> [] | Some d \<Rightarrow> [declaration_commitment E d])) \<subseteq> set data"
    "oc_ordered_cell_tx_commitments outcome = txids" "pb_consumed_handoffs p = consumed"
      "pb_issued_handoffs p = issued" "pb_successor p = successor" "pb_base_head p = ch_head ch" "pb_transactions p = rq_transactions q"
    "pb_frame p = candidate_frame E (ch_config ch) (ch_head ch) q height total_bytes (ex_state_root X candidate) outcome"
    "pb_frame_input p = rq_frame_input q" "pb_request_data_commitments p = rq_data_commitments q"
    "ex_state_root X (ch_executor ch) = hd_state_root (ch_head ch)" "pb_executor p = candidate"
proof -
  from assms show thesis
    unfolding prepare_block_def Let_def
    apply (clarsimp simp: res_simps check_outcome_def simp del: append_assoc)
    apply (rule that)
                    apply (assumption | (simp; fail) | (simp, rule refl) | (simp, blast))+
    done
qed

lemma prepare_block_audit_facts:
  assumes "prepare_block E J P X Sto ch q = Ok p"
  shows "pb_base_head p = ch_head ch" "prepared_linkage E (ch_config ch) (ch_head ch) p" "prepared_frame E (ch_config ch) p"
    "prepared_handoffs E (ch_config ch) p" "prepared_successor E (ch_config ch) p"
proof -
  obtain usage total_bytes height usage' ids consumed txids issued successor candidate snapshot outcome data where
    chk: "check_request E P Sto ch q = Ok (usage, total_bytes, height)"
    and cons: "fold_res (resolve_consumed E J P Sto ch (rq_timestamp_ms q)) (usage, [], []) (rq_consume_handoffs q)
       = Ok (usage', ids, consumed)"
    and txs: "map_res (canonical_txid E) (rq_transactions q) = Ok txids"
    and iss: "fold_res (issue_handoff E (ch_config ch) height (ex_state_root X candidate) (rq_timestamp_ms q)) [] (rq_handoffs q)
       = Ok issued"
    and fv: "frame_validate E (se_application_profile (ch_config ch)) (rq_frame_input q)
       (candidate_frame E (ch_config ch) (ch_head ch) q height total_bytes (ex_state_root X candidate) outcome) = Ok ()"
    and succ: "declare_successor E X candidate (ch_config ch) q height snapshot = Ok successor"
    and b: "pb_block p = candidate_block E (ch_config ch) (ch_head ch) q height (ex_state_root X candidate) outcome (pb_frame p)
       (rq_data_commitments q @ data)"
    and data: "set (map (handoff_id E) issued
        @ map (handoff_consumption_commitment E (se_session_id (ch_config ch)) height) (rq_consume_handoffs q)
        @ (case successor of None \<Rightarrow> [] | Some d \<Rightarrow> [declaration_commitment E d])) \<subseteq> set data"
    and p: "oc_ordered_cell_tx_commitments outcome = txids" "pb_consumed_handoffs p = consumed"
      "pb_issued_handoffs p = issued" "pb_successor p = successor" "pb_base_head p = ch_head ch" "pb_transactions p = rq_transactions q"
      "pb_frame p = candidate_frame E (ch_config ch) (ch_head ch) q height total_bytes (ex_state_root X candidate) outcome"
      "pb_frame_input p = rq_frame_input q" "pb_request_data_commitments p = rq_data_commitments q"
    by (rule prepare_block_Ok[OF assms])
  note req = check_request_Ok[OF chk]
  show "pb_base_head p = ch_head ch" by (fact p(5))
  show "prepared_linkage E (ch_config ch) (ch_head ch) p"
    using req p by (simp add: prepared_linkage_def Let_def b candidate_block_def candidate_frame_def)
  show "prepared_frame E (ch_config ch) p"
    using fv p canonical_transactions[OF txs req(4)[unfolded total_transaction_bytes_def]]
    by (simp add: prepared_frame_def Let_def b candidate_block_def candidate_frame_def)
  show "prepared_handoffs E (ch_config ch) p"
    using issue_handoffs_Ok[OF iss] resolve_all_consumed[OF cons] data p
    by (auto simp: prepared_handoffs_def Let_def b candidate_block_def list_all_iff)
  show "prepared_successor E (ch_config ch) p"
    using succ p data by (auto simp: prepared_successor_def b candidate_block_def candidate_frame_def declare_successor_Ok
        split: option.splits)
qed

lemma commit_finalised_Ok:
  assumes "commit_finalised E J P Sto ch p proof = Ok ch'"
  obtains vf where "pb_base_head p = ch_head ch" "fv_verify (ch_finality_verifier ch) (pb_block p) proof = Ok vf"
    "block_hash E (pb_block p) = Ok (vf_block_hash vf)"
    "vf_consensus_module_commitment vf = se_consensus_module_commitment (ch_config ch)"
    "validate_resources E J P (ch_config ch) (committed_record E p (se_consensus_module_commitment (ch_config ch)) proof) = Ok ()"
    "ch_head ch' = committed_head (ch_config ch) p (vf_block_hash vf)"
    "ch_config ch' = ch_config ch" "ch_finality_verifier ch' = ch_finality_verifier ch" "ch_executor ch' = pb_executor p"
proof -
  from assms show thesis
    unfolding commit_finalised_def Let_def
    by (clarsimp simp: res_simps) (rule that; (assumption | simp))
qed

lemma config_validate_ids:
  assumes "config_validate c = Ok ()"
  shows "se_session_id c \<noteq> zero32" "se_consensus_module_commitment c \<noteq> zero32"
  using assms by (auto simp: config_validate_def res_simps)

lemma validate_resources_successor:
  assumes "validate_resources E J P c r = Ok ()" "fr_successor r = Some d"
  shows "declaration_validate_source E d c (frame_root E (fr_frame_input r)) = Ok ()"
  using assms by (auto simp: validate_resources_def res_simps)

lemma frame_validate_roots:
  assumes "frame_validate E a input f = Ok ()"
  shows "ef_state_root_after f \<noteq> zero32"
  using assms by (auto simp: frame_validate_def res_simps)

lemma prepared_block_audits:
  assumes prep: "prepare_block E J P X Sto ch0 q = Ok p" and same: "ch_config ch0 = ch_config ch"
    and com: "commit_finalised E J P Sto' ch p proof = Ok ch'"
    and cfg: "config_validate (ch_config ch) = Ok ()"
    and prof: "profile_commitment E (se_application_profile (ch_config ch)) \<noteq> zero32"
    and g: "gn_config g = ch_config ch"
  shows "audit_record E J P g (ch_finality_verifier ch) (ch_head ch)
           (committed_record E p (se_consensus_module_commitment (ch_config ch)) proof) = Ok (ch_head ch')"
proof -
  let ?c = "ch_config ch" and ?r = "committed_record E p (se_consensus_module_commitment (ch_config ch)) proof"
  from com obtain vf where base: "pb_base_head p = ch_head ch"
    and vf: "fv_verify (ch_finality_verifier ch) (pb_block p) proof = Ok vf"
      "block_hash E (pb_block p) = Ok (vf_block_hash vf)" "vf_consensus_module_commitment vf = se_consensus_module_commitment ?c"
    and res: "validate_resources E J P ?c ?r = Ok ()" and head': "ch_head ch' = committed_head ?c p (vf_block_hash vf)"
    by (rule commit_finalised_Ok)
  note facts = prepare_block_audit_facts[OF prep, unfolded same]
  have link: "prepared_linkage E ?c (ch_head ch) p" using facts(1,2) base by simp
  have lk: "audit_linkage E ?c (ch_head ch) ?r = Ok ()"
    using link by (simp add: audit_linkage_def prepared_linkage_def committed_record_def Let_def res_simps)
  have su: "audit_successor E ?c ?r = Ok ()"
    using facts(5) validate_resources_successor[OF res]
    by (auto simp: audit_successor_def prepared_successor_def committed_record_def res_simps split: option.splits)
  have root: "mb_state_root_after (pb_block p) \<noteq> zero32"
    using facts(3) frame_validate_roots[of E _ "pb_frame_input p" "pb_frame p"] by (auto simp: prepared_frame_def Let_def)
  obtain ids where iss: "fold_res (audit_issued E ?c ?r) [] (pb_issued_handoffs p) = Ok ids"
    using audit_all_issued[of "pb_issued_handoffs p" E ?c "mb_number (pb_block p)" "mb_state_root_after (pb_block p)"
        "mb_timestamp_ms (pb_block p)" "[]" ?r] facts(4) root prof config_validate_ids[OF cfg]
    by (auto simp: prepared_handoffs_def committed_record_def Let_def)
  show ?thesis
    unfolding audit_record_def Let_def g
    using res lk su iss link facts(3,4) vf
    by (simp add: committed_record_def prepared_linkage_def prepared_frame_def prepared_handoffs_def Let_def res_simps
        head' committed_head_def)
qed

section \<open>Histories\<close>

text \<open>
  The records a session commits, from its creation. A candidate may have been prepared at any
  earlier state of the chain, and the shared store may change between two commits.
\<close>

inductive session_history ::
  "crypto_env \<Rightarrow> json_env \<Rightarrow> postcard_env \<Rightarrow> 'e transition_executor \<Rightarrow> 'st session_store \<Rightarrow> session_config \<Rightarrow> finality_verifier
     \<Rightarrow> finalised_block_record list \<Rightarrow> ('e, 'st) session_chain \<Rightarrow> bool"
  for E J P X Sto c v where
  created: "chain_create E X Sto c v ex st = Ok ch \<Longrightarrow> session_history E J P X Sto c v [] ch"
| shared: "session_history E J P X Sto c v rs ch \<Longrightarrow> session_history E J P X Sto c v rs (ch\<lparr>ch_store := st\<rparr>)"
| committed: "session_history E J P X Sto c v rs ch \<Longrightarrow> session_history E J P X Sto c v rs' ch0
    \<Longrightarrow> prepare_block E J P X Sto ch0 q = Ok p \<Longrightarrow> commit_finalised E J P Sto ch p pf = Ok ch'
    \<Longrightarrow> session_history E J P X Sto c v (rs @ [committed_record E p (se_consensus_module_commitment c) pf]) ch'"

lemma history_fixed:
  assumes "session_history E J P X Sto c v rs ch"
  shows "ch_config ch = c \<and> ch_finality_verifier ch = v \<and> config_validate c = Ok ()"
  using assms
proof induction
  case (created ex st ch)
  then show ?case by (auto simp: chain_create_def Let_def res_simps)
next
  case (committed rs ch rs' ch0 q p pf ch')
  from committed.hyps(4) show ?case by (rule commit_finalised_Ok) (use committed.IH(1) in simp)
qed simp

lemma history_audits:
  assumes "session_history E J P X Sto c v rs ch"
    and prof: "profile_commitment E (se_application_profile c) \<noteq> zero32" and g: "gn_config g = c"
  shows "fold_res (audit_record E J P g v) (genesis_head g) rs = Ok (ch_head ch)"
  using assms(1)
proof induction
  case (created ex st ch)
  then show ?case by (auto simp: chain_create_def Let_def res_simps genesis_head_def g)
next
  case (committed rs ch rs' ch0 q p pf ch')
  note fixed = history_fixed[OF committed.hyps(1)] and fixed0 = history_fixed[OF committed.hyps(2)]
  have "audit_record E J P g v (ch_head ch) (committed_record E p (se_consensus_module_commitment c) pf) = Ok (ch_head ch')"
    using prepared_block_audits[OF committed.hyps(3) _ committed.hyps(4), of g] fixed fixed0 prof g by simp
  then show ?case by (simp add: fold_res_snoc committed.IH(1))
qed simp

section \<open>Audited chains\<close>

lemma audit_record_Ok:
  assumes "audit_record E J P g v head r = Ok head'"
  shows "validate_resources E J P (gn_config g) r = Ok ()" "hd_sealed_by_successor head = None"
    "next_height head = Ok (mb_number (fr_block r))" "mb_parent_hash (fr_block r) = hd_block_hash head"
    "mb_session_id (fr_block r) = se_session_id (gn_config g)" "mb_state_root_before (fr_block r) = hd_state_root head"
    "hd_timestamp_ms head \<le> mb_timestamp_ms (fr_block r)" "ef_input_start (fr_frame r) = hd_input_position head"
    "ef_logical_time_start (fr_frame r) = hd_logical_time head"
    "hd_finalised_height head' = Some (mb_number (fr_block r))" "block_hash E (fr_block r) = Ok (hd_block_hash head')"
    "hd_state_root head' = mb_state_root_after (fr_block r)" "hd_timestamp_ms head' = mb_timestamp_ms (fr_block r)"
    "hd_input_position head' = ef_input_end (fr_frame r)" "hd_logical_time head' = ef_logical_time_end (fr_frame r)"
    "hd_sealed_by_successor head' = map_option (\<lambda>d. se_session_id (sd_target_config d)) (fr_successor r)"
  using assms by (auto simp: audit_record_def audit_linkage_def Let_def res_simps split: if_splits)

lemma audit_snoc:
  assumes "fold_res (audit_record E J P g v) head0 (rs @ [r]) = Ok head'"
  obtains head where "fold_res (audit_record E J P g v) head0 rs = Ok head" "audit_record E J P g v head r = Ok head'"
  using assms by (auto simp: fold_res_snoc res_simps)

lemma audited_heights:
  assumes "fold_res (audit_record E J P g v) (genesis_head g) rs = Ok head"
  shows "hd_finalised_height head = (if rs = [] then None else Some (word_of_nat (length rs - 1))) \<and> length rs \<le> 2 ^ 64
    \<and> map (\<lambda>r. mb_number (fr_block r)) rs = map word_of_nat [0..<length rs]"
  using assms
proof (induction rs arbitrary: head rule: rev_induct)
  case Nil
  then show ?case by (auto simp: genesis_head_def Let_def)
next
  case (snoc r rs)
  from snoc.prems obtain head1 where 1: "fold_res (audit_record E J P g v) (genesis_head g) rs = Ok head1"
    and 2: "audit_record E J P g v head1 r = Ok head" by (rule audit_snoc)
  note IH = snoc.IH[OF 1] and step = audit_record_Ok[OF 2]
  show ?case
  proof (cases rs)
    case Nil
    then show ?thesis using IH step(3,10) by (simp add: next_height_def)
  next
    case (Cons x xs)
    then have "checked_add (word_of_nat (length xs)) 1 = Some (mb_number (fr_block r))"
      using IH step(3) by (auto simp: next_height_def res_simps split: option.splits)
    moreover have "length xs < 2 ^ 64" using IH Cons by simp
    ultimately have n: "unat (mb_number (fr_block r)) = length rs"
      using Cons by (simp add: checked_add_eq_Some unat_of_nat)
    have "mb_number (fr_block r) = word_of_nat (length rs)" by (simp flip: n)
    moreover have "length rs < 2 ^ 64" using unsigned_less[of "mb_number (fr_block r)", where 'a = nat] n by simp
    ultimately have "mb_number (fr_block r) = word_of_nat (length rs) \<and> length rs < 2 ^ 64" ..
    then show ?thesis using IH step(10) Cons by simp
  qed
qed

lemma audited_links:
  assumes "fold_res (audit_record E J P g v) head0 rs = Ok head" "Suc i < length rs"
  shows "block_hash E (fr_block (rs ! i)) = Ok (mb_parent_hash (fr_block (rs ! Suc i)))
    \<and> mb_state_root_before (fr_block (rs ! Suc i)) = mb_state_root_after (fr_block (rs ! i))
    \<and> mb_timestamp_ms (fr_block (rs ! i)) \<le> mb_timestamp_ms (fr_block (rs ! Suc i))
    \<and> ef_input_start (fr_frame (rs ! Suc i)) = ef_input_end (fr_frame (rs ! i))
    \<and> ef_logical_time_start (fr_frame (rs ! Suc i)) = ef_logical_time_end (fr_frame (rs ! i))
    \<and> fr_successor (rs ! i) = None"
  using assms
proof (induction rs arbitrary: head0 i)
  case (Cons r rs)
  from Cons.prems(1) obtain head1 where 1: "audit_record E J P g v head0 r = Ok head1"
    and 2: "fold_res (audit_record E J P g v) head1 rs = Ok head" by (auto simp: res_simps)
  show ?case
  proof (cases i)
    case 0
    with Cons.prems(2) obtain r' rs' where rs: "rs = r' # rs'" by (cases rs) auto
    with 2 obtain head2 where "audit_record E J P g v head1 r' = Ok head2" by (auto simp: res_simps)
    from audit_record_Ok[OF 1] audit_record_Ok[OF this] show ?thesis by (simp add: 0 rs)
  next
    case (Suc j)
    then show ?thesis using Cons.IH[OF 2, of j] Cons.prems(2) by simp
  qed
qed simp

lemma audited_last:
  assumes "fold_res (audit_record E J P g v) head0 rs = Ok head" "rs \<noteq> []"
  shows "block_hash E (fr_block (last rs)) = Ok (hd_block_hash head)"
  using assms by (cases rs rule: rev_cases) (auto simp: fold_res_snoc res_simps dest: audit_record_Ok(11))

text \<open>Two record lists under one block hash: equal blocks, or two different blocks with one hash.\<close>

lemma audited_same_head:
  assumes "fold_res (audit_record E J P g v) (genesis_head g) rs = Ok head"
    and "fold_res (audit_record E J P g v') (genesis_head g) rs' = Ok head'"
    and "length rs = length rs'" "hd_block_hash head = hd_block_hash head'"
  shows "map fr_block rs = map fr_block rs' \<or>
    (\<exists>i<length rs. fr_block (rs ! i) \<noteq> fr_block (rs' ! i) \<and> block_hash E (fr_block (rs ! i)) = block_hash E (fr_block (rs' ! i)))"
  using assms
proof (induction rs arbitrary: rs' head head' rule: rev_induct)
  case (snoc r rs)
  from snoc.prems(3) obtain r' ss where rs': "rs' = ss @ [r']" by (cases rs' rule: rev_cases) auto
  from snoc.prems(1) obtain h1 where 1: "fold_res (audit_record E J P g v) (genesis_head g) rs = Ok h1"
    "audit_record E J P g v h1 r = Ok head" by (rule audit_snoc)
  from snoc.prems(2)[unfolded rs'] obtain h2 where 2: "fold_res (audit_record E J P g v') (genesis_head g) ss = Ok h2"
    "audit_record E J P g v' h2 r' = Ok head'" by (rule audit_snoc)
  have len: "length rs = length ss" using snoc.prems(3) rs' by simp
  have hash: "block_hash E (fr_block r) = block_hash E (fr_block r')"
    using audit_record_Ok(11)[OF 1(2)] audit_record_Ok(11)[OF 2(2)] snoc.prems(4) by simp
  show ?case
  proof (cases "fr_block r = fr_block r'")
    case True
    then have "hd_block_hash h1 = hd_block_hash h2"
      using audit_record_Ok(4)[OF 1(2)] audit_record_Ok(4)[OF 2(2)] by simp
    from snoc.IH[OF 1(1) 2(1) len this] show ?thesis
      using True len by (auto simp: rs' nth_append intro: exI)
  next
    case False
    then show ?thesis using hash len by (intro disjI2 exI[of _ "length rs"]) (simp add: rs' nth_append)
  qed
qed simp

section \<open>A concrete session\<close>

definition nonzero_env :: crypto_env where
  "nonzero_env = toy_env\<lparr>cr_blake3 := (\<lambda>bs. 1 # take 31 (toy_digest bs))\<rparr>"

lemma nonzero_digest [simp]: "cr_blake3 nonzero_env bs \<noteq> zero32" "length (cr_blake3 nonzero_env bs) = 32"
proof -
  have "hd (cr_blake3 nonzero_env bs) \<noteq> hd zero32" by (simp add: nonzero_env_def)
  then show "cr_blake3 nonzero_env bs \<noteq> zero32" by metis
  show "length (cr_blake3 nonzero_env bs) = 32" by (simp add: nonzero_env_def toy_digest_def)
qed

definition small_json :: json_env where
  "small_json = toy_json\<lparr>js_envelope_to_vec := (\<lambda>_. Ok [101])\<rparr>"

definition small_postcard :: postcard_env where
  "small_postcard = \<lparr>pc_frame_input = fi_payload, pc_intent = hi_payload, pc_effects_context = px_pre_state_root,
     pc_actions = fst, pc_record = rr_proof, pc_config = (\<lambda>k c. se_session_id c),
     pc_take_config = (\<lambda>_. Err ''unsupported'')\<rparr>"

definition sample_descriptor :: consensus_module_descriptor where
  "sample_descriptor = \<lparr>md_module_name = ''m'', md_module_protocol_version = 1, md_consensus_kind = StaticClosedCommittee,
     md_proof_schema_hash = replicate 32 1, md_message_schema_hash = replicate 32 2, md_wal_schema_hash = replicate 32 3,
     md_config_commitment = replicate 32 4, md_capabilities = 0\<rparr>"

definition sample_profile :: application_profile where
  "sample_profile = \<lparr>ap_command_identity_required = False, ap_application_id = ''app'', ap_program_digest = replicate 32 1,
     ap_input_schema_hash = replicate 32 1, ap_state_codec_hash = replicate 32 1, ap_logical_time_policy_hash = replicate 32 1,
     ap_entropy_policy_hash = replicate 32 1, ap_vm = \<lparr>vm_spawn_ipc_required = False\<rparr>,
     ap_resources = \<lparr>re_max_frame_inputs = 8, re_max_frame_input_bytes = 8, re_max_frame_cycles = 8, re_max_logical_time_span = 8,
        re_max_inspect_query_bytes = 8, re_max_inspect_result_bytes = 8\<rparr>,
     ap_court_profile_hash = replicate 32 1, ap_handoff_policy_hash = replicate 32 1\<rparr>"

definition sample_limits :: commit_resource_limits where
  "sample_limits = \<lparr>cl_version = 1, cl_max_frame_bytes = 64, cl_max_issued_handoffs = 4, cl_max_consumed_handoffs = 4,
     cl_max_handoff_payload_bytes = 64, cl_max_authorization_bytes = 64, cl_max_data_commitments = 16,
     cl_max_outbox_messages = 4, cl_max_outbox_bytes = 64, cl_max_snapshot_bytes = 64, cl_max_record_bytes = 1024\<rparr>"

definition sample_session :: session_config where
  "sample_session = \<lparr>se_session_id = replicate 32 9, se_consensus_kind = StaticClosedCommittee,
     se_consensus_config_commitment = replicate 32 4,
     se_consensus_module_commitment = descriptor_commitment nonzero_env sample_descriptor,
     se_consensus_wal_schema_hash = replicate 32 3, se_application_profile = sample_profile,
     se_initial_state_root = replicate 32 7, se_initial_input_position = 5, se_initial_logical_time = 6,
     se_initial_timestamp_ms = 100, se_predecessor = None, se_max_block_transactions = 4, se_max_block_bytes = 64,
     se_max_future_drift_ms = 10, se_commit_limits = sample_limits, se_protocol_effects = EffectsDisabled\<rparr>"

definition sample_verifier :: finality_verifier where
  "sample_verifier = \<lparr>fv_descriptor = sample_descriptor,
     fv_verify = (\<lambda>b _. res_bind (block_hash nonzero_env b) (\<lambda>h.
       Ok \<lparr>vf_block_hash = h, vf_consensus_module_commitment = descriptor_commitment nonzero_env sample_descriptor\<rparr>))\<rparr>"

text \<open>An executor that keeps its root and reports no effect, and a store that keeps nothing.\<close>

definition idle_executor :: "unit transition_executor" where
  "idle_executor = \<lparr>ex_state_root = (\<lambda>_. replicate 32 7),
     ex_execute = (\<lambda>ex _ _ _ _ _. Ok (\<lparr>oc_ordered_cell_tx_commitments = [], oc_data_commitments = [], oc_outbox = [],
        oc_cycles = 3\<rparr>, ex)),
     ex_prepare_successor_state = (\<lambda>_ _ _ _. Err ''unsupported''), ex_snapshot = (\<lambda>_. Ok [1, 2])\<rparr>"

definition null_store :: "unit session_store" where
  "null_store = \<lparr>so_create_session = (\<lambda>st _ _. Ok st), so_load_genesis = (\<lambda>_ _. Err (StNotFound ''genesis'')),
     so_load_head = (\<lambda>_ _. Err (StNotFound ''head'')), so_load_block = (\<lambda>_ _ _. Err (StNotFound ''block'')),
     so_load_command_receipt = (\<lambda>_ _ _. Ok None), so_commit_block = (\<lambda>st _ _ _. Ok st),
     so_load_evidence = (\<lambda>_ _ _. Ok None), so_load_handoff = (\<lambda>_ _. Ok None)\<rparr>"

definition sample_request :: "session_head \<Rightarrow> block_request" where
  "sample_request head = \<lparr>rq_transactions = [],
     rq_frame_input = \<lparr>fi_commands = [], fi_start_position = hd_input_position head, fi_end_position = hd_input_position head + 1,
        fi_logical_time_start = hd_logical_time head, fi_logical_time_end = hd_logical_time head + 1, fi_payload = [4]\<rparr>,
     rq_scheduler_commitment = replicate 32 0, rq_data_commitments = [replicate 32 8], rq_timestamp_ms = hd_timestamp_ms head,
     rq_local_now_ms = 200, rq_successor = None, rq_handoffs = [], rq_consume_handoffs = [], rq_handoff_actions = []\<rparr>"

definition sample_chain :: "session_head \<Rightarrow> (unit, unit) session_chain" where
  "sample_chain head = \<lparr>ch_config = sample_session, ch_head = head, ch_finality_verifier = sample_verifier, ch_executor = (),
     ch_store = ()\<rparr>"

lemmas sample_defs = sample_chain_def sample_session_def sample_limits_def sample_profile_def sample_verifier_def
  idle_executor_def null_store_def small_postcard_def sample_descriptor_def

lemma sample_session_valid: "config_validate sample_session = Ok ()"
  by (simp add: config_validate_def sample_defs res_simps profile_validate_def envelope_validate_def limits_validate_def
      descriptor_commitment_def)

lemma sample_created:
  "chain_create nonzero_env idle_executor null_store sample_session sample_verifier () ()
     = Ok (sample_chain (genesis_head \<lparr>gn_config = sample_session, gn_state_snapshot = []\<rparr>))"
  by (simp add: chain_create_def sample_session_valid)
     (simp add: sample_defs res_simps ensure_consensus_config_def Let_def size_with_limit_def genesis_head_def)

definition fresh_head :: "session_head \<Rightarrow> bool" where
  "fresh_head head \<longleftrightarrow> hd_sealed_by_successor head = None \<and> hd_state_root head = replicate 32 7 \<and> length (hd_block_hash head) = 32
     \<and> hd_timestamp_ms head = 100 \<and> hd_input_position head < 100 \<and> hd_logical_time head < 100"

lemma checked_sub_succ:
  assumes "x < 100"
  shows "checked_sub (x + 1) x = Some (1 :: u64)"
proof -
  have "unat (x + 1) = unat x + 1" using assms by (simp add: unat_plus_if' word_less_nat_alt)
  then show ?thesis by (simp add: u_arith)
qed

lemma sample_request_checks:
  assumes "fresh_head head" "next_height head = Ok n"
  shows "check_request nonzero_env small_postcard null_store (sample_chain head) (sample_request head) = Ok ((0, 0), 0, n)"
  using assms
  by (simp add: check_request_def sample_request_def sample_defs fresh_head_def Let_def limits_request_def res_check_def
      res_add_def add_len_def checked_add_def limits_frame_def size_with_limit_def frame_input_validate_def checked_sub_succ
      total_transaction_bytes_def saturating_add_def as_u64_def)

definition sample_context :: "session_head \<Rightarrow> u64 \<Rightarrow> protocol_effects_context" where
  "sample_context head n = \<lparr>px_source_genesis_commitment = session_commitment nonzero_env sample_session,
     px_source_session_id = replicate 32 9, px_policy = EffectsDisabled, px_height = n, px_timestamp_ms = 100,
     px_pre_state_root = replicate 32 7, px_input_root = frame_root nonzero_env (rq_frame_input (sample_request head)),
     px_issued_handoffs = [], px_successor_config = []\<rparr>"

lemma sample_context_new:
  "context_new nonzero_env small_postcard sample_session n 100 (replicate 32 7) (rq_frame_input (sample_request head)) [] None
     = Ok (sample_context head n)"
  by (simp add: context_new_def Let_def sample_context_def context_validate_def has_source_effects_def)
     (simp add: sample_session_def)

definition idle_outcome :: execution_outcome where
  "idle_outcome = \<lparr>oc_ordered_cell_tx_commitments = [], oc_data_commitments = [], oc_outbox = [], oc_cycles = 3\<rparr>"

definition sample_frame :: "session_head \<Rightarrow> u64 \<Rightarrow> execution_frame" where
  "sample_frame head n = candidate_frame nonzero_env sample_session head (sample_request head) n 0 (replicate 32 7) idle_outcome"

lemma sample_frame_valid:
  "fresh_head head \<Longrightarrow> frame_validate nonzero_env sample_profile (rq_frame_input (sample_request head)) (sample_frame head n) = Ok ()"
  by (simp add: frame_validate_def sample_frame_def candidate_frame_def frame_input_validate_def sample_request_def fresh_head_def
      checked_sub_succ idle_outcome_def sample_session_def) (simp add: sample_profile_def)

definition sample_context_hash :: hash32 where
  "sample_context_hash = cr_blake3 nonzero_env (str_bytes ''myelin:protocol-effects-context:v1'' @ replicate 32 7)"

lemma sample_context_commitment:
  "context_commitment nonzero_env small_postcard (sample_context head n) = Ok (sample_context_hash)"
  by (simp add: hash_serialized_def size_with_limit_def small_postcard_def sample_context_def sample_context_hash_def)

definition sample_prepared :: "session_head \<Rightarrow> u64 \<Rightarrow> unit prepared_block" where
  "sample_prepared head n = (let q = sample_request head in
     \<lparr>pb_block = candidate_block nonzero_env sample_session head q n (replicate 32 7) idle_outcome (sample_frame head n)
        [replicate 32 8, sample_context_hash,
         snapshot_commitment nonzero_env sample_limits 2],
      pb_base_head = head, pb_executor = (), pb_transactions = [], pb_snapshot = [1, 2], pb_outbox = [],
      pb_frame = sample_frame head n, pb_frame_input = rq_frame_input q, pb_successor = None, pb_issued_handoffs = [],
      pb_consumed_handoffs = [], pb_handoff_actions = [], pb_request_data_commitments = [replicate 32 8]\<rparr>)"

lemma sample_prepares:
  assumes "fresh_head head" "next_height head = Ok n"
  shows "prepare_block nonzero_env small_json small_postcard idle_executor null_store (sample_chain head) (sample_request head)
    = Ok (sample_prepared head n)"
proof -
  have c: "ch_config (sample_chain head) = sample_session" "ch_head (sample_chain head) = head"
    "se_application_profile sample_session = sample_profile" "se_commit_limits sample_session = sample_limits"
    by (simp_all add: sample_chain_def sample_session_def)
  have q: "rq_timestamp_ms (sample_request head) = 100" "hd_state_root head = replicate 32 7" 
    "rq_consume_handoffs (sample_request head) = []" "rq_handoff_actions (sample_request head) = []"
    "rq_transactions (sample_request head) = []" "rq_handoffs (sample_request head) = []"
    "rq_successor (sample_request head) = None"  "rq_data_commitments (sample_request head) = [replicate 32 8]"
    using assms by (simp_all add: sample_request_def fresh_head_def)
  have x: "ex_state_root idle_executor e = replicate 32 7" "ex_snapshot idle_executor e = Ok [1, 2]"
    "ex_execute idle_executor e a b d f g = Ok (idle_outcome, e)" for e a b d f g
    by (simp_all add: idle_executor_def idle_outcome_def)
  have o: "check_outcome sample_session (sample_request head) [] idle_outcome = Ok ()"
    by (simp add: check_outcome_def limits_outcome_parts_def q c idle_outcome_def res_add_def add_len_def as_u64_def)
       (simp add: res_check_def sample_limits_def sample_profile_def c)
  have z: "check_record_size nonzero_env small_postcard p m [] (cl_max_record_bytes sample_limits) = Ok ()" for p :: "unit prepared_block" and m
    by (simp add: check_record_size_def record_size_def small_postcard_def sample_limits_def size_with_limit_def res_check_def)
  have l: "res_check ''snapshot_bytes'' (Suc (Suc 0)) (cl_max_snapshot_bytes sample_limits) = Ok ()"
    by (simp add: sample_limits_def)
  have u: "oc_outbox idle_outcome = []" "oc_data_commitments idle_outcome = []" by (simp_all add: idle_outcome_def)
  show ?thesis
    by (simp add: prepare_block_def Let_def sample_request_checks[OF assms] c q x o z l u sample_context_new
        sample_context_commitment sample_frame_def[symmetric] sample_frame_valid[OF assms(1)] declare_successor_def
        sample_prepared_def as_u64_def)
qed

lemma sample_block_hashed:
  assumes "fresh_head head"
  shows "\<exists>h. block_hash nonzero_env (pb_block (sample_prepared head n)) = Ok h \<and> length h = 32"
proof -
  have "table_size (block_fields (pb_block (sample_prepared head n))) < 2 ^ 32"
    using assms by (simp add: table_size_def block_fields_def sample_prepared_def candidate_block_def encode_hash_vec_def
        Let_def fresh_head_def idle_outcome_def sample_session_def sample_request_def sample_context_hash_def snapshot_commitment_def)
  then show ?thesis
    by (simp add: block_hash_def block_to_molecule_bytes_def encode_table_checked_Ok[THEN iffD2])
qed


lemma sample_proof_encodes: "encode_proof nonzero_env small_json sample_wire_proof = Ok [101]"
  by (simp add: encode_proof_def sample_wire_proof_def validate_signatures_def validate_signature_def validate_id_def
      signature_to_wire_def max_signatures_def max_validator_id_bytes_def max_proof_bytes_def small_json_def toy_json_def Let_def)

lemma sample_record_valid:
  assumes "fresh_head head"
  shows "validate_resources nonzero_env small_json small_postcard sample_session
    (committed_record nonzero_env (sample_prepared head n) m sample_wire_proof) = Ok ()"
proof -
  let ?r = "committed_record nonzero_env (sample_prepared head n) m sample_wire_proof"
  have r: "fr_successor ?r = None" "fr_handoff_actions ?r = []" "fr_consumed_handoff_ids ?r = []" "fr_transactions ?r = []"
    "fr_issued_handoffs ?r = []" "fr_outbox ?r = []" "fr_state_snapshot ?r = [1, 2]" "fr_resource_snapshot_bytes ?r = 2"
    "mb_version (fr_block ?r) = 6" "mb_number (fr_block ?r) = n" "mb_timestamp_ms (fr_block ?r) = 100"
    "mb_state_root_before (fr_block ?r) = replicate 32 7" "fr_frame_input ?r = rq_frame_input (sample_request head)"
    "mb_data_commitments (fr_block ?r) = [replicate 32 8, sample_context_hash, snapshot_commitment nonzero_env sample_limits 2]"
    "fr_proof ?r = sample_wire_proof"
    using assms by (simp_all add: committed_record_def sample_prepared_def Let_def candidate_block_def as_u64_def
        sample_request_def fresh_head_def)
  have c: "se_commit_limits sample_session = sample_limits" by (simp add: sample_session_def)
  have f: "limits_frame small_postcard sample_limits (rq_frame_input (sample_request head)) = Ok ()"
    by (simp add: limits_frame_def res_check_def size_with_limit_def sample_request_def small_postcard_def sample_limits_def)
  have z: "encoded_size_with_limit nonzero_env small_json small_postcard ?r (cl_max_record_bytes sample_limits) = Ok 47"
    by (simp add: encoded_size_with_limit_def check_successor_format_def r sample_proof_encodes record_size_def small_postcard_def wire_ref_def
        sample_limits_def size_with_limit_def res_check_def as_u64_def)
  have l: "limits_record nonzero_env small_json small_postcard sample_limits ?r = Ok ()"
    by (simp add: limits_record_def r f z res_add_def add_len_def as_u64_def)
       (simp add: sample_limits_def res_check_def)
  have x: "effects_context nonzero_env small_postcard sample_session ?r = Ok (sample_context head n)"
    by (simp add: effects_context_def r sample_context_new)
  show ?thesis
    by (simp add: validate_resources_def check_successor_format_def validate_actions_def r c l x sample_context_commitment
        commitment_from_end_def ensure_def res_check_def)
qed

lemma sample_commits:
  assumes "fresh_head head" "next_height head = Ok n"
  shows "\<exists>h. length h = 32 \<and> commit_finalised nonzero_env small_json small_postcard null_store (sample_chain head)
    (sample_prepared head n) sample_wire_proof = Ok (sample_chain (committed_head sample_session (sample_prepared head n) h))"
proof -
  from sample_block_hashed[OF assms(1)] obtain h where h: "block_hash nonzero_env (pb_block (sample_prepared head n)) = Ok h" "length h = 32"
    by blast
  have b: "pb_base_head (sample_prepared head n) = head" "pb_executor (sample_prepared head n) = ()"
    by (simp_all add: sample_prepared_def Let_def)
  have c: "ch_config (sample_chain head) = sample_session" "ch_head (sample_chain head) = head"
    "ch_finality_verifier (sample_chain head) = sample_verifier" "se_commit_limits sample_session = sample_limits"
    "se_consensus_module_commitment sample_session = descriptor_commitment nonzero_env sample_descriptor"
    by (simp_all add: sample_chain_def sample_session_def)
  have z: "check_record_size nonzero_env small_postcard p m [101] (cl_max_record_bytes sample_limits) = Ok ()" for p :: "unit prepared_block" and m
    by (simp add: check_record_size_def record_size_def small_postcard_def sample_limits_def size_with_limit_def res_check_def)
  have v: "fv_verify sample_verifier (pb_block (sample_prepared head n)) sample_wire_proof =
      Ok \<lparr>vf_block_hash = h, vf_consensus_module_commitment = descriptor_commitment nonzero_env sample_descriptor\<rparr>"
    by (simp add: sample_verifier_def h)
  show ?thesis using h(2)
    by (intro exI[of _ h]) (simp add: commit_finalised_def Let_def b c z sample_proof_encodes v h(1) sample_record_valid[OF assms(1)] null_store_def,
        simp add: sample_chain_def)
qed

lemma sample_step:
  assumes "session_history nonzero_env small_json small_postcard idle_executor null_store sample_session sample_verifier rs (sample_chain head)"
    and "fresh_head head" "next_height head = Ok n" "hd_input_position head < 99" "hd_logical_time head < 99"
  shows "\<exists>r head'. session_history nonzero_env small_json small_postcard idle_executor null_store sample_session sample_verifier
      (rs @ [r]) (sample_chain head') \<and> fresh_head head' \<and> hd_finalised_height head' = Some n
      \<and> hd_input_position head' = hd_input_position head + 1 \<and> hd_logical_time head' = hd_logical_time head + 1"
proof -
  from sample_commits[OF assms(2,3)] obtain h where h: "length h = 32"
    "commit_finalised nonzero_env small_json small_postcard null_store (sample_chain head) (sample_prepared head n) sample_wire_proof
      = Ok (sample_chain (committed_head sample_session (sample_prepared head n) h))" by blast
  let ?head = "committed_head sample_session (sample_prepared head n) h"
  have pos: "hd_input_position ?head = hd_input_position head + 1" "hd_logical_time ?head = hd_logical_time head + 1"
    "hd_finalised_height ?head = Some n" "hd_sealed_by_successor ?head = None" "hd_state_root ?head = replicate 32 7"
    "hd_block_hash ?head = h" "hd_timestamp_ms ?head = 100"
    using assms(2) by (simp_all add: committed_head_def sample_prepared_def Let_def sample_frame_def candidate_frame_def
        candidate_block_def sample_request_def fresh_head_def)
  have "x + 1 < 100" if "x < 99" for x :: u64
    using that by (simp add: word_less_nat_alt unat_plus_if')
  then have "fresh_head ?head" using assms(4,5) h(1) by (simp add: fresh_head_def pos)
  with session_history.committed[OF assms(1,1) sample_prepares[OF assms(2,3)] h(2)] pos show ?thesis by blast
qed

lemma sample_history:
  "\<exists>rs head. length rs = 2 \<and> session_history nonzero_env small_json small_postcard idle_executor null_store sample_session
     sample_verifier rs (sample_chain head)"
proof -
  let ?hist = "session_history nonzero_env small_json small_postcard idle_executor null_store sample_session sample_verifier"
    and ?g = "genesis_head \<lparr>gn_config = sample_session, gn_state_snapshot = []\<rparr>"
  have g: "?hist [] (sample_chain ?g)" by (rule session_history.created[OF sample_created])
  have 0: "fresh_head ?g" "next_height ?g = Ok 0" "hd_input_position ?g = 5" "hd_logical_time ?g = 6"
    by (simp_all add: genesis_head_def fresh_head_def next_height_def sample_session_def Let_def)
  from sample_step[OF g 0(1,2)] 0(3,4) obtain r1 h1 where 1: "?hist [r1] (sample_chain h1)" "fresh_head h1"
    "hd_finalised_height h1 = Some 0" "hd_input_position h1 = 6" "hd_logical_time h1 = 7" by auto
  have "next_height h1 = Ok 1" by (simp add: next_height_def 1(3) checked_add_def)
  from sample_step[OF 1(1,2) this] 1(4,5) obtain r2 h2 where "?hist ([r1] @ [r2]) (sample_chain h2)" by auto
  then show ?thesis by (intro exI[of _ "[r1] @ [r2]"] exI[of _ h2]) simp
qed

section \<open>Resource bounds of committed records\<close>

lemma total_len:
  assumes "fold_res (\<lambda>used x. add_len e used (f x)) a xs = Ok t"
  shows "unat t = unat a + sum_list (map f xs)"
  using assms by (induction xs arbitrary: a) (auto simp: res_simps add_len_Ok)

lemma outbox_total:
  assumes "fold_res outbox_bytes a ms = Ok t"
  shows "unat t = unat a + sum_list (map (\<lambda>m. length (fst m) + length (snd m)) ms)"
  using assms by (induction ms arbitrary: a) (auto simp: res_simps outbox_bytes_def res_add_def add_len_Ok)

lemma usage_total:
  assumes "fold_res (\<lambda>usage h. usage_add l usage (f h, g h)) u hs = Ok w"
    and "fst u \<le> cl_max_handoff_payload_bytes l" "snd u \<le> cl_max_authorization_bytes l"
  shows "unat (fst u) + sum_list (map f hs) \<le> unat (cl_max_handoff_payload_bytes l)
    \<and> unat (snd u) + sum_list (map g hs) \<le> unat (cl_max_authorization_bytes l)"
  using assms
proof (induction hs arbitrary: u)
  case (Cons h hs)
  from Cons.prems(1) obtain u1 where 1: "usage_add l u (f h, g h) = Ok u1"
    and 2: "fold_res (\<lambda>usage h. usage_add l usage (f h, g h)) u1 hs = Ok w" by (auto simp: res_simps)
  from 1 have "unat (fst u1) = unat (fst u) + f h" "unat (snd u1) = unat (snd u) + g h"
    "fst u1 \<le> cl_max_handoff_payload_bytes l" "snd u1 \<le> cl_max_authorization_bytes l"
    by (auto simp: usage_add_def res_simps res_add_def add_len_Ok word_le_nat_alt)
  with Cons.IH[OF 2] show ?case by simp
qed (simp add: word_le_nat_alt)

lemma limits_record_bounds:
  assumes "limits_record E J P l r = Ok ()"
  shows "length (fr_issued_handoffs r) \<le> unat (cl_max_issued_handoffs l)"
    "length (mb_data_commitments (fr_block r)) \<le> unat (cl_max_data_commitments l)"
    "length (fr_outbox r) \<le> unat (cl_max_outbox_messages l)"
    "(\<Sum>m\<leftarrow>fr_outbox r. length (ob_topic m) + length (ob_payload m)) \<le> unat (cl_max_outbox_bytes l)"
    "length (fr_state_snapshot r) \<le> unat (cl_max_snapshot_bytes l)"
    "(\<Sum>h\<leftarrow>fr_issued_handoffs r. length (ho_payload h)) + (\<Sum>a\<leftarrow>fr_handoff_actions r. length (ho_payload (ra_handoff a)))
       \<le> unat (cl_max_handoff_payload_bytes l)"
    "(\<Sum>h\<leftarrow>fr_issued_handoffs r. length (ho_authorization h)) + (\<Sum>a\<leftarrow>fr_handoff_actions r. length (ho_authorization (ra_handoff a)))
       \<le> unat (cl_max_authorization_bytes l)"
    "\<exists>n. encoded_size_with_limit E J P r (cl_max_record_bytes l) = Ok n"
    "limits_frame P l (fr_frame_input r) = Ok ()"
proof -
  from assms obtain t w where f: "fold_res outbox_bytes 0 (map (\<lambda>m. (ob_topic m, ob_payload m)) (fr_outbox r)) = Ok t"
      "unat t \<le> unat (cl_max_outbox_bytes l)"
    and u: "fold_res (\<lambda>usage h. usage_add l usage (length (ho_payload h), length (ho_authorization h))) (0, 0)
                 (fr_issued_handoffs r @ map ra_handoff (fr_handoff_actions r)) = Ok w"
    by (auto simp: limits_record_def res_simps)
  show "(\<Sum>m\<leftarrow>fr_outbox r. length (ob_topic m) + length (ob_payload m)) \<le> unat (cl_max_outbox_bytes l)"
    using outbox_total[OF f(1)] f(2) by (simp add: comp_def)
  show "(\<Sum>h\<leftarrow>fr_issued_handoffs r. length (ho_payload h)) + (\<Sum>a\<leftarrow>fr_handoff_actions r. length (ho_payload (ra_handoff a)))
       \<le> unat (cl_max_handoff_payload_bytes l)"
    "(\<Sum>h\<leftarrow>fr_issued_handoffs r. length (ho_authorization h)) + (\<Sum>a\<leftarrow>fr_handoff_actions r. length (ho_authorization (ra_handoff a)))
       \<le> unat (cl_max_authorization_bytes l)"
    using usage_total[OF u] by (simp_all add: comp_def)
qed (use assms in \<open>auto simp: limits_record_def res_simps\<close>)

lemma history_records_valid:
  assumes "session_history E J P X Sto c v rs ch" "r \<in> set rs"
  shows "validate_resources E J P c r = Ok ()"
  using assms
proof induction
  case (committed rs ch rs' ch0 q p pf ch')
  from committed.hyps(4) have "validate_resources E J P c (committed_record E p (se_consensus_module_commitment c) pf) = Ok ()"
    by (rule commit_finalised_Ok) (use history_fixed[OF committed.hyps(1)] in simp)
  with committed show ?case by auto
qed simp_all

lemma encoded_size_bound:
  assumes "encoded_size_with_limit E J P r limit = Ok n" "encode_proof E J (fr_proof r) = Ok bs"
  shows "46 + length (pc_record P (wire_ref r bs)) \<le> unat limit"
proof -
  from assms obtain size where "record_size (pc_record P (wire_ref r bs)) limit = Ok size"
    by (auto simp: encoded_size_with_limit_def res_simps)
  then have "46 \<le> unat limit" "length (pc_record P (wire_ref r bs)) \<le> unat (limit - 46)"
    by (auto simp: record_size_def res_simps size_with_limit_def split: if_splits)
  then show ?thesis by (simp add: unat_sub word_le_nat_alt)
qed

lemma frame_bound:
  "limits_frame P l f = Ok () \<Longrightarrow> length (pc_frame_input P f) \<le> unat (cl_max_frame_bytes l)"
  by (auto simp: limits_frame_def res_simps size_with_limit_def split: if_splits)

lemma unat_widened: "unat (ucast (n :: u32) :: u64) = unat n"
  using unsigned_less[of n, where 'a = nat] by (simp add: unsigned_ucast_eq take_bit_nat_eq_self)

lemma validate_resources_bounds:
  assumes "validate_resources E J P c r = Ok ()"
  shows "length (fr_transactions r) \<le> unat (se_max_block_transactions c)"
    "(\<Sum>tx\<leftarrow>fr_transactions r. length tx) \<le> unat (se_max_block_bytes c)"
    "length (fr_consumed_handoff_ids r) + length (fr_handoff_actions r) \<le> unat (cl_max_consumed_handoffs (se_commit_limits c))"
    "limits_record E J P (se_commit_limits c) r = Ok ()"
proof -
  from assms obtain t where t: "fold_res (\<lambda>used tx. add_len (SeBlockLimit ''transaction bytes overflow'') used (length tx)) 0
      (fr_transactions r) = Ok t" "unat t \<le> unat (se_max_block_bytes c)"
    by (auto simp: validate_resources_def res_simps)
  show "(\<Sum>tx\<leftarrow>fr_transactions r. length tx) \<le> unat (se_max_block_bytes c)" using total_len[OF t(1)] t(2) by simp
qed (use assms in \<open>auto simp: validate_resources_def res_simps unat_widened\<close>)

section \<open>Properties\<close>

text \<open>
  \<^bold>\<open>C35\<close>. What a session commits, recovery accepts: over any history of creations, preparations
  and commits, the audit that recovery runs over the stored records, started from the genesis
  head, accepts every record and ends in exactly the head the running chain holds. Nothing is
  assumed of the executor, the store, the verifier or the serialisers; the hash of the
  application profile must not be all zero, since the audit takes that value as missing.
\<close>

theorem session_history_audits:
  assumes "session_history E J P X Sto c v rs ch" "profile_commitment E (se_application_profile c) \<noteq> zero32"
  shows "fold_res (audit_record E J P \<lparr>gn_config = c, gn_state_snapshot = s\<rparr> v) (genesis_head \<lparr>gn_config = c, gn_state_snapshot = s\<rparr>) rs
    = Ok (ch_head ch)"
  by (rule history_audits[OF assms]) simp

theorem session_history_audits_witness:
  "\<exists>rs ch. length rs = 2 \<and> session_history nonzero_env small_json small_postcard idle_executor null_store sample_session
       sample_verifier rs ch
     \<and> fold_res (audit_record nonzero_env small_json small_postcard \<lparr>gn_config = sample_session, gn_state_snapshot = []\<rparr> sample_verifier)
         (genesis_head \<lparr>gn_config = sample_session, gn_state_snapshot = []\<rparr>) rs = Ok (ch_head ch)"
proof -
  from sample_history obtain rs head where h: "length rs = 2" "session_history nonzero_env small_json small_postcard idle_executor
      null_store sample_session sample_verifier rs (sample_chain head)" by blast
  have "profile_commitment nonzero_env (se_application_profile sample_session) \<noteq> zero32" by simp
  from session_history_audits[OF h(2) this] h show ?thesis by blast
qed

text \<open>
  \<^bold>\<open>C36\<close>. An audited chain is one unbroken line: the records carry the heights 0, 1, 2, ... without
  gap or wrap-around, each names the hash of the one before as its parent, starts from the state
  root, the input position and the logical time at which the one before ended, never goes back in
  time, and no record follows the one that declares a successor session.
\<close>

theorem audited_chain_linked:
  assumes "fold_res (audit_record E J P g v) (genesis_head g) rs = Ok head"
  shows "hd_finalised_height head = (if rs = [] then None else Some (word_of_nat (length rs - 1)))
    \<and> length rs \<le> 2 ^ 64 \<and> map (\<lambda>r. mb_number (fr_block r)) rs = map word_of_nat [0..<length rs]
    \<and> (\<forall>i. Suc i < length rs \<longrightarrow>
        block_hash E (fr_block (rs ! i)) = Ok (mb_parent_hash (fr_block (rs ! Suc i)))
        \<and> mb_state_root_before (fr_block (rs ! Suc i)) = mb_state_root_after (fr_block (rs ! i))
        \<and> mb_timestamp_ms (fr_block (rs ! i)) \<le> mb_timestamp_ms (fr_block (rs ! Suc i))
        \<and> ef_input_start (fr_frame (rs ! Suc i)) = ef_input_end (fr_frame (rs ! i))
        \<and> ef_logical_time_start (fr_frame (rs ! Suc i)) = ef_logical_time_end (fr_frame (rs ! i))
        \<and> fr_successor (rs ! i) = None)"
  using audited_heights[OF assms] audited_links[OF assms] by blast

lemma sample_audited:
  "\<exists>rs head. length rs = 2 \<and>
     fold_res (audit_record nonzero_env small_json small_postcard \<lparr>gn_config = sample_session, gn_state_snapshot = []\<rparr> sample_verifier)
       (genesis_head \<lparr>gn_config = sample_session, gn_state_snapshot = []\<rparr>) rs = Ok head"
proof -
  from sample_history obtain rs head where h: "length rs = 2" "session_history nonzero_env small_json small_postcard idle_executor
      null_store sample_session sample_verifier rs (sample_chain head)" by blast
  have "profile_commitment nonzero_env (se_application_profile sample_session) \<noteq> zero32" by simp
  from history_audits[OF h(2) this] h show ?thesis by (metis session_genesis.select_convs(1))
qed

theorem audited_chain_linked_witness:
  "\<exists>(r0 :: finalised_block_record) (r1 :: finalised_block_record). mb_number (fr_block r0) = 0 \<and> mb_number (fr_block r1) = 1
     \<and> block_hash nonzero_env (fr_block r0) = Ok (mb_parent_hash (fr_block r1))
     \<and> ef_input_start (fr_frame r1) = ef_input_end (fr_frame r0) \<and> fr_successor r0 = None"
proof -
  from sample_audited obtain rs head where 1: "length rs = 2"
    and 2: "fold_res (audit_record nonzero_env small_json small_postcard \<lparr>gn_config = sample_session, gn_state_snapshot = []\<rparr>
      sample_verifier) (genesis_head \<lparr>gn_config = sample_session, gn_state_snapshot = []\<rparr>) rs = Ok head" by blast
  from 1 obtain r0 r1 where rs: "rs = [r0, r1]" by (auto simp: length_Suc_conv numeral_2_eq_2)
  from audited_chain_linked[OF 2] have
    "map (\<lambda>r. mb_number (fr_block r)) rs = map word_of_nat [0..<length rs]"
    "block_hash nonzero_env (fr_block (rs ! 0)) = Ok (mb_parent_hash (fr_block (rs ! Suc 0)))"
    "ef_input_start (fr_frame (rs ! Suc 0)) = ef_input_end (fr_frame (rs ! 0))" "fr_successor (rs ! 0) = None"
    by (simp_all add: rs)
  then show ?thesis by - (rule exI[of _ r0], rule exI[of _ r1], simp add: rs upt_rec)
qed



text \<open>
  \<^bold>\<open>C40\<close>. The head binds the chain: two record lists of one genesis that are audited to the same
  height and block hash, even by different finality verifiers, hold the same blocks. If they do
  not, they exhibit two different blocks at one height with the same block hash. So a store that
  replaces an old block has to find a collision of the block hash.
\<close>

theorem head_binds_chain:
  assumes "fold_res (audit_record E J P g v) (genesis_head g) rs = Ok head"
    and "fold_res (audit_record E J P g v') (genesis_head g) rs' = Ok head'"
    and "length rs = length rs'" "hd_block_hash head = hd_block_hash head'"
  shows "map fr_block rs = map fr_block rs' \<or>
    (\<exists>i<length rs. fr_block (rs ! i) \<noteq> fr_block (rs' ! i) \<and> block_hash E (fr_block (rs ! i)) = block_hash E (fr_block (rs' ! i)))"
  by (rule audited_same_head[OF assms])

theorem head_binds_chain_witness:
  "\<exists>rs (rs' :: finalised_block_record list) head. length rs = 2 \<and>
     fold_res (audit_record nonzero_env small_json small_postcard \<lparr>gn_config = sample_session, gn_state_snapshot = []\<rparr> sample_verifier)
       (genesis_head \<lparr>gn_config = sample_session, gn_state_snapshot = []\<rparr>) rs = Ok head \<and>
     (map fr_block rs = map fr_block rs' \<or> (\<exists>i<length rs. fr_block (rs ! i) \<noteq> fr_block (rs' ! i)
        \<and> block_hash nonzero_env (fr_block (rs ! i)) = block_hash nonzero_env (fr_block (rs' ! i))))"
proof -
  from sample_audited obtain rs head where 1: "length rs = 2"
    and 2: "fold_res (audit_record nonzero_env small_json small_postcard \<lparr>gn_config = sample_session, gn_state_snapshot = []\<rparr>
      sample_verifier) (genesis_head \<lparr>gn_config = sample_session, gn_state_snapshot = []\<rparr>) rs = Ok head" by blast
  from head_binds_chain[OF 2 2 refl refl] 1 2 show ?thesis by blast
qed

end
