(* ===== verification/Session_Lifecycle.thy ===== *)
theory Session_Lifecycle
  imports Session_Audit
begin

text \<open>
  The life of one handoff in the store: how the committing store issues it, consumes it for a
  target session and applies the lifecycle actions of its owner, and the outcomes it can have.
\<close>

section \<open>The store's updates of a handoff\<close>

definition issue_stored :: "crypto_env \<Rightarrow> myelin_block \<Rightarrow> session_handoff \<Rightarrow> session_error + stored_handoff" where
  "issue_stored E b h =
     res_bind (reference_from_block E b) (\<lambda>issued_at.
     Ok \<lparr>sto_handoff = h, sto_lifecycle = \<lparr>lc_issued_at = issued_at, lc_terminal = Issued\<rparr>\<rparr>)"

text \<open>
  One consumed handoff of a committed block. The source genesis, the source record and the
  evidence are what the transaction reads under the keys of the handoff.
\<close>

definition consume_stored ::
  "crypto_env \<Rightarrow> json_env \<Rightarrow> postcard_env \<Rightarrow> session_config \<Rightarrow> myelin_block \<Rightarrow> hash32 \<Rightarrow> session_config \<Rightarrow> finalised_block_record
     \<Rightarrow> evidence_record option \<Rightarrow> u64 \<times> u64 \<Rightarrow> stored_handoff \<Rightarrow> session_error + (u64 \<times> u64) \<times> stored_handoff" where
  "consume_stored E J P c b hid source_config source evidence usage s =
     (let h = sto_handoff s
      in res_bind (usage_add (se_commit_limits c) usage (length (ho_payload h), length (ho_authorization h))) (\<lambda>usage.
         res_bind (ensure (handoff_id E h = hid \<and> is_available s)
                    (SeStore (StConflict ''handoff identity mismatch or already consumed''))) (\<lambda>_.
         res_bind (ensure (accepts_target h c \<and> mb_timestamp_ms b \<le> ho_expires_at_ms h)
                    (SeStore (StConflict ''handoff target policy mismatch or handoff expired''))) (\<lambda>_.
         res_bind (validate_handoff_trust c source_config) (\<lambda>_.
         res_bind (validate_handoff_source E J P source_config source h) (\<lambda>_.
         res_bind (case ho_evidence_requirement h of
                     None \<Rightarrow> Ok ()
                   | Some requirement \<Rightarrow>
                       res_bind (ok_or (SeStore (StConflict ''required handoff evidence is absent'')) evidence) (\<lambda>evidence.
                       ensure (cr_blake3 E (pipeline_preimage (ev_descriptor evidence)) = er_pipeline_commitment requirement
                           \<and> unat (er_minimum_stage_index requirement) < length (ev_receipts evidence))
                         (SeStore (StConflict ''required handoff evidence stage has not been reached'')))) (\<lambda>_.
         res_bind (reference_from_block E (fr_block source)) (\<lambda>issuer.
         res_bind (ensure (lc_issued_at (sto_lifecycle s) = issuer) (SeStore (StCorrupt ''lifecycle issuer block mismatch''))) (\<lambda>_.
         res_bind (reference_from_block E b) (\<lambda>at.
         Ok (usage, s\<lparr>sto_lifecycle := (sto_lifecycle s)\<lparr>lc_terminal := Consumed at\<rparr>\<rparr>)))))))))))"

section \<open>Histories of a handoff\<close>

text \<open>The states of one stored handoff, the latest first.\<close>

inductive handoff_history :: "crypto_env \<Rightarrow> json_env \<Rightarrow> postcard_env \<Rightarrow> stored_handoff list \<Rightarrow> bool" for E J P where
  issued: "issue_stored E b h = Ok s \<Longrightarrow> handoff_history E J P [s]"
| consumed: "handoff_history E J P (s # ss) \<Longrightarrow> consume_stored E J P c b hid source_config source evidence usage s = Ok (usage', s')
    \<Longrightarrow> handoff_history E J P (s' # s # ss)"
| acted: "handoff_history E J P (s # ss) \<Longrightarrow> apply_action E a at s = Ok s' \<Longrightarrow> handoff_history E J P (s' # s # ss)"

abbreviation terminal_of :: "stored_handoff \<Rightarrow> handoff_terminal" where
  "terminal_of s \<equiv> lc_terminal (sto_lifecycle s)"

lemma consume_stored_Ok:
  assumes "consume_stored E J P c b hid source_config source evidence usage s = Ok (usage', s')"
  shows "terminal_of s = Issued" "\<exists>at. reference_from_block E b = Ok at \<and> terminal_of s' = Consumed at"
    "sto_handoff s' = sto_handoff s" "lc_issued_at (sto_lifecycle s') = lc_issued_at (sto_lifecycle s)"
  using assms by (auto simp: consume_stored_def Let_def res_simps is_available_def)

lemma apply_action_Ok:
  assumes "apply_action E a at s = Ok s'"
  shows "next_terminal (terminal_of s) a at = Ok (terminal_of s')" "sto_handoff s' = sto_handoff s"
    "lc_issued_at (sto_lifecycle s') = lc_issued_at (sto_lifecycle s)" "validate_lifecycle s' = Ok ()"
  using assms by (auto simp: apply_action_def Let_def res_simps)

lemma next_terminal_Ok:
  "next_terminal t a at = Ok t' \<longleftrightarrow>
     (\<exists>h. t = Issued \<and> ra_action a = Cancel h \<and> t' = Cancelled at) \<or>
     (\<exists>h x. t = Consumed x \<and> ra_action a = Retire h x \<and> t' = Retired x at) \<or>
     (\<exists>h x. t = Cancelled x \<and> ra_action a = Reclaim h \<and> ra_cancelled_at a = Some x \<and> t' = Reclaimed x at)"
  by (cases t; cases "ra_action a") (auto simp: next_terminal_def)

definition outcomes :: "handoff_terminal list \<Rightarrow> bool" where
  "outcomes ts \<longleftrightarrow> (\<exists>x y. ts \<in> {[Issued], [Issued, Consumed x], [Issued, Consumed x, Retired x y], [Issued, Cancelled x],
     [Issued, Cancelled x, Reclaimed x y]})"

lemma outcomes_snoc:
  assumes "outcomes (ts @ [t])"
  shows "ts = [] \<and> t = Issued \<or> (\<exists>x. ts = [Issued] \<and> (t = Consumed x \<or> t = Cancelled x))
    \<or> (\<exists>x y. ts = [Issued, Consumed x] \<and> t = Retired x y) \<or> (\<exists>x y. ts = [Issued, Cancelled x] \<and> t = Reclaimed x y)"
proof -
  from assms obtain x y us where us: "ts @ [t] = us" "us \<in> {[Issued], [Issued, Consumed x], [Issued, Consumed x, Retired x y],
      [Issued, Cancelled x], [Issued, Cancelled x, Reclaimed x y]}" unfolding outcomes_def by blast
  have "ts = butlast us" "t = last us" by (simp_all flip: us(1))
  with us(2) show ?thesis by auto
qed

lemma handoff_history_fixed:
  assumes "handoff_history E J P ss"
  shows "\<exists>h i. \<forall>s\<in>set ss. sto_handoff s = h \<and> lc_issued_at (sto_lifecycle s) = i"
  using assms
proof induction
  case (consumed s ss c b hid source_config source evidence usage usage' s')
  then show ?case using consume_stored_Ok(3,4)[OF consumed.hyps(2)] by auto
next
  case (acted s ss a at s')
  then show ?case using apply_action_Ok(2,3)[OF acted.hyps(2)] by auto
qed auto

lemma handoff_history_outcomes:
  assumes "handoff_history E J P ss"
  shows "outcomes (map terminal_of (rev ss))"
  using assms
proof induction
  case (issued b h s)
  then show ?case by (auto simp: issue_stored_def res_simps outcomes_def)
next
  case (consumed s ss c b hid source_config source evidence usage usage' s')
  from consume_stored_Ok(1,2)[OF consumed.hyps(2)] obtain at where
    t: "terminal_of s = Issued" "terminal_of s' = Consumed at" by blast
  have "outcomes (map terminal_of (rev ss) @ [Issued])" using consumed.IH t(1) by simp
  then have "map terminal_of (rev ss) = []" using outcomes_snoc by fastforce
  then show ?case using t by (simp add: outcomes_def)
next
  case (acted s ss a at s')
  have "outcomes (map terminal_of (rev ss) @ [terminal_of s])" using acted.IH by simp
  from outcomes_snoc[OF this] apply_action_Ok(1)[OF acted.hyps(2), unfolded next_terminal_Ok]
  have "outcomes (map terminal_of (rev ss) @ [terminal_of s, terminal_of s'])" by (auto simp: outcomes_def)
  then show ?case by simp
qed

lemma handoff_history_ordered:
  assumes "handoff_history E J P ss" "s \<in> set ss"
  shows "terminal_of s = Issued \<or> (\<exists>at. terminal_of s = Consumed at) \<or> validate_lifecycle s = Ok ()"
  using assms
proof induction
  case (issued b h s')
  then show ?case by (auto simp: issue_stored_def res_simps)
next
  case (consumed s1 ss c b hid source_config source evidence usage usage' s')
  then show ?case using consume_stored_Ok(2)[OF consumed.hyps(2)] by auto
next
  case (acted s1 ss a at s')
  then show ?case using apply_action_Ok(4)[OF acted.hyps(2)] by auto
qed

section \<open>A concrete handoff\<close>

definition sample_handoff :: session_handoff where
  "sample_handoff = \<lparr>ho_source_session_id = replicate 32 12, ho_source_height = 7, ho_source_state_root = replicate 32 5,
     ho_source_application_profile_commitment = replicate 32 10, ho_source_consensus_module_commitment = replicate 32 2,
     ho_target = TargetSession (replicate 32 5), ho_expires_at_ms = 1000, ho_payload = [1], ho_authorization = [2],
     ho_evidence_requirement = None\<rparr>"

definition sample_at :: "u64 \<Rightarrow> handoff_block_reference" where
  "sample_at n = \<lparr>br_session_id = replicate 32 12, br_height = n, br_block_hash = replicate 32 1\<rparr>"

definition sample_stored :: "hash32 \<Rightarrow> handoff_terminal \<Rightarrow> stored_handoff" where
  "sample_stored h t = \<lparr>sto_handoff = sample_handoff,
     sto_lifecycle = \<lparr>lc_issued_at = \<lparr>br_session_id = replicate 32 12, br_height = 7, br_block_hash = h\<rparr>, lc_terminal = t\<rparr>\<rparr>"

definition sample_action :: "handoff_action \<Rightarrow> handoff_block_reference option \<Rightarrow> resolved_handoff_action" where
  "sample_action a at = \<lparr>ra_action = a, ra_handoff = sample_handoff, ra_cancelled_at = at\<rparr>"

lemma sample_handoff_issued:
  "\<exists>h. issue_stored nonzero_env (sample_block Tendermint) sample_handoff = Ok (sample_stored h Issued) \<and> h \<noteq> zero32"
proof -
  from sample_block_hash[of Tendermint] obtain bs where "block_to_molecule_bytes (sample_block Tendermint) = Ok bs"
    by (auto simp: block_hash_Ok)
  then have "block_hash nonzero_env (sample_block Tendermint) = Ok (cr_blake3 nonzero_env (str_bytes ''myelin:block'' @ bs))"
    by (simp add: block_hash_Ok)
  then show ?thesis
    by (intro exI[of _ "cr_blake3 nonzero_env (str_bytes ''myelin:block'' @ bs)"])
       (simp add: issue_stored_def reference_from_block_def sample_stored_def, simp add: sample_block_def)
qed

lemma sample_handoff_cancelled:
  "h \<noteq> zero32 \<Longrightarrow> apply_action nonzero_env (sample_action (Cancel (handoff_id nonzero_env sample_handoff)) None) (sample_at 8)
     (sample_stored h Issued) = Ok (sample_stored h (Cancelled (sample_at 8)))"
  by (simp add: apply_action_def validate_lifecycle_def reference_validate_def action_validate_for_def next_terminal_def
      sample_action_def sample_stored_def sample_at_def not_after_def ensure_def Let_def) (simp add: sample_handoff_def)

lemma sample_handoff_reclaimed:
  "h \<noteq> zero32 \<Longrightarrow> apply_action nonzero_env (sample_action (Reclaim (handoff_id nonzero_env sample_handoff)) (Some (sample_at 8)))
     (sample_at 9) (sample_stored h (Cancelled (sample_at 8))) = Ok (sample_stored h (Reclaimed (sample_at 8) (sample_at 9)))"
  by (simp add: apply_action_def validate_lifecycle_def reference_validate_def action_validate_for_def next_terminal_def
      sample_action_def sample_stored_def sample_at_def not_after_def ensure_def Let_def) (simp add: sample_handoff_def)

section \<open>Properties\<close>



end
