(* ===== verification/Session_Cells.thy ===== *)
theory Session_Cells
  imports Session_Chain
begin

text \<open>
  The built-in executor of a session: a live-cell tree that runs the ordered transactions of a
  block, with the snapshot format from which it restarts.
\<close>

section \<open>Encoding\<close>

definition snap_put_bytes :: "bytes \<Rightarrow> session_error + bytes" where
  "snap_put_bytes value =
     res_bind (ensure (length value < 2 ^ 32) (SeSnapshot ''snapshot field exceeds u32'')) (\<lambda>_.
     Ok (u32_le (as_u32 (length value)) @ value))"

definition encode_snapshot_cell :: "crypto_env \<Rightarrow> outpoint \<times> cell_entry \<Rightarrow> session_error + bytes" where
  "encode_snapshot_cell E item =
     (let (outpoint, entry) = item
      in res_bind (ok_or (SeSnapshot ''cell is missing its full lock script'') (ce_lock_script entry)) (\<lambda>lock.
         res_bind (ok_or (SeSnapshot ''cell is missing full data'') (ce_data entry)) (\<lambda>data.
         res_bind (map_err (\<lambda>_. SeSnapshot ''script hash'')
                    (entry_from_output E \<lparr>co_lock = lock, co_type = ce_type_script entry, co_capacity = ce_capacity entry\<rparr> data
                       (ce_created_block_number entry) (ce_is_cellbase entry))) (\<lambda>rebuilt.
         res_bind (ensure (rebuilt = entry) (SeSnapshot ''cell full metadata does not match its committed hashes'')) (\<lambda>_.
         res_bind (snap_put_bytes (serialize_outpoint_molecule outpoint)) (\<lambda>outpoint_bytes.
         res_bind (snap_put_bytes (serialize_script_molecule lock)) (\<lambda>lock_bytes.
         res_bind (case ce_type_script entry of
                     Some script \<Rightarrow> res_bind (snap_put_bytes (serialize_script_molecule script)) (\<lambda>bs. Ok (1 # bs))
                   | None \<Rightarrow> Ok [0]) (\<lambda>type_bytes.
         res_bind (snap_put_bytes data) (\<lambda>data_bytes.
         Ok (outpoint_bytes @ lock_bytes @ type_bytes @ data_bytes @ u64_le (ce_capacity entry)
               @ u64_le (ce_created_block_number entry) @ [of_bool (ce_is_cellbase entry)]))))))))))"

definition encode_cell_snapshot :: "crypto_env \<Rightarrow> cell_state_tree \<Rightarrow> session_error + bytes" where
  "encode_cell_snapshot E state =
     res_bind (ensure (tree_len state < 2 ^ 32) (SeSnapshot ''too many live cells'')) (\<lambda>_.
     res_bind (map_res (encode_snapshot_cell E) (tree_iter_by_outpoint_from state None False)) (\<lambda>cells.
     Ok (str_bytes ''MSNP'' @ le_nat 2 1 @ u32_le (as_u32 (tree_len state)) @ concat cells)))"

section \<open>Decoding\<close>

definition snap_take :: "nat \<Rightarrow> bytes \<Rightarrow> session_error + bytes \<times> bytes" where
  "snap_take n remaining =
     (if length remaining < n then Err (SeSnapshot ''truncated snapshot'') else Ok (take n remaining, drop n remaining))"

definition snap_byte :: "bytes \<Rightarrow> session_error + u8 \<times> bytes" where
  "snap_byte bs = res_bind (snap_take 1 bs) (\<lambda>(v, rest). Ok (hd v, rest))"

definition snap_u32 :: "bytes \<Rightarrow> session_error + u32 \<times> bytes" where
  "snap_u32 bs = res_bind (snap_take 4 bs) (\<lambda>(v, rest). Ok (u32_of_le v, rest))"

definition snap_u64 :: "bytes \<Rightarrow> session_error + u64 \<times> bytes" where
  "snap_u64 bs = res_bind (snap_take 8 bs) (\<lambda>(v, rest). Ok (u64_of_le v, rest))"

definition snap_bytes :: "bytes \<Rightarrow> session_error + bytes \<times> bytes" where
  "snap_bytes bs =
     res_bind (snap_u32 bs) (\<lambda>(n, rest).
     res_bind (ensure (unat n \<le> 64 * 1024 * 1024) (SeSnapshot ''snapshot field limit exceeded'')) (\<lambda>_.
     snap_take (unat n) rest))"

definition decode_snapshot_cell ::
  "crypto_env \<Rightarrow> cell_state_tree \<times> bytes option \<times> bytes \<Rightarrow> session_error + cell_state_tree \<times> bytes option \<times> bytes" where
  "decode_snapshot_cell E acc =
     (let (state, previous_key, bs) = acc
      in res_bind (snap_bytes bs) (\<lambda>(outpoint_bytes, bs).
         res_bind (map_err (\<lambda>_. SeSnapshot ''outpoint'') (deserialize_outpoint_molecule outpoint_bytes)) (\<lambda>outpoint.
         let key = outpoint_to_key outpoint
         in res_bind (ensure (case previous_key of None \<Rightarrow> True | Some previous \<Rightarrow> previous < key)
                       (SeSnapshot ''outpoints are duplicated or not canonically ordered'')) (\<lambda>_.
            res_bind (snap_bytes bs) (\<lambda>(lock_bytes, bs).
            res_bind (map_err (\<lambda>_. SeSnapshot ''lock script'') (deserialize_script_molecule lock_bytes)) (\<lambda>lock.
            res_bind (snap_byte bs) (\<lambda>(type_flag, bs).
            res_bind (if type_flag = 0 then Ok (None, bs)
                      else if type_flag = 1
                      then res_bind (snap_bytes bs) (\<lambda>(type_bytes, bs).
                           res_bind (map_err (\<lambda>_. SeSnapshot ''type script'') (deserialize_script_molecule type_bytes)) (\<lambda>s.
                           Ok (Some s, bs)))
                      else Err (SeSnapshot ''invalid type-script flag'')) (\<lambda>(type_script, bs).
            res_bind (snap_bytes bs) (\<lambda>(data, bs).
            res_bind (snap_u64 bs) (\<lambda>(capacity, bs).
            res_bind (snap_u64 bs) (\<lambda>(created_block_number, bs).
            res_bind (snap_byte bs) (\<lambda>(cellbase_flag, bs).
            res_bind (ensure (cellbase_flag = 0 \<or> cellbase_flag = 1) (SeSnapshot ''invalid cellbase flag'')) (\<lambda>_.
            res_bind (map_err (\<lambda>_. SeSnapshot ''script hash'')
                       (entry_from_output E \<lparr>co_lock = lock, co_type = type_script, co_capacity = capacity\<rparr> data
                          created_block_number (cellbase_flag = 1))) (\<lambda>entry.
            Ok (tree_insert E outpoint entry state, Some key, bs)))))))))))))))"

definition decode_cell_snapshot :: "crypto_env \<Rightarrow> bytes \<Rightarrow> session_error + cell_state_tree" where
  "decode_cell_snapshot E bs =
     res_bind (snap_take 4 bs) (\<lambda>(magic, bs).
     res_bind (ensure (magic = str_bytes ''MSNP'') (SeSnapshot ''wrong snapshot magic'')) (\<lambda>_.
     res_bind (snap_take 2 bs) (\<lambda>(version, bs).
     res_bind (ensure (nat_of_le version = 1) (SeSnapshot ''unsupported snapshot version'')) (\<lambda>_.
     res_bind (snap_u32 bs) (\<lambda>(count, bs).
     res_bind (ensure (unat count \<le> 16777216) (SeSnapshot ''snapshot item limit exceeded'')) (\<lambda>_.
     res_bind (fold_res (\<lambda>acc _. decode_snapshot_cell E acc) (tree_new, None, bs) [0..<unat count]) (\<lambda>(state, _, bs).
     res_bind (ensure (bs = []) (SeSnapshot ''trailing snapshot bytes'')) (\<lambda>_.
     Ok state))))))))"

section \<open>The executor\<close>

record cell_executor =
  cx_state :: cell_state_tree
  cx_state_root :: hash32

definition cell_executor_new :: "crypto_env \<Rightarrow> cell_state_tree \<Rightarrow> cell_executor" where
  "cell_executor_new E state =
     (let (root, state) = tree_root E state in \<lparr>cx_state = state, cx_state_root = root\<rparr>)"

definition cell_executor_from_snapshot :: "crypto_env \<Rightarrow> bytes \<Rightarrow> session_error + cell_executor" where
  "cell_executor_from_snapshot E snapshot =
     res_bind (decode_cell_snapshot E snapshot) (\<lambda>state. Ok (cell_executor_new E state))"

text \<open>One transaction of a block; the accumulator is the executor, the cycles and the ids so far.\<close>

definition cell_execute_transaction ::
  "crypto_env \<Rightarrow> verifier \<Rightarrow> u64 \<Rightarrow> cell_executor \<times> u64 \<times> hash32 list \<Rightarrow> bytes \<Rightarrow> string + cell_executor \<times> u64 \<times> hash32 list" where
  "cell_execute_transaction E verifier height acc bs =
     (let (ex, cycles, txids) = acc
      in res_bind (map_err (\<lambda>_. ''invalid canonical CellTx'') (deserialize_transaction_molecule bs)) (\<lambda>tx.
         res_bind (ensure (tx_version tx = 0) ''CellTx version is not supported'') (\<lambda>_.
         let (result, state) = apply_transaction E (cx_state ex) tx (ctx_ordinary height) verifier
         in res_bind (map_err (\<lambda>_. ''state transition'') result) (\<lambda>receipt.
            res_bind (ok_or ''execution cycle total overflow'' (checked_add cycles (sr_cycles receipt))) (\<lambda>cycles.
            Ok (\<lparr>cx_state = state, cx_state_root = sr_state_root_after receipt\<rparr>, cycles, txids @ [sr_txid receipt]))))))"

definition cell_execute_block ::
  "crypto_env \<Rightarrow> verifier \<Rightarrow> cell_executor \<Rightarrow> u64 \<Rightarrow> session_handoff list \<Rightarrow> bytes list \<Rightarrow> string + execution_outcome \<times> cell_executor" where
  "cell_execute_block E verifier ex height consumed transactions =
     res_bind (ensure (consumed = []) ''the built-in Cell transition executor has no application handoff intake policy'') (\<lambda>_.
     res_bind (fold_res (cell_execute_transaction E verifier height) (ex, 0, []) transactions) (\<lambda>(ex, cycles, txids).
     Ok (\<lparr>oc_ordered_cell_tx_commitments = txids, oc_data_commitments = [], oc_outbox = [], oc_cycles = cycles\<rparr>, ex)))"

definition execute_block_with_context ::
  "crypto_env \<Rightarrow> postcard_env \<Rightarrow> verifier \<Rightarrow> cell_executor \<Rightarrow> protocol_effects_context \<Rightarrow> session_handoff list \<Rightarrow> bytes list
     \<Rightarrow> string + execution_outcome \<times> cell_executor" where
  "execute_block_with_context E P verifier ex context consumed transactions =
     res_bind (map_err (\<lambda>_. ''invalid effects context'') (context_validate E P context)) (\<lambda>_.
     res_bind (ensure (\<not> has_source_effects context) ''executor has no source issuance or migration policy'') (\<lambda>_.
     cell_execute_block E verifier ex (px_height context) consumed transactions))"

definition execute_block_with_lifecycle ::
  "crypto_env \<Rightarrow> postcard_env \<Rightarrow> verifier \<Rightarrow> cell_executor \<Rightarrow> protocol_effects_context \<Rightarrow> resolved_handoff_action list
     \<Rightarrow> session_handoff list \<Rightarrow> bytes list \<Rightarrow> string + execution_outcome \<times> cell_executor" where
  "execute_block_with_lifecycle E P verifier ex context actions consumed transactions =
     res_bind (ensure (actions = []) ''executor has no lifecycle policy'') (\<lambda>_.
     execute_block_with_context E P verifier ex context consumed transactions)"

definition cell_transition_executor :: "crypto_env \<Rightarrow> postcard_env \<Rightarrow> verifier \<Rightarrow> cell_executor transition_executor" where
  "cell_transition_executor E P verifier =
     \<lparr>ex_state_root = cx_state_root,
      ex_execute = (\<lambda>ex context actions _ consumed transactions.
        execute_block_with_lifecycle E P verifier ex context actions consumed transactions),
      ex_prepare_successor_state = (\<lambda>_ _ _ _. Ok Continue),
      ex_snapshot = (\<lambda>ex. map_err (\<lambda>_. ''snapshot'') (encode_cell_snapshot E (cx_state ex)))\<rparr>"

section \<open>What a block execution reports\<close>

text \<open>
  The ids the executor returns are the canonical ids the session recomputes, and the root it
  reports is the root of its tree.
\<close>

lemma cell_execute_transaction_Ok:
  assumes "cell_execute_transaction E verifier height (ex, cycles, txids) bs = Ok (ex', cycles', txids')"
  shows "\<exists>h. canonical_txid E bs = Ok h \<and> txids' = txids @ [h]" "cx_state_root ex' = fst (tree_root E (cx_state ex'))"
proof -
  from assms obtain tx r where tx: "deserialize_transaction_molecule bs = Ok tx" "tx_version tx = 0"
    and r: "fst (apply_transaction E (cx_state ex) tx (ctx_ordinary height) verifier) = Ok r" "txids' = txids @ [sr_txid r]"
      "ex' = \<lparr>cx_state = snd (apply_transaction E (cx_state ex) tx (ctx_ordinary height) verifier), cx_state_root = sr_state_root_after r\<rparr>"
    by (auto simp: cell_execute_transaction_def res_simps Let_def split_beta)
  have "sr_txid r = tx_id E tx \<and> sr_state_root_after r =
      fst (tree_root E (snd (apply_transaction E (cx_state ex) tx (ctx_ordinary height) verifier)))"
    using r(1) by (auto simp: apply_transaction_def tree_root_def Let_def split: if_splits prod.splits sum.splits option.splits)
  then show "\<exists>h. canonical_txid E bs = Ok h \<and> txids' = txids @ [h]" "cx_state_root ex' = fst (tree_root E (cx_state ex'))"
    using tx r by (auto simp: canonical_txid_def)
qed

lemma cell_execute_transactions_Ok:
  assumes "fold_res (cell_execute_transaction E verifier height) (ex, cycles, txids) txs = Ok (ex', cycles', txids')"
    and "cx_state_root ex = fst (tree_root E (cx_state ex))"
  shows "\<exists>hs. map_res (canonical_txid E) txs = Ok hs \<and> txids' = txids @ hs" "cx_state_root ex' = fst (tree_root E (cx_state ex'))"
  using assms
proof (induction txs arbitrary: ex cycles txids)
  case (Cons bs txs)
  {
    case 1
    then obtain ex1 cycles1 txids1 where
      s: "cell_execute_transaction E verifier height (ex, cycles, txids) bs = Ok (ex1, cycles1, txids1)"
      "fold_res (cell_execute_transaction E verifier height) (ex1, cycles1, txids1) txs = Ok (ex', cycles', txids')"
      by (auto simp: res_simps)
    from cell_execute_transaction_Ok[OF s(1)] Cons.IH(1)[OF s(2)] show ?case by auto
  next
    case 2
    then obtain ex1 cycles1 txids1 where
      s: "cell_execute_transaction E verifier height (ex, cycles, txids) bs = Ok (ex1, cycles1, txids1)"
      "fold_res (cell_execute_transaction E verifier height) (ex1, cycles1, txids1) txs = Ok (ex', cycles', txids')"
      by (auto simp: res_simps)
    from cell_execute_transaction_Ok(2)[OF s(1)] Cons.IH(2)[OF s(2)] show ?case by simp
  }
qed simp_all

lemma cell_execute_block_Ok:
  assumes "cell_execute_block E verifier ex height consumed txs = Ok (outcome, ex')"
    and "cx_state_root ex = fst (tree_root E (cx_state ex))"
  shows "map_res (canonical_txid E) txs = Ok (oc_ordered_cell_tx_commitments outcome)"
    "cx_state_root ex' = fst (tree_root E (cx_state ex'))" "consumed = []"
  using assms cell_execute_transactions_Ok[of E verifier height ex 0 "[]" txs]
  by (auto simp: cell_execute_block_def res_simps)

section \<open>Reading back what was written\<close>

lemma snap_take_append [simp]: "length a = n \<Longrightarrow> snap_take n (a @ rest) = Ok (a, rest)"
  by (simp add: snap_take_def)

lemma snap_byte_Cons [simp]: "snap_byte (b # rest) = Ok (b, rest)"
  using snap_take_append[of "[b]" 1 rest] by (simp add: snap_byte_def)

lemma snap_u32_append [simp]: "snap_u32 (u32_le w @ rest) = Ok (w, rest)"
  by (simp add: snap_u32_def)

lemma snap_u64_append [simp]: "snap_u64 (u64_le w @ rest) = Ok (w, rest)"
  by (simp add: snap_u64_def)

lemma snap_put_bytes_Ok: "snap_put_bytes v = Ok bs \<longleftrightarrow> length v < 2 ^ 32 \<and> bs = u32_le (as_u32 (length v)) @ v"
  by (auto simp: snap_put_bytes_def res_simps)

lemma snap_bytes_append:
  "length v \<le> 64 * 1024 * 1024 \<Longrightarrow> snap_bytes (u32_le (as_u32 (length v)) @ v @ rest) = Ok (v, rest)"
  by (simp add: snap_bytes_def unat_as_u32)

text \<open>What the Rust types give, and the field limit of the decoder.\<close>

definition snapshot_cell_ok :: "outpoint \<times> cell_entry \<Rightarrow> bool" where
  "snapshot_cell_ok item \<longleftrightarrow>
     wf_outpoint (fst item)
     \<and> pred_option (\<lambda>s. wf_script s \<and> length (serialize_script_molecule s) \<le> 64 * 1024 * 1024) (ce_lock_script (snd item))
     \<and> pred_option (\<lambda>s. wf_script s \<and> length (serialize_script_molecule s) \<le> 64 * 1024 * 1024) (ce_type_script (snd item))
     \<and> pred_option (\<lambda>d. length d \<le> 64 * 1024 * 1024) (ce_data (snd item))"

abbreviation cell_key :: "outpoint \<times> cell_entry \<Rightarrow> bytes" where
  "cell_key item \<equiv> outpoint_to_key (fst item)"

abbreviation key_follows :: "bytes option \<Rightarrow> bytes \<Rightarrow> bool" where
  "key_follows previous key \<equiv> (case previous of None \<Rightarrow> True | Some k \<Rightarrow> k < key)"

lemma encode_snapshot_cell_Ok:
  assumes "encode_snapshot_cell E (p, e) = Ok bs"
  obtains lock data type_bytes where "ce_lock_script e = Some lock" "ce_data e = Some data"
    "entry_from_output E \<lparr>co_lock = lock, co_type = ce_type_script e, co_capacity = ce_capacity e\<rparr> data
       (ce_created_block_number e) (ce_is_cellbase e) = Ok e"
    "type_bytes = (case ce_type_script e of None \<Rightarrow> [0]
       | Some s \<Rightarrow> 1 # u32_le (as_u32 (length (serialize_script_molecule s))) @ serialize_script_molecule s)"
    "bs = u32_le (as_u32 (length (serialize_outpoint_molecule p))) @ serialize_outpoint_molecule p
       @ u32_le (as_u32 (length (serialize_script_molecule lock))) @ serialize_script_molecule lock @ type_bytes
       @ u32_le (as_u32 (length data)) @ data @ u64_le (ce_capacity e) @ u64_le (ce_created_block_number e)
       @ [of_bool (ce_is_cellbase e)]"
proof -
  from assms show thesis
    unfolding encode_snapshot_cell_def Let_def
    by (clarsimp simp: res_simps snap_put_bytes_Ok) (rule that; (assumption | (auto simp: snap_put_bytes_Ok res_simps split: option.splits)[1]))
qed

lemma decode_encoded_cell:
  assumes "encode_snapshot_cell E (p, e) = Ok bs" "snapshot_cell_ok (p, e)"
  shows "decode_snapshot_cell E (state, previous, bs @ rest) =
    (if key_follows previous (outpoint_to_key p) then Ok (tree_insert E p e state, Some (outpoint_to_key p), rest)
     else Err (SeSnapshot ''outpoints are duplicated or not canonically ordered''))"
proof -
  from assms(1) obtain lock data type_bytes where e: "ce_lock_script e = Some lock" "ce_data e = Some data"
    "entry_from_output E \<lparr>co_lock = lock, co_type = ce_type_script e, co_capacity = ce_capacity e\<rparr> data
       (ce_created_block_number e) (ce_is_cellbase e) = Ok e"
    and t: "type_bytes = (case ce_type_script e of None \<Rightarrow> [0]
       | Some s \<Rightarrow> 1 # u32_le (as_u32 (length (serialize_script_molecule s))) @ serialize_script_molecule s)"
    and bs: "bs = u32_le (as_u32 (length (serialize_outpoint_molecule p))) @ serialize_outpoint_molecule p
       @ u32_le (as_u32 (length (serialize_script_molecule lock))) @ serialize_script_molecule lock @ type_bytes
       @ u32_le (as_u32 (length data)) @ data @ u64_le (ce_capacity e) @ u64_le (ce_created_block_number e)
       @ [of_bool (ce_is_cellbase e)]"
    by (rule encode_snapshot_cell_Ok)
  have ok: "wf_outpoint p" "length (serialize_outpoint_molecule p) \<le> 64 * 1024 * 1024"
    "wf_script lock" "length (serialize_script_molecule lock) \<le> 64 * 1024 * 1024" "length data \<le> 64 * 1024 * 1024"
    using assms(2) e(1,2) by (auto simp: snapshot_cell_ok_def serialize_outpoint_molecule_def wf_outpoint_def)
  have dp: "deserialize_outpoint_molecule (serialize_outpoint_molecule p) = Ok p" using ok(1) by (simp add: deserialize_outpoint_iff)
  have ds: "deserialize_script_molecule (serialize_script_molecule s) = Ok s"
    if "wf_script s" "length (serialize_script_molecule s) \<le> 64 * 1024 * 1024" for s
    using that by (simp add: deserialize_script_iff)
  have flag: "(of_bool b = (1 :: u8)) = b" "of_bool b = (0 :: u8) \<or> of_bool b = (1 :: u8)" for b by (cases b; simp)+
  show ?thesis
  proof (cases "key_follows previous (outpoint_to_key p)")
    case False
    then show ?thesis
      by (simp add: decode_snapshot_cell_def Let_def bs snap_bytes_append[OF ok(2)] dp ensure_def)
  next
    case True
    then show ?thesis
      using ds[OF ok(3,4)] assms(2) e(3)
      by (cases "ce_type_script e")
         (simp_all add: decode_snapshot_cell_def Let_def bs t snap_bytes_append[OF ok(2)] snap_bytes_append[OF ok(4)]
           snap_bytes_append[OF ok(5)] dp ensure_def flag ds snap_bytes_append snapshot_cell_ok_def)
  qed
qed

lemma decode_encoded_cells:
  assumes "map_res (encode_snapshot_cell E) cells = Ok bss" "list_all snapshot_cell_ok cells" "length ns = length cells"
  shows "fold_res (\<lambda>acc _. decode_snapshot_cell E acc) (state, previous, concat bss @ rest) ns =
    (if successively (<) (case previous of None \<Rightarrow> map cell_key cells | Some k \<Rightarrow> k # map cell_key cells)
     then Ok (fold (\<lambda>(p, e). tree_insert E p e) cells state,
              if cells = [] then previous else Some (cell_key (last cells)), rest)
     else Err (SeSnapshot ''outpoints are duplicated or not canonically ordered''))"
  using assms
proof (induction cells arbitrary: bss ns state previous)
  case (Cons item cells)
  obtain p e where item: "item = (p, e)" by (cases item)
  from Cons.prems(1) obtain bs bss' where b: "encode_snapshot_cell E item = Ok bs" "map_res (encode_snapshot_cell E) cells = Ok bss'"
    "bss = bs # bss'" by (auto simp: res_simps)
  from Cons.prems(3) obtain n ns' where n: "ns = n # ns'" "length ns' = length cells" by (cases ns) auto
  have ok: "snapshot_cell_ok (p, e)" "list_all snapshot_cell_ok cells" using Cons.prems(2) item by auto
  note one = decode_encoded_cell[OF b(1)[unfolded item] ok(1), of state previous "concat bss' @ rest"]
  note rest = Cons.IH[OF b(2) ok(2) n(2), of "tree_insert E p e state" "Some (outpoint_to_key p)"]
  show ?case
    using one rest by (cases previous) (auto simp: b(3) n(1) item successively_Cons hd_map)
qed (simp add: option.case_eq_if)

lemma bt_insert_last: "\<forall>x\<in>set (map fst m). x < k \<Longrightarrow> bt_insert k v m = m @ [(k, v)]"
  by (induction m) auto

lemma fold_insert_cells:
  assumes "bt_wf (ct_cells t @ cells)"
  shows "ct_cells (fold (\<lambda>(p, e). tree_insert E p e) cells t) = ct_cells t @ cells"
  using assms
proof (induction cells arbitrary: t)
  case (Cons item cells)
  obtain p e where item: "item = (p, e)" by (cases item)
  have "ct_cells (tree_insert E p e t) = ct_cells t @ [(p, e)]"
    using Cons.prems bt_insert_last[of "ct_cells t" p e] by (auto simp: item bt_wf_def sorted_wrt_append)
  with Cons.IH[of "tree_insert E p e t"] Cons.prems show ?case by (simp add: item)
qed simp

lemma tree_over_fold:
  assumes "tree_over E G t" "\<forall>(p, e)\<in>set cells. compute_leaf_hash E p e \<in> G"
  shows "tree_over E G (fold (\<lambda>(p, e). tree_insert E p e) cells t)"
  using assms by (induction cells arbitrary: t) (auto intro: tree_over_insert)

lemma append_less:
  fixes xs ys :: bytes
  assumes "xs < ys" "length xs = length ys"
  shows "xs @ a < ys @ b"
  using assms(2,1) by (induction xs ys rule: list_induct2) auto

lemma append_less_same: "(xs @ a < xs @ b) = ((a :: bytes) < b)"
  by (induction xs) auto

lemma small_index_le: "i < 256 \<Longrightarrow> u32_le i = [word_of_nat (unat i), 0, 0, 0]"
proof -
  assume "i < 256"
  then have i: "unat i div 256 = 0" "unat i mod 256 = unat i" by (simp_all add: word_less_nat_alt)
  have four: "(4 :: nat) = Suc (Suc (Suc (Suc 0)))" by simp
  show ?thesis unfolding u32_le_def four le_nat.simps i by simp
qed

lemma small_index_keys:
  assumes "p < q" "wf_outpoint p" "wf_outpoint q" "op_index p < 256" "op_index q < 256"
  shows "outpoint_to_key p < outpoint_to_key q"
proof (cases "op_tx_hash p = op_tx_hash q")
  case True
  with assms(1) have "unat (op_index p) < unat (op_index q)"
    by (simp add: less_outpoint_def word_less_nat_alt)
  moreover have "unat (op_index q) < 256" using assms(5) by (simp add: word_less_nat_alt)
  ultimately have "(word_of_nat (unat (op_index p)) :: u8) < word_of_nat (unat (op_index q))"
    by (simp add: word_less_nat_alt unsigned_ucast_eq take_bit_nat_eq_self)
  then show ?thesis
    using assms(4,5) True by (simp add: outpoint_to_key_def append_less_same small_index_le)
next
  case False
  with assms(1) have "op_tx_hash p < op_tx_hash q" by (auto simp: less_outpoint_def)
  then show ?thesis using assms(2,3) by (simp add: outpoint_to_key_def append_less wf_outpoint_def)
qed

lemma small_indices_sorted:
  assumes "bt_wf cells" "list_all snapshot_cell_ok cells" "\<forall>item\<in>set cells. op_index (fst item) < 256"
  shows "sorted_wrt (<) (map cell_key cells)"
proof -
  have "sorted_wrt (\<lambda>x y. fst x < fst y) cells" using assms(1) by (simp add: bt_wf_def sorted_wrt_map)
  moreover have "cell_key x < cell_key y" if "x \<in> set cells" "y \<in> set cells" "fst x < fst y" for x y
    using that assms(2,3) by (intro small_index_keys) (auto simp: list_all_iff snapshot_cell_ok_def)
  ultimately show ?thesis unfolding sorted_wrt_map by (rule sorted_wrt_mono_rel[rotated])
qed

lemma decode_encoded_snapshot:
  assumes "encode_cell_snapshot E t = Ok bs" "list_all snapshot_cell_ok (ct_cells t)" "tree_len t \<le> 16777216"
  shows "decode_cell_snapshot E bs =
    (if sorted_wrt (<) (map cell_key (ct_cells t)) then Ok (fold (\<lambda>(p, e). tree_insert E p e) (ct_cells t) tree_new)
     else Err (SeSnapshot ''outpoints are duplicated or not canonically ordered''))"
proof -
  from assms(1) obtain bss where e: "map_res (encode_snapshot_cell E) (ct_cells t) = Ok bss"
    and bs: "bs = str_bytes ''MSNP'' @ le_nat 2 1 @ u32_le (as_u32 (tree_len t)) @ concat bss"
    by (auto simp: encode_cell_snapshot_def res_simps tree_iter_by_outpoint_from_def)
  have n: "unat (as_u32 (tree_len t)) = length (ct_cells t)" using assms(3) by (simp add: unat_as_u32 tree_len_def)
  have magic: "length (str_bytes ''MSNP'') = 4" "nat_of_le (le_nat 2 1) = 1" by (simp_all add: str_bytes_def le_simps)
  have succ: "successively (<) (map cell_key (ct_cells t)) = sorted_wrt (<) (map cell_key (ct_cells t))"
    by (rule successively_conv_sorted_wrt) (auto intro: transpI)
  show ?thesis
    using decode_encoded_cells[OF e assms(2), of "[0..<length (ct_cells t)]" tree_new None "[]"] assms(3)
    by (simp add: decode_cell_snapshot_def bs magic n[unfolded tree_len_def] succ tree_len_def ensure_def)
qed

section \<open>Properties\<close>

definition snap_cell :: cell_entry where
  "snap_cell = projr (entry_from_output toy_env
     \<lparr>co_lock = \<lparr>sc_code_hash = replicate 32 3, sc_hash_type = 0, sc_args = []\<rparr>, co_type = None, co_capacity = 9\<rparr> [5] 0 False)"

definition two_cells :: "u32 \<Rightarrow> u32 \<Rightarrow> cell_state_tree" where
  "two_cells i j = tree_insert toy_env (OutPoint (replicate 32 1) j) snap_cell
     (tree_insert toy_env (OutPoint (replicate 32 1) i) snap_cell tree_new)"

lemma two_cells_cells: "i < j \<Longrightarrow> ct_cells (two_cells i j) = [(OutPoint (replicate 32 1) i, snap_cell), (OutPoint (replicate 32 1) j, snap_cell)]"
  by (simp add: two_cells_def tree_new_def less_outpoint_def)

lemma snap_cell_simps:
  "ce_lock_script snap_cell = Some \<lparr>sc_code_hash = replicate 32 3, sc_hash_type = 0, sc_args = []\<rparr>" "ce_type_script snap_cell = None"
  "ce_data snap_cell = Some [5]" "ce_capacity snap_cell = 9" "ce_created_block_number snap_cell = 0" "ce_is_cellbase snap_cell = False"
  "entry_from_output toy_env
     \<lparr>co_lock = \<lparr>sc_code_hash = replicate 32 3, sc_hash_type = 0, sc_args = []\<rparr>, co_type = None, co_capacity = 9\<rparr> [5] 0 False = Ok snap_cell"
  by (simp_all add: snap_cell_def entry_from_output_def ckb_script_hash_molecule_def with_resolved_metadata_def cell_entry_new_def)

lemma two_cells_ok:
  assumes "i < j"
  shows "\<exists>bs. encode_cell_snapshot toy_env (two_cells i j) = Ok bs" "bt_wf (ct_cells (two_cells i j))"
    "list_all snapshot_cell_ok (ct_cells (two_cells i j))" "tree_len (two_cells i j) \<le> 16777216"
proof -
  have one: "\<exists>bs. encode_snapshot_cell toy_env (OutPoint (replicate 32 1) k, snap_cell) = Ok bs" for k
    by (simp add: encode_snapshot_cell_def snap_cell_simps snap_put_bytes_def serialize_outpoint_molecule_def length_serialize_script)
  show "\<exists>bs. encode_cell_snapshot toy_env (two_cells i j) = Ok bs"
    using one[of i] one[of j]
    by (auto simp: encode_cell_snapshot_def tree_iter_by_outpoint_from_def tree_len_def two_cells_cells[OF assms])
  show "bt_wf (ct_cells (two_cells i j))" using assms by (simp add: two_cells_cells bt_wf_def less_outpoint_def)
  show "list_all snapshot_cell_ok (ct_cells (two_cells i j))"
    by (simp add: two_cells_cells[OF assms] snapshot_cell_ok_def snap_cell_simps wf_outpoint_def wf_script_def short32_def length_serialize_script)
  show "tree_len (two_cells i j) \<le> 16777216" by (simp add: tree_len_def two_cells_cells[OF assms])
qed

text \<open>
  \<^bold>\<open>C39\<close>. Restart from a snapshot, exactly: the snapshot of a live-cell set, within the decoder's
  limits, is decoded to an executor with the same cells whose state root is the set hash of these
  cells, provided the 36-byte keys of the outpoints ascend; otherwise it is refused. The encoder
  writes the cells in the order of the outpoints, which compares the output index as a number,
  while the key holds the index in little-endian bytes. The two orders agree as long as all
  indices are below 256, and only then in general: a set with the outputs 1 and 256 of one
  transaction has a snapshot that cannot be restored.
\<close>

theorem cell_snapshot_restores:
  assumes "encode_cell_snapshot E t = Ok bs" "bt_wf (ct_cells t)" "list_all snapshot_cell_ok (ct_cells t)" "tree_len t \<le> 16777216"
    and "hash_env_ok E" "\<forall>(p, e)\<in>set (ct_cells t). mh_good E (compute_leaf_hash E p e)"
  shows "(if sorted_wrt (<) (map cell_key (ct_cells t))
          then \<exists>ex. cell_executor_from_snapshot E bs = Ok ex \<and> ct_cells (cx_state ex) = ct_cells t
                 \<and> cx_state_root ex = cells_digest E (ct_cells t)
          else cell_executor_from_snapshot E bs = Err (SeSnapshot ''outpoints are duplicated or not canonically ordered''))
    \<and> ((\<forall>item\<in>set (ct_cells t). op_index (fst item) < 256) \<longrightarrow> sorted_wrt (<) (map cell_key (ct_cells t)))"
proof -
  let ?t = "fold (\<lambda>(p, e). tree_insert E p e) (ct_cells t) tree_new"
  have cells: "ct_cells ?t = ct_cells t"
    using fold_insert_cells[of tree_new "ct_cells t" E] assms(2) by (simp add: tree_new_def)
  have "tree_over E {compute_leaf_hash E p e |p e. (p, e) \<in> set (ct_cells t)} ?t"
    by (rule tree_over_fold[OF tree_over_new]) auto
  from tree_over_digest[OF assms(5) this] assms(6) have root: "fst (tree_root E ?t) = cells_digest E (ct_cells t)"
    by (auto simp: cells)
  have "cell_executor_new E ?t = \<lparr>cx_state = snd (tree_root E ?t), cx_state_root = fst (tree_root E ?t)\<rparr>"
    by (simp add: cell_executor_new_def split_beta)
  then show ?thesis
    using decode_encoded_snapshot[OF assms(1,3,4)] cells root small_indices_sorted[OF assms(2,3)]
    by (simp add: cell_executor_from_snapshot_def)
qed

theorem cell_snapshot_restores_witness:
  "(\<exists>bs. encode_cell_snapshot toy_env (two_cells 1 256) = Ok bs \<and>
      cell_executor_from_snapshot toy_env bs = Err (SeSnapshot ''outpoints are duplicated or not canonically ordered''))
   \<and> (\<exists>bs ex. encode_cell_snapshot toy_env (two_cells 0 1) = Ok bs \<and> cell_executor_from_snapshot toy_env bs = Ok ex
        \<and> ct_cells (cx_state ex) = ct_cells (two_cells 0 1))"
proof -
  have good: "\<forall>(p, e)\<in>set (ct_cells (two_cells i j)). mh_good toy_env (compute_leaf_hash toy_env p e)" for i j
    by (auto simp: toy_good)
  have keys: "\<not> outpoint_to_key (OutPoint (replicate 32 1) 1) < outpoint_to_key (OutPoint (replicate 32 1) 256)"
    "outpoint_to_key (OutPoint (replicate 32 1) 0) < outpoint_to_key (OutPoint (replicate 32 1) 1)"
    by (simp_all only: outpoint_to_key_def append_less_same outpoint.sel) code_simp+
  have lt: "(1 :: u32) < 256" "(0 :: u32) < 1" by simp_all
  obtain bs where "encode_cell_snapshot toy_env (two_cells 1 256) = Ok bs" using two_cells_ok(1)[OF lt(1)] by blast
  with cell_snapshot_restores[OF this two_cells_ok(2-4)[OF lt(1)] toy_env_ok good] keys(1)
  have 1: "\<exists>bs. encode_cell_snapshot toy_env (two_cells 1 256) = Ok bs \<and>
      cell_executor_from_snapshot toy_env bs = Err (SeSnapshot ''outpoints are duplicated or not canonically ordered'')"
    by (auto simp: two_cells_cells)
  obtain bs' where "encode_cell_snapshot toy_env (two_cells 0 1) = Ok bs'" using two_cells_ok(1)[OF lt(2)] by blast
  with cell_snapshot_restores[OF this two_cells_ok(2-4)[OF lt(2)] toy_env_ok good] keys(2)
  have "\<exists>bs ex. encode_cell_snapshot toy_env (two_cells 0 1) = Ok bs \<and> cell_executor_from_snapshot toy_env bs = Ok ex
        \<and> ct_cells (cx_state ex) = ct_cells (two_cells 0 1)"
    by (auto simp: two_cells_cells)
  with 1 show ?thesis by blast
qed

end
