(* ===== verification/Spec2Isabelle.thy ===== *)
theory Spec2Isabelle
  imports Transition Executor Conflict Tendermint_Safety Proof_Codec Mempool Session_Audit Session_Lifecycle Session_Cells
begin

text \<open>
  Verification of Myelin, an off-chain execution layer for CKB-style cells, written in Rust.
  Every theory models code under \<open>src/\<close> with executable definitions that keep the names and the
  order of checks of the source, and proves what makes that code correct. The properties carry the
  ids C1 to C40 in the text in front of each theorem.

  \<^bold>\<open>The program.\<close> A cell is a capacity with a lock script, an optional type script and data, named
  by the outpoint of the transaction that created it. Transactions are encoded with Molecule and
  identified by a hash of their body. The state is a tree of live cells with a MuHash accumulator,
  and a transaction moves it from one root to the next. A pool collects candidates, a graph of
  their dependencies and declared accesses yields layers that can run in parallel, and a consensus
  engine (a static committee, a Tendermint round machine, or proof of authority) finalises blocks.
  A session ties these together: it prepares a block with an executor, commits it once a
  finality proof verifies, stores a record that recovery can audit, and exchanges handoffs with
  other sessions.

  \<^bold>\<open>Foundations.\<close> \<open>Myelin_Base\<close> holds machine words, results (\<open>Ok\<close>, \<open>Err\<close>), checked and saturating
  arithmetic, ordered maps (\<open>btree\<close>) and insertion-ordered maps (\<open>indexmap\<close>), little-endian bytes and
  the locale \<open>kv_store\<close> that both maps and the cell tree interpret. \<open>Codec\<close> has the locales for
  encodings: \<open>prefix_code\<close> for injective concatenation, \<open>strict_codec\<close> and \<open>canonical_codec\<close> for
  decoders that accept exactly the encoder's image. \<open>Crypto_Env\<close> collects the external primitives
  (blake3, blake2b, SHA-256, ChaCha20, the modular inverse of the big-number library) as a record
  argument; \<open>hash_env_ok\<close> states digest lengths and that the inverse is one. No collision freedom is
  assumed anywhere: binding theorems speak of the hashed bytes or name the collision.

  \<^bold>\<open>Cells and codecs.\<close> \<open>Cell_Types\<close> models \<open>exec/src/celltx/types.rs\<close>: outpoints, scripts,
  transactions, locks, fees and mass. \<open>Molecule\<close> and \<open>Molecule_Cell\<close> model
  \<open>exec/src/serialization/molecule_compat.rs\<close>; decoding a transaction succeeds exactly on canonical
  encodings (C8). \<open>Sighash\<close> models \<open>exec/src/celltx/sighash.rs\<close>: identifiers bind bodies and
  witnesses (C9), and the cache of sub-hashes never changes a signature hash (C10).

  \<^bold>\<open>State.\<close> \<open>U3072\<close> and \<open>MuHash\<close> model \<open>crypto/muhash\<close> limb by limb: multiplication and division
  are the operations modulo the prime (C6, C7). \<open>Cell_Tree\<close> models \<open>state/src/cell_tree.rs\<close>; the
  incrementally kept root is the set hash of the live cells (C4). \<open>Transition\<close> models
  \<open>state/src/transition.rs\<close>: the exact acceptance condition, the effect, conservation of capacity
  and atomic rejection (C1, C2, C3, C5). \<open>Typed_Cells\<close> and \<open>Conflict\<close> model the typed conflict domains
  of \<open>state/src/conflict.rs\<close> (C16, C17).

  \<^bold>\<open>Scheduling and pool.\<close> \<open>Dag\<close> models \<open>exec/src/scheduler/dag.rs\<close>: the build succeeds exactly
  without cycles and double spends, layers are the earliest ones and their members commute, the
  path search terminates and decides reachability (C11 to C14). \<open>Executor\<close> models \<open>executor.rs\<close> and
  \<open>vm_bridge.rs\<close>: a transaction runs exactly when its predecessors succeeded (C15). \<open>Mempool\<close> models
  \<open>mempool/src/cellpool.rs\<close>: an invariant over all histories of admissions and removals, and exact
  replacement (C33, C34).

  \<^bold>\<open>Consensus.\<close> \<open>Consensus\<close> models blocks, committees and certificates of \<open>consensus/src/lib.rs\<close>
  (C18 to C22). \<open>Tendermint\<close> models the round machine of \<open>tendermint.rs\<close>, \<open>Tendermint_Safety\<close> an
  adversarial world of such machines with agreement, quorum and finalisation theorems (C23 to
  C26). \<open>Authority\<close> models \<open>proof_of_authority.rs\<close> and the digests of \<open>wallet-auth\<close> (C27, C28). \<open>Engine\<close>
  models configuration, dispatch and module commitments (C29, C30), \<open>Proof_Codec\<close> the wire formats of
  \<open>proof_codec.rs\<close> and of driver messages (C31, C32). The signature scheme and serde_json are
  arguments with their documented laws.

  \<^bold>\<open>Sessions.\<close> \<open>Session_Types\<close> has the records and enumerations of \<open>session/src\<close>; \<open>Session_Checks\<close>
  the validation, limits, commitments, handoffs and successor declarations of \<open>application.rs\<close>,
  \<open>resources.rs\<close>, \<open>effects.rs\<close>, \<open>continuity.rs\<close> and \<open>succession.rs\<close>; \<open>Session_Records\<close> the record sizes,
  record limits and the handoff lifecycle of \<open>record_size.rs\<close>, \<open>resources.rs\<close> and \<open>lifecycle.rs\<close>;
  \<open>Session_Chain\<close> the functions \<open>create\<close>, \<open>prepare_block\<close>, \<open>commit_finalised\<close>, \<open>audit_record\<close> and the
  lifecycle audit. The executor, the finality verifier and the store are records of functions
  passed as arguments, like the traits of the source; nothing is assumed of them. \<open>Session_Audit\<close>
  shows that the recovery audit accepts every committed history and reproduces its head (C35),
  that an audited chain is one unbroken line (C36), that committed records are within the genesis
  limits (C37) and that the head hash binds the chain (C40). \<open>Session_Lifecycle\<close> adds the
  updates of \<open>session-store-rocksdb/src/lib.rs\<close> on one handoff: it has a single terminal outcome
  (C38). \<open>Session_Cells\<close> models the built-in executor with its snapshot format; C39 states exactly
  which snapshots can be restored.

  \<^bold>\<open>Errors and overflow.\<close> Errors are values of the source's error enumerations; the formatted text
  of a message is shortened to a fixed text. Arithmetic that the source leaves unchecked panics in
  release builds (\<open>overflow-checks = true\<close>) and is a separate error value where it can happen.

  \<^bold>\<open>Loops and fuel.\<close> Loops over collections are structural. The depth-first searches of \<open>Dag\<close> and the
  descendant search of \<open>Mempool\<close> terminate by a measure on the nodes not yet visited. The walk over
  predecessor sessions recurses on the source's own depth limit of 32. No definition
  has fuel beyond what the source bounds.

  \<^bold>\<open>Concurrency.\<close> The threads of one layer are a map over its nodes, since the verifier reads an
  immutable view. The lock of the pool is the sequencing of its operations. Tendermint messages
  arrive in any order, duplicated or lost. Between two commits of a session the shared store may
  change arbitrarily.

  \<^bold>\<open>Not modelled.\<close> The RISC-V machine and its syscalls (the ckb-vm crate is external; the script
  verifier is an argument). Floating-point scores of the pool and fee-density keys. Serde wire
  structs, postcard and JSON encoders (arguments). Paged recovery, offline replay, inspection
  queries and consensus write-ahead records of the session crate, which read and write the store
  around the modelled audit. RocksDB, archive, journal, network, runtime, worker and command-line
  crates, which are input and output. The transfer and escrow crates, which are applications of
  the modelled interfaces. The data-availability, segment and index code of the state crate, which
  manages files. Serialization caches and streaming readers. JoyID, BIP-32 and address encodings of
  \<open>wallet-auth\<close>.
\<close>

end
